(* ===== verification/Prelude.thy ===== *)
theory Prelude
  imports Main "HOL-Library.Word" "HOL-Library.Sublist" "HOL-Library.Code_Target_Numeral"
begin

text \<open>
  Shared vocabulary of the development.

  A Go string is a list of bytes, here a \<open>string\<close> (a \<open>char list\<close>; one \<open>char\<close> is one byte).
  \<open>trimSpace\<close> is \<open>strings.TrimSpace\<close>: it removes the six ASCII white-space bytes and the UTF-8 text
  of the other code points with the Unicode property White Space.  \<open>toLower\<close>, \<open>toUpper\<close> and
  \<open>equalFold\<close> map the ASCII letters; the sources apply them to hexadecimal addresses, hashes and
  keywords, and the case mappings of other code points are not modelled.

  A \<open>*big.Int\<close> is an \<open>int\<close>; a pointer that may be nil is an \<open>int option\<close>.  \<open>setString\<close> is
  \<open>(*big.Int).SetString(s, base)\<close> on a fresh receiver: the value it leaves in the receiver and
  its second result.  The receiver keeps the digits read before the first byte that is not a
  digit, and several callers drop the second result, so both are kept.

  The collections \<open>go_string\<close> and \<open>go_num\<close> hold the facts about these helpers that the component
  theories simplify with.
\<close>

named_theorems go_string \<open>facts about the byte-string helpers\<close>
named_theorems go_num \<open>facts about digits, hexadecimal text and words\<close>

section \<open>Byte strings\<close>

definition hasPrefix :: "string \<Rightarrow> string \<Rightarrow> bool" where
  "hasPrefix s p = (take (length p) s = p)"

definition trimPrefix :: "string \<Rightarrow> string \<Rightarrow> string" where
  "trimPrefix s p = (if hasPrefix s p then drop (length p) s else s)"

definition substr :: "string \<Rightarrow> nat \<Rightarrow> nat \<Rightarrow> string" where
  "substr s i j = take (j - i) (drop i s)"

definition byteOf :: "char \<Rightarrow> nat" where
  "byteOf c = of_char c"

definition lowerChar :: "char \<Rightarrow> char" where
  "lowerChar c = (if 65 \<le> byteOf c \<and> byteOf c \<le> 90 then char_of (byteOf c + 32) else c)"

definition upperChar :: "char \<Rightarrow> char" where
  "upperChar c = (if 97 \<le> byteOf c \<and> byteOf c \<le> 122 then char_of (byteOf c - 32) else c)"

text \<open>
  Case mapping is that of ASCII; a letter beyond it stays as it is.  Four letters beyond it map into
  ASCII: the long s and the dotless i in upper case, the dotted capital i and the Kelvin sign in lower
  case.  \<open>upperText\<close> and \<open>lowerText\<close> map these too, for the texts that need not be hexadecimal.
\<close>

definition toLower :: "string \<Rightarrow> string" where
  "toLower s = map lowerChar s"

fun upperText :: "string \<Rightarrow> string" where
  "upperText (a # b # cs) =
     (if byteOf a = 197 \<and> byteOf b = 191 then CHR ''S'' # upperText cs
      else if byteOf a = 196 \<and> byteOf b = 177 then CHR ''I'' # upperText cs
      else upperChar a # upperText (b # cs))"
| "upperText s = map upperChar s"

fun lowerText :: "string \<Rightarrow> string" where
  "lowerText (a # b # cs) =
     (if byteOf a = 196 \<and> byteOf b = 176 then CHR ''i'' # lowerText cs
      else if byteOf a = 226 \<and> byteOf b = 132 \<and> cs \<noteq> [] \<and> byteOf (hd cs) = 170 then CHR ''k'' # lowerText (tl cs)
      else lowerChar a # lowerText (b # cs))"
| "lowerText s = map lowerChar s"

definition equalFold :: "string \<Rightarrow> string \<Rightarrow> bool" where
  "equalFold a b = (toLower a = toLower b)"

definition asciiSpace :: "char \<Rightarrow> bool" where
  "asciiSpace c = (byteOf c = 32 \<or> (9 \<le> byteOf c \<and> byteOf c \<le> 13))"

definition wideSpaces :: "string list" where
  "wideSpaces = map (map char_of)
     ([[194 :: nat, 133], [194, 160], [225, 154, 128], [226, 128, 168], [226, 128, 169], [226, 128, 175],
       [226, 129, 159], [227, 128, 128]] @ map (\<lambda>i. [226, 128, 128 + i]) [0..<11])"

fun dropSpaces :: "string list \<Rightarrow> string \<Rightarrow> string" where
  "dropSpaces ws [] = []"
| "dropSpaces ws (c # cs) =
     (if asciiSpace c then dropSpaces ws cs
      else case find (hasPrefix (c # cs)) ws of
        Some w \<Rightarrow> dropSpaces ws (drop (length w - 1) cs)
      | None \<Rightarrow> c # cs)"

definition trimSpace :: "string \<Rightarrow> string" where
  "trimSpace s = rev (dropSpaces (map rev wideSpaces) (rev (dropSpaces wideSpaces s)))"

text \<open>A byte that no white space starts or ends with.\<close>

definition solid :: "char \<Rightarrow> bool" where
  "solid c \<longleftrightarrow> \<not> asciiSpace c \<and> byteOf c < 128"

fun indexByte :: "string \<Rightarrow> char \<Rightarrow> nat option" where
  "indexByte [] c = None"
| "indexByte (x # xs) c = (if x = c then Some 0 else map_option Suc (indexByte xs c))"

definition lastIndexByte :: "string \<Rightarrow> char \<Rightarrow> nat option" where
  "lastIndexByte s c = map_option (\<lambda>i. length s - 1 - i) (indexByte (rev s) c)"

lemma hasPrefix_append [simp, go_string]: "hasPrefix (p @ s) p"
  by (simp add: hasPrefix_def)

lemma trimPrefix_append [simp, go_string]: "trimPrefix (p @ s) p = s"
  by (simp add: trimPrefix_def)

lemma hasPrefix_0x [simp, go_string]:
  "hasPrefix (a # b # s) [c, d] \<longleftrightarrow> a = c \<and> b = d"
  by (simp add: hasPrefix_def)

lemma trimPrefix_0x [simp, go_string]:
  "trimPrefix (CHR ''0'' # CHR ''x'' # s) ''0x'' = s"
  by (simp add: trimPrefix_def)

lemma length_substr [simp, go_string]: "j \<le> length s \<Longrightarrow> length (substr s i j) = j - i"
  by (simp add: substr_def)

lemma substr_append_left [simp, go_string]:
  "length a = i \<Longrightarrow> substr (a @ b) i j = take (j - i) b"
  by (simp add: substr_def)

lemma length_toLower [simp, go_string]: "length (toLower s) = length s"
  by (simp add: toLower_def)

lemma byteOf_char_of [simp, go_string]: "n < 256 \<Longrightarrow> byteOf (char_of n) = n"
  by (simp add: byteOf_def)

lemma byteOf_less [simp]: "byteOf c < 256"
  by (simp add: byteOf_def)

lemma lowerChar_idem [simp, go_string]: "lowerChar (lowerChar c) = lowerChar c"
  by (auto simp: lowerChar_def)

lemma toLower_idem [simp, go_string]: "toLower (toLower s) = toLower s"
  by (induction s) (simp_all add: toLower_def)

lemma toLower_append [simp, go_string]: "toLower (a @ b) = toLower a @ toLower b"
  by (simp add: toLower_def)

lemma length_dropSpaces: "length (dropSpaces ws s) \<le> length s"
  by (induction ws s rule: dropSpaces.induct) (auto split: option.splits intro: order_trans)

lemma length_trimSpace [simp, go_string]: "length (trimSpace s) \<le> length s"
  unfolding trimSpace_def by (metis length_dropSpaces length_rev order_trans)

lemma trimSpace_Nil [simp, go_string]: "trimSpace [] = []"
  by (simp add: trimSpace_def)

lemma wideSpaces_high:
  "w \<in> set wideSpaces \<Longrightarrow> w \<noteq> [] \<and> 128 \<le> byteOf (hd w) \<and> 128 \<le> byteOf (last w)"
  unfolding wideSpaces_def by (auto simp: byteOf_def)

lemma dropSpaces_solid:
  assumes "\<forall>w \<in> set ws. w \<noteq> [] \<and> 128 \<le> byteOf (hd w)" "s = [] \<or> solid (hd s)"
  shows "dropSpaces ws s = s"
proof (cases s)
  case (Cons c cs)
  have "find (hasPrefix (c # cs)) ws = None"
    using assms Cons by (fastforce simp: find_None_iff hasPrefix_def solid_def neq_Nil_conv)
  then show ?thesis using assms(2) Cons by (auto simp: solid_def)
qed simp

lemma dropSpaces_ascii: "list_all asciiSpace w \<Longrightarrow> dropSpaces ws (w @ s) = dropSpaces ws s"
  by (induction w) auto

lemma wideSpaces_solid:
  "s = [] \<or> solid (hd s) \<Longrightarrow> dropSpaces wideSpaces s = s"
  "s = [] \<or> solid (hd s) \<Longrightarrow> dropSpaces (map rev wideSpaces) s = s"
  by (intro dropSpaces_solid; auto dest: wideSpaces_high simp: hd_rev)+

lemma trimSpace_both:
  assumes "d \<noteq> []" "solid (hd d)" "solid (last d)" "list_all asciiSpace u" "list_all asciiSpace w"
  shows "trimSpace (u @ d @ w) = d"
proof -
  have "list_all asciiSpace (rev w)" using assms(5) by simp
  then show ?thesis using assms
    by (simp add: trimSpace_def dropSpaces_ascii wideSpaces_solid hd_append hd_rev)
qed

lemma trimSpace_right:
  "s \<noteq> [] \<Longrightarrow> solid (hd s) \<Longrightarrow> solid (last s) \<Longrightarrow> list_all asciiSpace w \<Longrightarrow> trimSpace (s @ w) = s"
  using trimSpace_both[of s "[]" w] by simp

lemma trimSpace_id: "s = [] \<or> (solid (hd s) \<and> solid (last s)) \<Longrightarrow> trimSpace s = s"
  using trimSpace_both[of s "[]" "[]"] by (cases "s = []") auto

lemma indexByte_Some:
  "indexByte s c = Some i \<Longrightarrow> i < length s \<and> s ! i = c \<and> c \<notin> set (take i s)"
  by (induction s arbitrary: i) (auto split: if_splits)

lemma indexByte_None: "indexByte s c = None \<longleftrightarrow> c \<notin> set s"
  by (induction s) auto

lemma indexByte_less: "indexByte s c = Some i \<Longrightarrow> i < length s"
  by (simp add: indexByte_Some)

section \<open>Digits and numerals\<close>

definition digitVal :: "char \<Rightarrow> nat option" where
  "digitVal c =
     (let b = byteOf c in
      if 48 \<le> b \<and> b \<le> 57 then Some (b - 48)
      else if 97 \<le> b \<and> b \<le> 122 then Some (b - 87)
      else if 65 \<le> b \<and> b \<le> 90 then Some (b - 55)
      else None)"

definition digitChar :: "nat \<Rightarrow> char" where
  "digitChar d = char_of (if d < 10 then d + 48 else d + 87)"

fun scanDigits :: "nat \<Rightarrow> nat \<Rightarrow> string \<Rightarrow> nat \<times> string" where
  "scanDigits b acc [] = (acc, [])"
| "scanDigits b acc (c # cs) =
     (case digitVal c of
        None \<Rightarrow> (acc, c # cs)
      | Some d \<Rightarrow> if d < b then scanDigits b (acc * b + d) cs else (acc, c # cs))"

definition setString :: "nat \<Rightarrow> string \<Rightarrow> int \<times> bool" where
  "setString b s =
     (let neg = (case s of [] \<Rightarrow> False | c # _ \<Rightarrow> c = CHR ''-'');
          ds = (case s of [] \<Rightarrow> [] | c # cs \<Rightarrow> if c = CHR ''-'' \<or> c = CHR ''+'' then cs else s);
          (v, rest) = scanDigits b 0 ds
      in (if neg then - int v else int v, ds \<noteq> [] \<and> rest = []))"

function natText :: "nat \<Rightarrow> nat \<Rightarrow> string" where
  "natText b n = (if b < 2 \<or> n < b then [digitChar n] else natText b (n div b) @ [digitChar (n mod b)])"
  by auto
termination
  by (relation "measure snd") (auto simp: div_less_dividend)

declare natText.simps [simp del]

definition intText :: "nat \<Rightarrow> int \<Rightarrow> string" where
  "intText b n = (if n < 0 then CHR ''-'' # natText b (nat (- n)) else natText b (nat n))"

lemma digitVal_digitChar [simp, go_num]: "d < 36 \<Longrightarrow> digitVal (digitChar d) = Some d"
  by (auto simp: digitVal_def digitChar_def Let_def)

lemma byteOf_digitChar: "d < 36 \<Longrightarrow> byteOf (digitChar d) = (if d < 10 then d + 48 else d + 87)"
  by (simp add: digitChar_def)

lemma digitChar_not_sign [simp, go_num]:
  assumes "d < 36"
  shows "digitChar d \<noteq> CHR ''-''" "digitChar d \<noteq> CHR ''+''"
  using byteOf_digitChar[OF assms] by (auto simp: byteOf_def split: if_splits)

lemma scanDigits_append:
  "scanDigits b acc xs = (v, []) \<Longrightarrow> scanDigits b acc (xs @ ys) = scanDigits b v ys"
  by (induction b acc xs rule: scanDigits.induct) (auto split: option.splits if_splits)

lemma scanDigits_natText [go_num]:
  assumes "2 \<le> b" "b \<le> 36"
  shows "scanDigits b 0 (natText b n) = (n, [])"
proof (induction n rule: less_induct)
  case (less n)
  show ?case
  proof (cases "n < b")
    case True
    then show ?thesis using assms by (simp add: natText.simps[of b n])
  next
    case False
    then have "n div b < n" using assms by (auto intro!: div_less_dividend)
    then have ih: "scanDigits b 0 (natText b (n div b)) = (n div b, [])" by (rule less)
    have m: "n mod b < b" "n mod b < 36" using assms by (simp, meson assms less_le_trans mod_less_divisor zero_less_numeral order_less_le_trans)
    show ?thesis
      using False assms m ih
      by (simp add: natText.simps[of b n] scanDigits_append[OF ih])
  qed
qed

lemma scanDigits_zeros [simp, go_num]:
  "2 \<le> b \<Longrightarrow> scanDigits b 0 (replicate k (CHR ''0'') @ s) = scanDigits b 0 s"
  by (induction k) (auto simp: digitVal_def byteOf_def)

lemma natText_not_Nil [simp, go_num]: "natText b n \<noteq> []"
  by (subst natText.simps) simp

lemma natText_hd:
  assumes "2 \<le> b" "b \<le> 36"
  shows "\<exists>d < 36. \<exists>cs. natText b n = digitChar d # cs"
proof (induction n rule: less_induct)
  case (less n)
  show ?case
  proof (cases "n < b")
    case True
    then show ?thesis using assms by (auto simp: natText.simps[of b n] intro!: exI[of _ n])
  next
    case False
    then have "n div b < n" using assms by (auto intro!: div_less_dividend)
    from less[OF this] False assms show ?thesis
      by (subst natText.simps) auto
  qed
qed

lemma setString_natText [go_num]:
  assumes "2 \<le> b" "b \<le> 36"
  shows "setString b (natText b n) = (int n, True)"
proof -
  obtain d cs where d: "d < 36" "natText b n = digitChar d # cs"
    using natText_hd[OF assms] by blast
  have "scanDigits b 0 (digitChar d # cs) = (n, [])"
    using scanDigits_natText[OF assms, of n] d by simp
  then show ?thesis
    using d by (simp add: setString_def Let_def del: scanDigits.simps)
qed

lemma setString_padded [go_num]:
  assumes "2 \<le> b" "b \<le> 36"
  shows "setString b (replicate k (CHR ''0'') @ natText b n) = (int n, True)"
proof (cases k)
  case 0
  then show ?thesis using setString_natText[OF assms] by simp
next
  case (Suc j)
  have "scanDigits b 0 (replicate (Suc j) (CHR ''0'') @ natText b n) = (n, [])"
    using scanDigits_zeros[of b "Suc j" "natText b n"] assms scanDigits_natText[OF assms] by simp
  then show ?thesis
    by (simp add: Suc setString_def Let_def del: scanDigits.simps)
qed

lemma setString_intText:
  assumes "2 \<le> b" "b \<le> 36"
  shows "setString b (intText b z) = (z, True)"
proof (cases "z < 0")
  case True
  have "scanDigits b 0 (natText b (nat (- z))) = (nat (- z), [])"
    by (rule scanDigits_natText[OF assms])
  then show ?thesis using True
    by (simp add: intText_def setString_def Let_def del: scanDigits.simps)
next
  case False
  then show ?thesis by (simp add: intText_def setString_natText[OF assms])
qed

lemma natText_length_le:
  assumes "2 \<le> b"
  shows "n < b ^ Suc k \<Longrightarrow> length (natText b n) \<le> Suc k"
proof (induction k arbitrary: n)
  case 0
  then show ?case by (simp add: natText.simps[of b n])
next
  case (Suc k)
  show ?case
  proof (cases "n < b")
    case True
    then show ?thesis by (simp add: natText.simps[of b n])
  next
    case False
    have "n div b < b ^ Suc k"
      using Suc.prems by (simp add: less_mult_imp_div_less mult.commute)
    from Suc.IH[OF this] False assms show ?thesis by (subst natText.simps) auto
  qed
qed

lemma scanDigits_bound:
  "scanDigits b acc s = (v, rest) \<Longrightarrow> 0 < b \<Longrightarrow> v < (acc + 1) * b ^ length s"
proof (induction b acc s rule: scanDigits.induct)
  case (1 b acc)
  then show ?case by simp
next
  case (2 b acc c cs)
  have keep: "acc < (acc + 1) * b ^ length (c # cs)"
    using 2(3) by (metis Suc_eq_plus1 less_le_trans lessI mult_le_mono2 mult.right_neutral
        one_le_power Suc_leI One_nat_def)
  show ?case
  proof (cases "digitVal c")
    case None
    then show ?thesis using 2(2) keep by auto
  next
    case (Some d)
    show ?thesis
    proof (cases "d < b")
      case False
      then show ?thesis using Some 2(2) keep by auto
    next
      case True
      then have "v < (acc * b + d + 1) * b ^ length cs"
        using 2 Some by simp
      also have "\<dots> \<le> ((acc + 1) * b) * b ^ length cs"
        using True by (intro mult_right_mono) (simp_all add: algebra_simps)
      finally show ?thesis by (simp add: algebra_simps)
    qed
  qed
qed

lemma setString_abs_bound:
  assumes "0 < b"
  shows "\<bar>fst (setString b s)\<bar> < int (b ^ length s) \<or> s = []"
proof (cases s)
  case (Cons c cs)
  define ds where "ds = (if c = CHR ''-'' \<or> c = CHR ''+'' then cs else s)"
  obtain v rest where v: "scanDigits b 0 ds = (v, rest)" by fastforce
  have "v < b ^ length ds" using scanDigits_bound[OF v assms] by simp
  also have "\<dots> \<le> b ^ length s"
    using assms by (intro power_increasing) (auto simp: ds_def Cons)
  finally have "v < b ^ length s" .
  moreover have "fst (setString b s) = int v \<or> fst (setString b s) = - int v"
    using v by (auto simp: setString_def Cons ds_def Let_def)
  ultimately show ?thesis by (metis abs_minus abs_of_nat of_nat_less_iff)
qed simp

section \<open>Lists\<close>

lemma map_filter_append [simp]:
  "List.map_filter f (xs @ ys) = List.map_filter f xs @ List.map_filter f ys"
  by (simp add: List.map_filter_def)

lemma map_filter_single: "List.map_filter f [x] = (case f x of None \<Rightarrow> [] | Some y \<Rightarrow> [y])"
  by (simp add: List.map_filter_def split: option.splits)

lemma in_map_filter: "y \<in> set (List.map_filter f xs) \<longleftrightarrow> (\<exists>x \<in> set xs. f x = Some y)"
  by (force simp: List.map_filter_def)

end
