(* ===== verification/EvmLog.thy ===== *)
theory EvmLog
  imports Prelude
begin

text \<open>
  The EVM log of package \<open>defi\<close> (src/evm/defi/governance.go) and the field decoders the four
  event parsers share: \<open>decodeWord\<close>, \<open>decodeAddress\<close>, \<open>topicAddress\<close> (governance.go),
  \<open>wordFromTopic\<close> and \<open>wordHex\<close> (dao.go).

  Every parsed event carries the contract, block and transaction of its log; these three fields
  are the record \<open>logOrigin\<close>, which the event records of the parsers extend.

  The locale \<open>log_stream\<close> is the interface between a parser loop and one of the event lists it
  fills: what one pass over a log does to that list, and what a decoded event owes to its log.
  Its client lemmas are proved once here and interpreted for all twelve lists in the theories
  of the parsers.
\<close>

record log =
  logAddress :: string
  logTopics :: "string list"
  logData :: string
  logBlockNumber :: "64 word"
  logTxHash :: string
  logIndex :: string

record logOrigin =
  evContract :: string
  evBlock :: "64 word"
  evTxHash :: string

definition fromLog :: "log \<Rightarrow> 'a logOrigin_scheme \<Rightarrow> bool" where
  "fromLog l e \<longleftrightarrow> evContract e = logAddress l \<and> evBlock e = logBlockNumber l \<and> evTxHash e = logTxHash l"

definition decodeWord :: "string \<Rightarrow> nat \<Rightarrow> int" where
  "decodeWord data0 wordIndex =
     (let data = trimPrefix data0 ''0x''; start = wordIndex * 64 in
      if start + 64 > length data then 0
      else fst (setString 16 (substr data start (start + 64))))"

definition decodeAddress :: "string \<Rightarrow> nat \<Rightarrow> string" where
  "decodeAddress data0 wordIndex =
     (let data = trimPrefix data0 ''0x''; start = wordIndex * 64 + 24 in
      if start + 40 > length data then ''''
      else ''0x'' @ substr data start (start + 40))"

definition topicAddress :: "string \<Rightarrow> string" where
  "topicAddress topic =
     (if length topic \<ge> 42 then ''0x'' @ drop (length topic - 40) topic else topic)"

definition wordFromTopic :: "string \<Rightarrow> int" where
  "wordFromTopic topic = (if length topic > 2 then fst (setString 16 (drop 2 topic)) else 0)"

definition wordHex :: "int option \<Rightarrow> string" where
  "wordHex n = (case n of None \<Rightarrow> ''0x0'' | Some k \<Rightarrow> ''0x'' @ intText 16 k)"

definition isUint64 :: "int \<Rightarrow> bool" where
  "isUint64 n = (0 \<le> n \<and> n < 2 ^ 64)"

text \<open>The idiom \<open>if x.IsUint64() { r = uintN(x.Uint64()) }\<close> of the parsers: zero when the
  word does not fit in 64 bits, its low bits otherwise.\<close>

definition narrow :: "int \<Rightarrow> 'w::len word" where
  "narrow n = (if isUint64 n then ucast (word_of_int n :: 64 word) else 0)"

text \<open>What a log must carry for a decoder that reads a word: hexadecimal text of 32-byte words.\<close>

definition encodeWord :: "nat \<Rightarrow> string" where
  "encodeWord n = replicate (64 - length (natText 16 n)) (CHR ''0'') @ natText 16 n"

lemma length_encodeWord: "n < 2 ^ 256 \<Longrightarrow> length (encodeWord n) = 64"
  using natText_length_le[of 16 n 63] by (simp add: encodeWord_def)

lemma setString_encodeWord [simp]: "setString 16 (encodeWord n) = (int n, True)"
  by (simp add: encodeWord_def setString_padded)

lemma length_concat_encodeWord:
  "\<forall>n \<in> set ns. n < 2 ^ 256 \<Longrightarrow> length (concat (map encodeWord ns)) = 64 * length ns"
  by (induction ns) (simp_all add: length_encodeWord)

lemma substr_concat_encodeWord:
  "\<forall>n \<in> set ns. n < 2 ^ 256 \<Longrightarrow> i < length ns \<Longrightarrow>
   substr (concat (map encodeWord ns) @ rest) (i * 64) (i * 64 + 64) = encodeWord (ns ! i)"
proof (induction ns arbitrary: i)
  case (Cons n ns)
  have l: "length (encodeWord n) = 64" using Cons.prems by (simp add: length_encodeWord)
  show ?case
  proof (cases i)
    case 0
    then show ?thesis by (simp add: substr_def l)
  next
    case (Suc j)
    have "substr (concat (map encodeWord ns) @ rest) (j * 64) (j * 64 + 64) = encodeWord (ns ! j)"
      using Cons Suc by simp
    then show ?thesis by (simp add: Suc substr_def l add.commute[of 64])
  qed
qed simp

lemma decodeWord_encoded:
  assumes "\<forall>n \<in> set ns. n < 2 ^ 256" "i < length ns"
  shows "decodeWord (''0x'' @ concat (map encodeWord ns) @ rest) i = int (ns ! i)"
proof -
  have "\<not> i * 64 + 64 > length (concat (map encodeWord ns) @ rest)"
    using assms(2) by (simp add: length_concat_encodeWord[OF assms(1)])
  then show ?thesis
    by (simp add: decodeWord_def substr_concat_encodeWord[OF assms] del: append_Cons append_Nil
        append.simps map_append concat_append) 
qed

lemma decodeWord_bound: "\<bar>decodeWord d i\<bar> < 2 ^ 256"
proof (cases "i * 64 + 64 > length (trimPrefix d ''0x'')")
  case False
  let ?s = "substr (trimPrefix d ''0x'') (i * 64) (i * 64 + 64)"
  have l: "length ?s = 64" using False by simp
  then have "?s \<noteq> []" by (metis list.size(3) zero_neq_numeral)
  then have "\<bar>fst (setString 16 ?s)\<bar> < int (16 ^ length ?s)"
    using setString_abs_bound[of 16 ?s] by simp
  then show ?thesis using False l by (simp add: decodeWord_def Let_def)
qed (simp add: decodeWord_def)

lemma narrow_small: "0 \<le> n \<Longrightarrow> n < 2 ^ 64 \<Longrightarrow> (narrow n :: 'w::len word) = word_of_int n"
  by (simp add: narrow_def isUint64_def unsigned_ucast_eq ucast_eq word_of_int_inverse
      take_bit_int_eq_self unsigned_of_int)

section \<open>Event streams\<close>

text \<open>\<open>step\<close> is one pass of a parser loop, \<open>view\<close> the list of one event type in its state and
  \<open>dec\<close> the event a log gives for that list, if any.\<close>

locale log_stream =
  fixes step :: "'s \<Rightarrow> log \<Rightarrow> 's"
    and view :: "'s \<Rightarrow> 'a logOrigin_scheme list"
    and dec :: "log \<Rightarrow> 'a logOrigin_scheme option"
    and topics :: "string set"
  assumes step_appends:
      "view (step s l) = view s @ (case dec l of None \<Rightarrow> [] | Some e \<Rightarrow> [e])"
    and dec_origin: "dec l = Some e \<Longrightarrow> fromLog l e"
    and dec_topic: "dec l = Some e \<Longrightarrow> logTopics l \<noteq> [] \<and> hd (logTopics l) \<in> topics"
begin

lemma run_filter: "view (foldl step s logs) = view s @ List.map_filter dec logs"
  by (induction logs arbitrary: s) (auto simp: step_appends List.map_filter_def split: option.splits)

lemma run_traced:
  assumes "e \<in> set (view (foldl step s logs))" "view s = []"
  shows "\<exists>l \<in> set logs. dec l = Some e \<and> fromLog l e \<and> logTopics l \<noteq> [] \<and> hd (logTopics l) \<in> topics"
  using assms by (auto simp: run_filter in_map_filter dest: dec_origin dec_topic)

lemma run_append:
  assumes "view s = []"
  shows "view (foldl step s (xs @ ys)) = view (foldl step s xs) @ view (foldl step s ys)"
  unfolding run_filter assms map_filter_append by simp

lemma run_foreign:
  assumes "\<forall>l \<in> set logs. logTopics l = [] \<or> hd (logTopics l) \<notin> topics"
  shows "view (foldl step s logs) = view s"
proof -
  have "\<forall>l \<in> set logs. dec l = None"
    using assms dec_topic by (metis not_Some_eq)
  then have "List.map_filter dec logs = []" by (auto simp: List.map_filter_def filter_empty_conv)
  then show ?thesis by (simp add: run_filter)
qed

lemma run_length: "length (view (foldl step s logs)) \<le> length (view s) + length logs"
  by (simp add: run_filter List.map_filter_def)

end

end
