(* ===== verification/DefiGovernance.thy ===== *)
theory DefiGovernance
  imports EvmLog
begin

text \<open>
  Governance events, src/evm/defi/governance.go: the event signatures, the four event records, one
  decoder per event and the loop \<open>ParseGovernanceEvents\<close>, whose state is the four slices it fills.
  A decoder that can return nil is an option; a struct field the literal leaves out has Go's
  zero value.
\<close>

definition TopicProposalCreated :: string where
  "TopicProposalCreated = ''0x95f03e437e6d5037418f12bef80fc7e0a5f27754c078a1d5d3f62d39bac44e50''"
definition TopicVoteCast :: string where
  "TopicVoteCast = ''0xb8e138887d0aa13bab447e82de9d5c1777041ecd21ca36ba824ff1e6c07ddda4''"
definition TopicProposalExecuted :: string where
  "TopicProposalExecuted = ''0x712ae1383f79ac853f8d882153778e0260ef8f03b504e2866e0593e04d2b291f''"
definition TopicProposalCanceled :: string where
  "TopicProposalCanceled = ''0x789cf55be980739dad1d0699b93b58e806b51c9d96619bfa8fe0a28abaa7b30c''"
definition TopicProposalQueued :: string where
  "TopicProposalQueued = ''0x9a2e42fd6722813d69113e7d0079d3d940171428df7373df9c7f7617cfda2892''"
definition TopicDelegateChanged :: string where
  "TopicDelegateChanged = ''0x3134e8a2e6d97e929a7e54011ea5485d7d196dd5f0ba4d4ef95803e8e3fc257f''"
definition TopicDelegateVotesChanged :: string where
  "TopicDelegateVotesChanged = ''0xdec2bacdd2f05b59de34da9b523dff8be42e5e38e818c82fdb0bae774387a724''"
definition TopicGuardianUpdated :: string where
  "TopicGuardianUpdated = ''0x064d28d3d3071c5cbc271a261c10c2f0f0d9e319390397101aa0eb23c6bad909''"

lemmas gov_topic_defs = TopicProposalCreated_def TopicVoteCast_def TopicProposalExecuted_def
  TopicProposalCanceled_def TopicProposalQueued_def TopicDelegateChanged_def
  TopicDelegateVotesChanged_def TopicGuardianUpdated_def

definition GovernanceTopics :: "string list" where
  "GovernanceTopics =
     [TopicProposalCreated, TopicVoteCast, TopicProposalExecuted, TopicProposalCanceled,
      TopicProposalQueued, TopicDelegateChanged, TopicDelegateVotesChanged, TopicGuardianUpdated]"

record GovernanceProposal = logOrigin +
  gpProposalID :: int
  gpProposer :: string
  gpStartBlock :: "int option"
  gpEndBlock :: "int option"
  gpETA :: "int option"
  gpEvent :: string

record Vote = logOrigin +
  voteVoter :: string
  voteProposalID :: int
  voteSupport :: "8 word"
  voteWeight :: int

record DelegateChange = logOrigin +
  dcDelegator :: string
  dcFromDelegate :: string
  dcToDelegate :: string

record DelegateVotesChange = logOrigin +
  dvDelegate :: string
  dvPreviousBalance :: int
  dvNewBalance :: int

definition parseProposalCreated :: "log \<Rightarrow> GovernanceProposal" where
  "parseProposalCreated l =
     \<lparr> evContract = logAddress l, evBlock = logBlockNumber l, evTxHash = logTxHash l,
       gpProposalID = decodeWord (logData l) 0,
       gpProposer = decodeAddress (logData l) 1,
       gpStartBlock = Some (decodeWord (logData l) 5),
       gpEndBlock = Some (decodeWord (logData l) 6),
       gpETA = None, gpEvent = ''created'' \<rparr>"

definition parseVoteCast :: "log \<Rightarrow> Vote option" where
  "parseVoteCast l =
     (if length (logTopics l) < 2 then None
      else Some
       \<lparr> evContract = logAddress l, evBlock = logBlockNumber l, evTxHash = logTxHash l,
         voteVoter = topicAddress (logTopics l ! 1),
         voteProposalID = decodeWord (logData l) 0,
         voteSupport = narrow (decodeWord (logData l) 1),
         voteWeight = decodeWord (logData l) 2 \<rparr>)"

definition parseProposalSimple :: "log \<Rightarrow> string \<Rightarrow> GovernanceProposal" where
  "parseProposalSimple l event =
     \<lparr> evContract = logAddress l, evBlock = logBlockNumber l, evTxHash = logTxHash l,
       gpProposalID = decodeWord (logData l) 0,
       gpProposer = '''', gpStartBlock = None, gpEndBlock = None, gpETA = None, gpEvent = event \<rparr>"

definition parseProposalQueued :: "log \<Rightarrow> GovernanceProposal" where
  "parseProposalQueued l =
     \<lparr> evContract = logAddress l, evBlock = logBlockNumber l, evTxHash = logTxHash l,
       gpProposalID = decodeWord (logData l) 0,
       gpProposer = '''', gpStartBlock = None, gpEndBlock = None,
       gpETA = Some (decodeWord (logData l) 1), gpEvent = ''queued'' \<rparr>"

definition parseDelegateChanged :: "log \<Rightarrow> DelegateChange option" where
  "parseDelegateChanged l =
     (if length (logTopics l) < 4 then None
      else Some
       \<lparr> evContract = logAddress l, evBlock = logBlockNumber l, evTxHash = logTxHash l,
         dcDelegator = topicAddress (logTopics l ! 1),
         dcFromDelegate = topicAddress (logTopics l ! 2),
         dcToDelegate = topicAddress (logTopics l ! 3) \<rparr>)"

definition parseDelegateVotesChanged :: "log \<Rightarrow> DelegateVotesChange option" where
  "parseDelegateVotesChanged l =
     (if length (logTopics l) < 2 then None
      else Some
       \<lparr> evContract = logAddress l, evBlock = logBlockNumber l, evTxHash = logTxHash l,
         dvDelegate = topicAddress (logTopics l ! 1),
         dvPreviousBalance = decodeWord (logData l) 0,
         dvNewBalance = decodeWord (logData l) 1 \<rparr>)"

record governanceLists =
  proposals :: "GovernanceProposal list"
  votes :: "Vote list"
  delegates :: "DelegateChange list"
  dvotes :: "DelegateVotesChange list"

definition stepGovernance :: "governanceLists \<Rightarrow> log \<Rightarrow> governanceLists" where
  "stepGovernance s l =
     (case logTopics l of
        [] \<Rightarrow> s
      | t # _ \<Rightarrow>
          if t = TopicProposalCreated then s\<lparr>proposals := proposals s @ [parseProposalCreated l]\<rparr>
          else if t = TopicVoteCast then
            (case parseVoteCast l of None \<Rightarrow> s | Some v \<Rightarrow> s\<lparr>votes := votes s @ [v]\<rparr>)
          else if t = TopicProposalExecuted then
            s\<lparr>proposals := proposals s @ [parseProposalSimple l ''executed'']\<rparr>
          else if t = TopicProposalCanceled then
            s\<lparr>proposals := proposals s @ [parseProposalSimple l ''canceled'']\<rparr>
          else if t = TopicProposalQueued then s\<lparr>proposals := proposals s @ [parseProposalQueued l]\<rparr>
          else if t = TopicDelegateChanged then
            (case parseDelegateChanged l of None \<Rightarrow> s | Some d \<Rightarrow> s\<lparr>delegates := delegates s @ [d]\<rparr>)
          else if t = TopicDelegateVotesChanged then
            (case parseDelegateVotesChanged l of None \<Rightarrow> s | Some d \<Rightarrow> s\<lparr>dvotes := dvotes s @ [d]\<rparr>)
          else s)"

definition ParseGovernanceEvents :: "log list \<Rightarrow> governanceLists" where
  "ParseGovernanceEvents logs =
     foldl stepGovernance \<lparr>proposals = [], votes = [], delegates = [], dvotes = []\<rparr> logs"

section \<open>What a log contributes to each list\<close>

lemma gov_topics_distinct: "distinct GovernanceTopics"
  by (simp add: GovernanceTopics_def gov_topic_defs)

lemmas gov_distinct = gov_topics_distinct[unfolded GovernanceTopics_def, simplified]

definition decProposal :: "log \<Rightarrow> GovernanceProposal option" where
  "decProposal l =
     (case logTopics l of
        [] \<Rightarrow> None
      | t # _ \<Rightarrow>
          if t = TopicProposalCreated then Some (parseProposalCreated l)
          else if t = TopicProposalExecuted then Some (parseProposalSimple l ''executed'')
          else if t = TopicProposalCanceled then Some (parseProposalSimple l ''canceled'')
          else if t = TopicProposalQueued then Some (parseProposalQueued l)
          else None)"

definition decVote :: "log \<Rightarrow> Vote option" where
  "decVote l = (if logTopics l \<noteq> [] \<and> hd (logTopics l) = TopicVoteCast then parseVoteCast l else None)"

definition decDelegate :: "log \<Rightarrow> DelegateChange option" where
  "decDelegate l =
     (if logTopics l \<noteq> [] \<and> hd (logTopics l) = TopicDelegateChanged then parseDelegateChanged l else None)"

definition decDelegateVotes :: "log \<Rightarrow> DelegateVotesChange option" where
  "decDelegateVotes l =
     (if logTopics l \<noteq> [] \<and> hd (logTopics l) = TopicDelegateVotesChanged
      then parseDelegateVotesChanged l else None)"

lemmas gov_parsers = parseProposalCreated_def parseVoteCast_def parseProposalSimple_def
  parseProposalQueued_def parseDelegateChanged_def parseDelegateVotesChanged_def

lemmas gov_decs = decProposal_def decVote_def decDelegate_def decDelegateVotes_def

interpretation proposalStream: log_stream stepGovernance proposals decProposal
  "{TopicProposalCreated, TopicProposalExecuted, TopicProposalCanceled, TopicProposalQueued}"
  by unfold_locales
    (auto simp: stepGovernance_def gov_decs gov_distinct gov_parsers fromLog_def
      split: list.splits option.splits if_splits)

interpretation voteStream: log_stream stepGovernance votes decVote "{TopicVoteCast}"
  by unfold_locales
    (auto simp: stepGovernance_def gov_decs gov_distinct gov_parsers fromLog_def
      split: list.splits option.splits if_splits)

interpretation delegateStream: log_stream stepGovernance delegates decDelegate "{TopicDelegateChanged}"
  by unfold_locales
    (auto simp: stepGovernance_def gov_decs gov_distinct gov_parsers fromLog_def
      split: list.splits option.splits if_splits)

interpretation delegateVotesStream: log_stream stepGovernance dvotes decDelegateVotes
  "{TopicDelegateVotesChanged}"
  by unfold_locales
    (auto simp: stepGovernance_def gov_decs gov_distinct gov_parsers fromLog_def
      split: list.splits option.splits if_splits)

text \<open>Governance parsing is a filter per event type: each of the four lists holds exactly the events its decoder
gives, in log order, so no log of one type is lost, repeated or reordered because of another.\<close>

theorem governance_lists_are_filters:
  "proposals (ParseGovernanceEvents logs) = List.map_filter decProposal logs \<and>
   votes (ParseGovernanceEvents logs) = List.map_filter decVote logs \<and>
   delegates (ParseGovernanceEvents logs) = List.map_filter decDelegate logs \<and>
   dvotes (ParseGovernanceEvents logs) = List.map_filter decDelegateVotes logs"
  unfolding ParseGovernanceEvents_def proposalStream.run_filter voteStream.run_filter delegateStream.run_filter
    delegateVotesStream.run_filter by simp

text \<open>A vote is read as the contract wrote it: a VoteCast log whose data are the words of a proposal, a support
value and a weight gives one vote with the topic's address and exactly those numbers.\<close>

theorem votes_round_trip:
  assumes "p < 2 ^ 256" "v < 256" "w < 2 ^ 256" "logTopics l = [TopicVoteCast, voter]"
    "logData l = ''0x'' @ concat (map encodeWord [p, v, w]) @ rest"
  shows "votes (ParseGovernanceEvents [l]) =
    [\<lparr>evContract = logAddress l, evBlock = logBlockNumber l, evTxHash = logTxHash l, voteVoter = topicAddress voter,
      voteProposalID = int p, voteSupport = of_nat v, voteWeight = int w\<rparr>]"
proof -
  have b: "\<forall>n \<in> set [p, v, w]. n < 2 ^ 256" using assms(1-3) by simp
  have d: "decodeWord (logData l) 0 = int p" "decodeWord (logData l) 1 = int v" "decodeWord (logData l) 2 = int w"
    using decodeWord_encoded[OF b, of _ rest] unfolding assms(5) by simp_all
  have "(narrow (int v) :: 8 word) = of_nat v" using assms(2) by (simp add: narrow_small)
  then show ?thesis
    using d assms(4) gov_distinct by (auto simp add: ParseGovernanceEvents_def stepGovernance_def parseVoteCast_def)
qed

theorem votes_round_trip_witness:
  "votes (ParseGovernanceEvents [\<lparr>logAddress = ''0xg'', logTopics = [TopicVoteCast, ''0xv''],
     logData = ''0x'' @ concat (map encodeWord [7, 1, 900]) @ '''', logBlockNumber = 5, logTxHash = ''0xt'', logIndex = ''0x0''\<rparr>]) =
   [\<lparr>evContract = ''0xg'', evBlock = 5, evTxHash = ''0xt'', voteVoter = topicAddress ''0xv'', voteProposalID = 7,
     voteSupport = 1, voteWeight = 900\<rparr>]"
  using votes_round_trip[of 7 1 900 "\<lparr>logAddress = ''0xg'', logTopics = [TopicVoteCast, ''0xv''],
     logData = ''0x'' @ concat (map encodeWord [7, 1, 900]) @ '''', logBlockNumber = 5, logTxHash = ''0xt'', logIndex = ''0x0''\<rparr>" "''0xv''" "''''"]
  by simp

end
