(* ===== verification/DefiTreasury.thy ===== *)
theory DefiTreasury
  imports EvmLog
begin

text \<open>
  Fee vault, fee governance and router events, src/evm/defi/treasury.go.  \<open>routerDistribute\<close> is the
  event the loop builds in place for the signature TopicRouterDistribute.
\<close>

definition TopicVaultReceive :: string where
  "TopicVaultReceive = ''0x746cac8d52ab53d373654cb1bce8a77880a4fb35eba8502e644d45fb9a3544ad''"
definition TopicVaultFlush :: string where
  "TopicVaultFlush = ''0xe033d0823ab017f8b7b1b1ef1d3581d03692445a7c735ce6a0ff5a08b4da24a1''"
definition TopicFeeGovRate :: string where
  "TopicFeeGovRate = ''0x3b973ff951e1f8921bccbc08ec81caee7ec5ce63a5dd396974dc6722bc3a7a2d''"
definition TopicFeeGovChain :: string where
  "TopicFeeGovChain = ''0x27f091fa3f90d453118174c469e669f3553b1d54c67aaf94ede31b8f0d04f48f''"
definition TopicFeeGovBroadcast :: string where
  "TopicFeeGovBroadcast = ''0x4f63312ce57db5d707657e7ad8f4f74d1e3269b1ba60ee968c0c810713123928''"
definition TopicRouterWeight :: string where
  "TopicRouterWeight = ''0xf74e8b7d737d24757358039f81965e4a5b41873d22817a0a93a098bc4bdbb02a''"
definition TopicRouterDistribute :: string where
  "TopicRouterDistribute = ''0x4def474aca53bf221d07d9ab0f675b3f6d8d2494b8427271bcf43c018ef1eead''"
definition TopicRouterClaim :: string where
  "TopicRouterClaim = ''0x47cee97cb7acd717b3c0aa1435d004cd5b3c8c57d70dbceb4e4458bbd60e39d4''"

lemmas treasury_topic_defs =
  TopicVaultReceive_def TopicVaultFlush_def TopicFeeGovRate_def TopicFeeGovChain_def
  TopicFeeGovBroadcast_def TopicRouterWeight_def TopicRouterDistribute_def TopicRouterClaim_def

definition TreasuryTopics :: "string list" where
  "TreasuryTopics =
     [TopicVaultReceive, TopicVaultFlush, TopicFeeGovRate,
      TopicFeeGovChain, TopicFeeGovBroadcast, TopicRouterWeight,
      TopicRouterDistribute, TopicRouterClaim]"

record VaultEvent = logOrigin +
  vaChain :: string
  vaAmount :: int
  vaWarpID :: string
  vaEvent :: string

record FeeGovEvent = logOrigin +
  fgRate :: "16 word"
  fgVersion :: "32 word"
  fgChainID :: string
  fgActive :: bool
  fgCount :: "int option"
  fgEvent :: string

record RouterEvent = logOrigin +
  roRecipient :: string
  roAmount :: "int option"
  roWeight :: "int option"
  roEvent :: string

definition parseVaultReceive :: "log \<Rightarrow> VaultEvent option" where
  "parseVaultReceive l =
     (if length (logTopics l) < 2 then None
      else Some
       \<lparr> evContract = logAddress l, evBlock = logBlockNumber l, evTxHash = logTxHash l,
         vaChain = logTopics l ! 1,
         vaAmount = decodeWord (logData l) 0,
         vaWarpID = wordHex (Some (decodeWord (logData l) 1)),
         vaEvent = ''receive'' \<rparr>)"

definition parseVaultFlush :: "log \<Rightarrow> VaultEvent option" where
  "parseVaultFlush l =
     (if length (logTopics l) < 2 then None
      else Some
       \<lparr> evContract = logAddress l, evBlock = logBlockNumber l, evTxHash = logTxHash l,
         vaChain = logTopics l ! 1,
         vaAmount = decodeWord (logData l) 0,
         vaWarpID = '''',
         vaEvent = ''flush'' \<rparr>)"

definition parseFeeGovRate :: "log \<Rightarrow> FeeGovEvent" where
  "parseFeeGovRate l =
       \<lparr> evContract = logAddress l, evBlock = logBlockNumber l, evTxHash = logTxHash l,
         fgRate = narrow (decodeWord (logData l) 0),
         fgVersion = narrow (decodeWord (logData l) 1),
         fgChainID = '''',
         fgActive = False,
         fgCount = None,
         fgEvent = ''rate'' \<rparr>"

definition parseFeeGovChain :: "log \<Rightarrow> FeeGovEvent option" where
  "parseFeeGovChain l =
     (if length (logTopics l) < 2 then None
      else Some
       \<lparr> evContract = logAddress l, evBlock = logBlockNumber l, evTxHash = logTxHash l,
         fgRate = 0,
         fgVersion = 0,
         fgChainID = logTopics l ! 1,
         fgActive = (decodeWord (logData l) 0 > 0),
         fgCount = None,
         fgEvent = ''chain'' \<rparr>)"

definition parseFeeGovBroadcast :: "log \<Rightarrow> FeeGovEvent" where
  "parseFeeGovBroadcast l =
       \<lparr> evContract = logAddress l, evBlock = logBlockNumber l, evTxHash = logTxHash l,
         fgRate = 0,
         fgVersion = narrow (decodeWord (logData l) 0),
         fgChainID = '''',
         fgActive = False,
         fgCount = Some (decodeWord (logData l) 1),
         fgEvent = ''broadcast'' \<rparr>"

definition parseRouterWeight :: "log \<Rightarrow> RouterEvent option" where
  "parseRouterWeight l =
     (if length (logTopics l) < 2 then None
      else Some
       \<lparr> evContract = logAddress l, evBlock = logBlockNumber l, evTxHash = logTxHash l,
         roRecipient = topicAddress (logTopics l ! 1),
         roAmount = None,
         roWeight = Some (decodeWord (logData l) 0),
         roEvent = ''weight'' \<rparr>)"

definition routerDistribute :: "log \<Rightarrow> RouterEvent" where
  "routerDistribute l =
       \<lparr> evContract = logAddress l, evBlock = logBlockNumber l, evTxHash = logTxHash l,
         roRecipient = '''',
         roAmount = Some (decodeWord (logData l) 0),
         roWeight = None,
         roEvent = ''distribute'' \<rparr>"

definition parseRouterClaim :: "log \<Rightarrow> RouterEvent option" where
  "parseRouterClaim l =
     (if length (logTopics l) < 2 then None
      else Some
       \<lparr> evContract = logAddress l, evBlock = logBlockNumber l, evTxHash = logTxHash l,
         roRecipient = topicAddress (logTopics l ! 1),
         roAmount = Some (decodeWord (logData l) 0),
         roWeight = None,
         roEvent = ''claim'' \<rparr>)"

record treasuryLists =
  vaults :: "VaultEvent list"
  feegovs :: "FeeGovEvent list"
  routers :: "RouterEvent list"

definition stepTreasury :: "treasuryLists \<Rightarrow> log \<Rightarrow> treasuryLists" where
  "stepTreasury s l =
     (case logTopics l of
        [] \<Rightarrow> s
      | t # _ \<Rightarrow>
          if t = TopicVaultReceive then
            (case parseVaultReceive l of None \<Rightarrow> s | Some e \<Rightarrow> s\<lparr>vaults := vaults s @ [e]\<rparr>)
          else if t = TopicVaultFlush then
            (case parseVaultFlush l of None \<Rightarrow> s | Some e \<Rightarrow> s\<lparr>vaults := vaults s @ [e]\<rparr>)
          else if t = TopicFeeGovRate then s\<lparr>feegovs := feegovs s @ [parseFeeGovRate l]\<rparr>
          else if t = TopicFeeGovChain then
            (case parseFeeGovChain l of None \<Rightarrow> s | Some e \<Rightarrow> s\<lparr>feegovs := feegovs s @ [e]\<rparr>)
          else if t = TopicFeeGovBroadcast then s\<lparr>feegovs := feegovs s @ [parseFeeGovBroadcast l]\<rparr>
          else if t = TopicRouterWeight then
            (case parseRouterWeight l of None \<Rightarrow> s | Some e \<Rightarrow> s\<lparr>routers := routers s @ [e]\<rparr>)
          else if t = TopicRouterDistribute then s\<lparr>routers := routers s @ [routerDistribute l]\<rparr>
          else if t = TopicRouterClaim then
            (case parseRouterClaim l of None \<Rightarrow> s | Some e \<Rightarrow> s\<lparr>routers := routers s @ [e]\<rparr>)
          else s)"

definition ParseTreasuryEvents :: "log list \<Rightarrow> treasuryLists" where
  "ParseTreasuryEvents logs = foldl stepTreasury \<lparr>vaults = [], feegovs = [], routers = []\<rparr> logs"

section \<open>What a log contributes to each list\<close>

lemma treasury_topics_distinct: "distinct TreasuryTopics"
  by (simp add: TreasuryTopics_def treasury_topic_defs)

lemmas treasury_distinct = treasury_topics_distinct[unfolded TreasuryTopics_def, simplified]

definition decVault :: "log \<Rightarrow> VaultEvent option" where
  "decVault l =
     (case logTopics l of
        [] \<Rightarrow> None
      | t # _ \<Rightarrow>
          if t = TopicVaultReceive then parseVaultReceive l
          else if t = TopicVaultFlush then parseVaultFlush l
          else None)"

definition decFeeGov :: "log \<Rightarrow> FeeGovEvent option" where
  "decFeeGov l =
     (case logTopics l of
        [] \<Rightarrow> None
      | t # _ \<Rightarrow>
          if t = TopicFeeGovRate then Some (parseFeeGovRate l)
          else if t = TopicFeeGovChain then parseFeeGovChain l
          else if t = TopicFeeGovBroadcast then Some (parseFeeGovBroadcast l)
          else None)"

definition decRouter :: "log \<Rightarrow> RouterEvent option" where
  "decRouter l =
     (case logTopics l of
        [] \<Rightarrow> None
      | t # _ \<Rightarrow>
          if t = TopicRouterWeight then parseRouterWeight l
          else if t = TopicRouterDistribute then Some (routerDistribute l)
          else if t = TopicRouterClaim then parseRouterClaim l
          else None)"

lemmas treasury_parsers =
  parseVaultReceive_def parseVaultFlush_def parseFeeGovRate_def parseFeeGovChain_def
  parseFeeGovBroadcast_def parseRouterWeight_def routerDistribute_def parseRouterClaim_def

interpretation vault: log_stream stepTreasury vaults decVault
  "{TopicVaultReceive, TopicVaultFlush}"
  by unfold_locales
    (auto simp: stepTreasury_def decVault_def treasury_distinct treasury_parsers fromLog_def
      split: list.splits option.splits if_splits)

interpretation feegov: log_stream stepTreasury feegovs decFeeGov
  "{TopicFeeGovRate, TopicFeeGovChain, TopicFeeGovBroadcast}"
  by unfold_locales
    (auto simp: stepTreasury_def decFeeGov_def treasury_distinct treasury_parsers fromLog_def
      split: list.splits option.splits if_splits)

interpretation router: log_stream stepTreasury routers decRouter
  "{TopicRouterWeight, TopicRouterDistribute, TopicRouterClaim}"
  by unfold_locales
    (auto simp: stepTreasury_def decRouter_def treasury_distinct treasury_parsers fromLog_def
      split: list.splits option.splits if_splits)

end
