(* ===== verification/DefiLiquid.thy ===== *)
theory DefiLiquid
  imports EvmLog
begin

text \<open>
  LiquidLUX vault events, src/evm/defi/liquid.go.  \<open>slashingApplied\<close> is the event the loop builds in
  place for the signature TopicSlashingApplied.
\<close>

definition TopicFeesReceived :: string where
  "TopicFeesReceived = ''0xffe15e5c651accdc94c3387fa6d493291053ff174cd74f8c8b7f8a820e5dd909''"
definition TopicValidatorRewardsReceived :: string where
  "TopicValidatorRewardsReceived = ''0x9d77a73cf83a1a8caf4495066223f6e1c6758b9b03f54ea006254cca0108e27c''"
definition TopicSlashingApplied :: string where
  "TopicSlashingApplied = ''0xe0ce9feb262640cffce27987d6007683502f8828357b680a1d2a0902ff5f4c1c''"
definition TopicEmergencyWithdrawal :: string where
  "TopicEmergencyWithdrawal = ''0x23d6711a1d031134a36921253c75aa59e967d38e369ac625992824315e204f20''"

lemmas liquid_topic_defs =
  TopicFeesReceived_def TopicValidatorRewardsReceived_def TopicSlashingApplied_def
  TopicEmergencyWithdrawal_def

definition LiquidTopics :: "string list" where
  "LiquidTopics =
     [TopicFeesReceived, TopicValidatorRewardsReceived, TopicSlashingApplied,
      TopicEmergencyWithdrawal]"

record LiquidEvent = logOrigin +
  leFrom :: string
  leAmount :: int
  leFeeType :: string
  lePerfFee :: "int option"
  leToReserve :: "int option"
  leFromReserve :: "int option"
  leSocialized :: "int option"
  leEvent :: string

definition parseFeesReceived :: "log \<Rightarrow> LiquidEvent option" where
  "parseFeesReceived l =
     (if length (logTopics l) < 3 then None
      else Some
       \<lparr> evContract = logAddress l, evBlock = logBlockNumber l, evTxHash = logTxHash l,
         leFrom = topicAddress (logTopics l ! 1),
         leAmount = decodeWord (logData l) 0,
         leFeeType = logTopics l ! 2,
         lePerfFee = Some (decodeWord (logData l) 1),
         leToReserve = Some (decodeWord (logData l) 2),
         leFromReserve = None,
         leSocialized = None,
         leEvent = ''fees_received'' \<rparr>)"

definition parseValidatorRewards :: "log \<Rightarrow> LiquidEvent option" where
  "parseValidatorRewards l =
     (if length (logTopics l) < 2 then None
      else Some
       \<lparr> evContract = logAddress l, evBlock = logBlockNumber l, evTxHash = logTxHash l,
         leFrom = topicAddress (logTopics l ! 1),
         leAmount = decodeWord (logData l) 0,
         leFeeType = '''',
         lePerfFee = None,
         leToReserve = None,
         leFromReserve = None,
         leSocialized = None,
         leEvent = ''validator_rewards'' \<rparr>)"

definition slashingApplied :: "log \<Rightarrow> LiquidEvent" where
  "slashingApplied l =
       \<lparr> evContract = logAddress l, evBlock = logBlockNumber l, evTxHash = logTxHash l,
         leFrom = '''',
         leAmount = decodeWord (logData l) 0,
         leFeeType = '''',
         lePerfFee = None,
         leToReserve = None,
         leFromReserve = Some (decodeWord (logData l) 1),
         leSocialized = Some (decodeWord (logData l) 2),
         leEvent = ''slashing'' \<rparr>"

definition parseEmergencyWithdrawal :: "log \<Rightarrow> LiquidEvent option" where
  "parseEmergencyWithdrawal l =
     (if length (logTopics l) < 2 then None
      else Some
       \<lparr> evContract = logAddress l, evBlock = logBlockNumber l, evTxHash = logTxHash l,
         leFrom = topicAddress (logTopics l ! 1),
         leAmount = decodeWord (logData l) 0,
         leFeeType = '''',
         lePerfFee = None,
         leToReserve = None,
         leFromReserve = None,
         leSocialized = None,
         leEvent = ''emergency_withdrawal'' \<rparr>)"

record liquidLists =
  events :: "LiquidEvent list"

definition stepLiquid :: "liquidLists \<Rightarrow> log \<Rightarrow> liquidLists" where
  "stepLiquid s l =
     (case logTopics l of
        [] \<Rightarrow> s
      | t # _ \<Rightarrow>
          if t = TopicFeesReceived then
            (case parseFeesReceived l of None \<Rightarrow> s | Some e \<Rightarrow> s\<lparr>events := events s @ [e]\<rparr>)
          else if t = TopicValidatorRewardsReceived then
            (case parseValidatorRewards l of None \<Rightarrow> s | Some e \<Rightarrow> s\<lparr>events := events s @ [e]\<rparr>)
          else if t = TopicSlashingApplied then s\<lparr>events := events s @ [slashingApplied l]\<rparr>
          else if t = TopicEmergencyWithdrawal then
            (case parseEmergencyWithdrawal l of None \<Rightarrow> s | Some e \<Rightarrow> s\<lparr>events := events s @ [e]\<rparr>)
          else s)"

definition ParseLiquidEvents :: "log list \<Rightarrow> liquidLists" where
  "ParseLiquidEvents logs = foldl stepLiquid \<lparr>events = []\<rparr> logs"

section \<open>What a log contributes to each list\<close>

lemma liquid_topics_distinct: "distinct LiquidTopics"
  by (simp add: LiquidTopics_def liquid_topic_defs)

lemmas liquid_distinct = liquid_topics_distinct[unfolded LiquidTopics_def, simplified]

definition decLiquid :: "log \<Rightarrow> LiquidEvent option" where
  "decLiquid l =
     (case logTopics l of
        [] \<Rightarrow> None
      | t # _ \<Rightarrow>
          if t = TopicFeesReceived then parseFeesReceived l
          else if t = TopicValidatorRewardsReceived then parseValidatorRewards l
          else if t = TopicSlashingApplied then Some (slashingApplied l)
          else if t = TopicEmergencyWithdrawal then parseEmergencyWithdrawal l
          else None)"

lemmas liquid_parsers =
  parseFeesReceived_def parseValidatorRewards_def slashingApplied_def
  parseEmergencyWithdrawal_def

interpretation liquid: log_stream stepLiquid events decLiquid
  "{TopicFeesReceived, TopicValidatorRewardsReceived, TopicSlashingApplied, TopicEmergencyWithdrawal}"
  by unfold_locales
    (auto simp: stepLiquid_def decLiquid_def liquid_distinct liquid_parsers fromLog_def
      split: list.splits option.splits if_splits)

end
