(* ===== verification/DefiDao.thy ===== *)
theory DefiDao
  imports EvmLog
begin

text \<open>
  Gauge, vLUX, Karma and DLUX events, src/evm/defi/dao.go.  \<open>weightsUpdated\<close> is the event the loop
  builds in place for the signature TopicWeightsUpdated.
\<close>

definition TopicGaugeAdded :: string where
  "TopicGaugeAdded = ''0x0690c0953072daf431d5cdec64e67412376badca0df468b950c61659830da131''"
definition TopicGaugeUpdated :: string where
  "TopicGaugeUpdated = ''0x1e2a3ff4241a28030cd83b954fb7bb7843a2555c29dc5b18f269308414d3bfb8''"
definition TopicGaugeVoteCast :: string where
  "TopicGaugeVoteCast = ''0xb4cfecf70861b7b150d8337780d34fb4cbc2114b5fb1fe51a5c5fca1849f7274''"
definition TopicWeightsUpdated :: string where
  "TopicWeightsUpdated = ''0x90dd5985ed06249c1f4c7a5a37394070d774f2bc35c0bea714388d778c8f44c2''"
definition TopicVLUXDeposit :: string where
  "TopicVLUXDeposit = ''0x7162984403f6c73c8639375d45a9187dfd04602231bd8e587c415718b5f7e5f9''"
definition TopicVLUXWithdraw :: string where
  "TopicVLUXWithdraw = ''0xf279e6a1f5e320cca91135676d9cb6e44ca8a08c0b88342bcdb1144f6511b568''"
definition TopicVLUXSupply :: string where
  "TopicVLUXSupply = ''0x5e2aa66efd74cce82b21852e317e5490d9ecc9e6bb953ae24d90851258cc2f5c''"
definition TopicKarmaMinted :: string where
  "TopicKarmaMinted = ''0x75a0780e98a4894b81145ffa61783249374538e763a84a56f131f73828eef94c''"
definition TopicKarmaSlashed :: string where
  "TopicKarmaSlashed = ''0x3578cfe093e136b6c466311ff49a5625dff510e16844bed0f2731bc79bd0776d''"
definition TopicKarmaDecayed :: string where
  "TopicKarmaDecayed = ''0x5a32bf6cb8d08258f53813b731b066fd8804a627f0f0e0d32b898895841cbc6a''"
definition TopicDIDLinked :: string where
  "TopicDIDLinked = ''0xabdbb33c848055c04a7674a4d96d0173f89f9f7718cd5426e7bcd81b4596182e''"
definition TopicVerified :: string where
  "TopicVerified = ''0x04881682880396c5d7f330e192fcd4f8b3d4645842908712b7a005170b3120cc''"
definition TopicDLUXStaked :: string where
  "TopicDLUXStaked = ''0xbde7f0ba1630d25515c7ab99ba47d5640b7ffb4c673b2a5464ae679195589298''"
definition TopicDLUXUnstaked :: string where
  "TopicDLUXUnstaked = ''0x7fc4727e062e336010f2c282598ef5f14facb3de68cf8195c2f23e1454b2b74e''"
definition TopicRebased :: string where
  "TopicRebased = ''0xd1a8a452d776b1b6802824ca2e8489c6448e2cb0963f552a9a19ab4ae064ca58''"
definition TopicDemurrageApplied :: string where
  "TopicDemurrageApplied = ''0x92dbe9af03191016deca349de5f6439fc2d722818b96f7b02948d780a913e8e5''"
definition TopicTierUpgraded :: string where
  "TopicTierUpgraded = ''0xcbbf00b5f55f1857f9362f521999f79036413e420d1b236d6bc143af30db731a''"
definition TopicDLUXMinted :: string where
  "TopicDLUXMinted = ''0xc263b302aec62d29105026245f19e16f8e0137066ccd4a8bd941f716bd4096bb''"

lemmas dao_topic_defs =
  TopicGaugeAdded_def TopicGaugeUpdated_def TopicGaugeVoteCast_def TopicWeightsUpdated_def
  TopicVLUXDeposit_def TopicVLUXWithdraw_def TopicVLUXSupply_def TopicKarmaMinted_def
  TopicKarmaSlashed_def TopicKarmaDecayed_def TopicDIDLinked_def TopicVerified_def
  TopicDLUXStaked_def TopicDLUXUnstaked_def TopicRebased_def TopicDemurrageApplied_def
  TopicTierUpgraded_def TopicDLUXMinted_def

definition DAOTopics :: "string list" where
  "DAOTopics =
     [TopicGaugeAdded, TopicGaugeUpdated, TopicGaugeVoteCast,
      TopicWeightsUpdated, TopicVLUXDeposit, TopicVLUXWithdraw,
      TopicVLUXSupply, TopicKarmaMinted, TopicKarmaSlashed,
      TopicKarmaDecayed, TopicDIDLinked, TopicVerified,
      TopicDLUXStaked, TopicDLUXUnstaked, TopicRebased,
      TopicDemurrageApplied, TopicTierUpgraded, TopicDLUXMinted]"

record GaugeEvent = logOrigin +
  gaGaugeID :: "int option"
  gaRecipient :: string
  gaName :: string
  gaActive :: bool
  gaUser :: string
  gaWeight :: "int option"
  gaEvent :: string

record VLUXEvent = logOrigin +
  vlUser :: string
  vlAmount :: int
  vlLockEnd :: "int option"
  vlEvent :: string

record KarmaEvent = logOrigin +
  kaAccount :: string
  kaAmount :: "int option"
  kaReason :: string
  kaWasActive :: bool
  kaDID :: string
  kaEvent :: string

record DLUXEvent = logOrigin +
  dlUser :: string
  dlAmount :: int
  dlTier :: "8 word"
  dlLockEnd :: "int option"
  dlEpoch :: "int option"
  dlRate :: "int option"
  dlReason :: string
  dlEvent :: string

definition parseGaugeAdded :: "log \<Rightarrow> GaugeEvent option" where
  "parseGaugeAdded l =
     (if length (logTopics l) < 2 then None
      else Some
       \<lparr> evContract = logAddress l, evBlock = logBlockNumber l, evTxHash = logTxHash l,
         gaGaugeID = Some (wordFromTopic (logTopics l ! 1)),
         gaRecipient = decodeAddress (logData l) 0,
         gaName = '''',
         gaActive = False,
         gaUser = '''',
         gaWeight = None,
         gaEvent = ''added'' \<rparr>)"

definition parseGaugeUpdated :: "log \<Rightarrow> GaugeEvent option" where
  "parseGaugeUpdated l =
     (if length (logTopics l) < 2 then None
      else Some
       \<lparr> evContract = logAddress l, evBlock = logBlockNumber l, evTxHash = logTxHash l,
         gaGaugeID = Some (wordFromTopic (logTopics l ! 1)),
         gaRecipient = '''',
         gaName = '''',
         gaActive = (decodeWord (logData l) 0 > 0),
         gaUser = '''',
         gaWeight = None,
         gaEvent = ''updated'' \<rparr>)"

definition parseGaugeVote :: "log \<Rightarrow> GaugeEvent option" where
  "parseGaugeVote l =
     (if length (logTopics l) < 3 then None
      else Some
       \<lparr> evContract = logAddress l, evBlock = logBlockNumber l, evTxHash = logTxHash l,
         gaGaugeID = Some (wordFromTopic (logTopics l ! 2)),
         gaRecipient = '''',
         gaName = '''',
         gaActive = False,
         gaUser = topicAddress (logTopics l ! 1),
         gaWeight = Some (decodeWord (logData l) 0),
         gaEvent = ''vote'' \<rparr>)"

definition weightsUpdated :: "log \<Rightarrow> GaugeEvent" where
  "weightsUpdated l =
       \<lparr> evContract = logAddress l, evBlock = logBlockNumber l, evTxHash = logTxHash l,
         gaGaugeID = None,
         gaRecipient = '''',
         gaName = '''',
         gaActive = False,
         gaUser = '''',
         gaWeight = None,
         gaEvent = ''weights_updated'' \<rparr>"

definition parseVLUXDeposit :: "log \<Rightarrow> VLUXEvent option" where
  "parseVLUXDeposit l =
     (if length (logTopics l) < 3 then None
      else Some
       \<lparr> evContract = logAddress l, evBlock = logBlockNumber l, evTxHash = logTxHash l,
         vlUser = topicAddress (logTopics l ! 1),
         vlAmount = decodeWord (logData l) 0,
         vlLockEnd = Some (wordFromTopic (logTopics l ! 2)),
         vlEvent = ''deposit'' \<rparr>)"

definition parseVLUXWithdraw :: "log \<Rightarrow> VLUXEvent option" where
  "parseVLUXWithdraw l =
     (if length (logTopics l) < 2 then None
      else Some
       \<lparr> evContract = logAddress l, evBlock = logBlockNumber l, evTxHash = logTxHash l,
         vlUser = topicAddress (logTopics l ! 1),
         vlAmount = decodeWord (logData l) 0,
         vlLockEnd = None,
         vlEvent = ''withdraw'' \<rparr>)"

definition parseKarmaMinted :: "log \<Rightarrow> KarmaEvent option" where
  "parseKarmaMinted l =
     (if length (logTopics l) < 2 then None
      else Some
       \<lparr> evContract = logAddress l, evBlock = logBlockNumber l, evTxHash = logTxHash l,
         kaAccount = topicAddress (logTopics l ! 1),
         kaAmount = Some (decodeWord (logData l) 0),
         kaReason = wordHex (Some (decodeWord (logData l) 1)),
         kaWasActive = False,
         kaDID = '''',
         kaEvent = ''minted'' \<rparr>)"

definition parseKarmaSlashed :: "log \<Rightarrow> KarmaEvent option" where
  "parseKarmaSlashed l =
     (if length (logTopics l) < 2 then None
      else Some
       \<lparr> evContract = logAddress l, evBlock = logBlockNumber l, evTxHash = logTxHash l,
         kaAccount = topicAddress (logTopics l ! 1),
         kaAmount = Some (decodeWord (logData l) 0),
         kaReason = wordHex (Some (decodeWord (logData l) 1)),
         kaWasActive = False,
         kaDID = '''',
         kaEvent = ''slashed'' \<rparr>)"

definition parseKarmaDecayed :: "log \<Rightarrow> KarmaEvent option" where
  "parseKarmaDecayed l =
     (if length (logTopics l) < 2 then None
      else Some
       \<lparr> evContract = logAddress l, evBlock = logBlockNumber l, evTxHash = logTxHash l,
         kaAccount = topicAddress (logTopics l ! 1),
         kaAmount = Some (decodeWord (logData l) 0),
         kaReason = '''',
         kaWasActive = (decodeWord (logData l) 1 > 0),
         kaDID = '''',
         kaEvent = ''decayed'' \<rparr>)"

definition parseDIDLinked :: "log \<Rightarrow> KarmaEvent option" where
  "parseDIDLinked l =
     (if length (logTopics l) < 3 then None
      else Some
       \<lparr> evContract = logAddress l, evBlock = logBlockNumber l, evTxHash = logTxHash l,
         kaAccount = topicAddress (logTopics l ! 1),
         kaAmount = None,
         kaReason = '''',
         kaWasActive = False,
         kaDID = logTopics l ! 2,
         kaEvent = ''did_linked'' \<rparr>)"

definition parseVerified :: "log \<Rightarrow> KarmaEvent option" where
  "parseVerified l =
     (if length (logTopics l) < 2 then None
      else Some
       \<lparr> evContract = logAddress l, evBlock = logBlockNumber l, evTxHash = logTxHash l,
         kaAccount = topicAddress (logTopics l ! 1),
         kaAmount = None,
         kaReason = '''',
         kaWasActive = False,
         kaDID = '''',
         kaEvent = ''verified'' \<rparr>)"

definition parseDLUXStaked :: "log \<Rightarrow> DLUXEvent option" where
  "parseDLUXStaked l =
     (if length (logTopics l) < 2 then None
      else Some
       \<lparr> evContract = logAddress l, evBlock = logBlockNumber l, evTxHash = logTxHash l,
         dlUser = topicAddress (logTopics l ! 1),
         dlAmount = decodeWord (logData l) 0,
         dlTier = narrow (decodeWord (logData l) 1),
         dlLockEnd = Some (decodeWord (logData l) 2),
         dlEpoch = None,
         dlRate = None,
         dlReason = '''',
         dlEvent = ''staked'' \<rparr>)"

definition parseDLUXUnstaked :: "log \<Rightarrow> DLUXEvent option" where
  "parseDLUXUnstaked l =
     (if length (logTopics l) < 2 then None
      else Some
       \<lparr> evContract = logAddress l, evBlock = logBlockNumber l, evTxHash = logTxHash l,
         dlUser = topicAddress (logTopics l ! 1),
         dlAmount = decodeWord (logData l) 0,
         dlTier = 0,
         dlLockEnd = None,
         dlEpoch = None,
         dlRate = None,
         dlReason = '''',
         dlEvent = ''unstaked'' \<rparr>)"

definition parseRebased :: "log \<Rightarrow> DLUXEvent" where
  "parseRebased l =
       \<lparr> evContract = logAddress l, evBlock = logBlockNumber l, evTxHash = logTxHash l,
         dlUser = '''',
         dlAmount = decodeWord (logData l) 1,
         dlTier = 0,
         dlLockEnd = None,
         dlEpoch = Some (decodeWord (logData l) 0),
         dlRate = Some (decodeWord (logData l) 2),
         dlReason = '''',
         dlEvent = ''rebased'' \<rparr>"

definition parseDemurrage :: "log \<Rightarrow> DLUXEvent option" where
  "parseDemurrage l =
     (if length (logTopics l) < 2 then None
      else Some
       \<lparr> evContract = logAddress l, evBlock = logBlockNumber l, evTxHash = logTxHash l,
         dlUser = topicAddress (logTopics l ! 1),
         dlAmount = decodeWord (logData l) 0,
         dlTier = 0,
         dlLockEnd = None,
         dlEpoch = None,
         dlRate = None,
         dlReason = '''',
         dlEvent = ''demurrage'' \<rparr>)"

definition parseDLUXMinted :: "log \<Rightarrow> DLUXEvent option" where
  "parseDLUXMinted l =
     (if length (logTopics l) < 3 then None
      else Some
       \<lparr> evContract = logAddress l, evBlock = logBlockNumber l, evTxHash = logTxHash l,
         dlUser = topicAddress (logTopics l ! 1),
         dlAmount = decodeWord (logData l) 0,
         dlTier = 0,
         dlLockEnd = None,
         dlEpoch = None,
         dlRate = None,
         dlReason = logTopics l ! 2,
         dlEvent = ''minted'' \<rparr>)"

record daoLists =
  gauges :: "GaugeEvent list"
  vlux :: "VLUXEvent list"
  karma :: "KarmaEvent list"
  dlux :: "DLUXEvent list"

definition stepDAO :: "daoLists \<Rightarrow> log \<Rightarrow> daoLists" where
  "stepDAO s l =
     (case logTopics l of
        [] \<Rightarrow> s
      | t # _ \<Rightarrow>
          if t = TopicGaugeAdded then
            (case parseGaugeAdded l of None \<Rightarrow> s | Some e \<Rightarrow> s\<lparr>gauges := gauges s @ [e]\<rparr>)
          else if t = TopicGaugeUpdated then
            (case parseGaugeUpdated l of None \<Rightarrow> s | Some e \<Rightarrow> s\<lparr>gauges := gauges s @ [e]\<rparr>)
          else if t = TopicGaugeVoteCast then
            (case parseGaugeVote l of None \<Rightarrow> s | Some e \<Rightarrow> s\<lparr>gauges := gauges s @ [e]\<rparr>)
          else if t = TopicWeightsUpdated then s\<lparr>gauges := gauges s @ [weightsUpdated l]\<rparr>
          else if t = TopicVLUXDeposit then
            (case parseVLUXDeposit l of None \<Rightarrow> s | Some e \<Rightarrow> s\<lparr>vlux := vlux s @ [e]\<rparr>)
          else if t = TopicVLUXWithdraw then
            (case parseVLUXWithdraw l of None \<Rightarrow> s | Some e \<Rightarrow> s\<lparr>vlux := vlux s @ [e]\<rparr>)
          else if t = TopicKarmaMinted then
            (case parseKarmaMinted l of None \<Rightarrow> s | Some e \<Rightarrow> s\<lparr>karma := karma s @ [e]\<rparr>)
          else if t = TopicKarmaSlashed then
            (case parseKarmaSlashed l of None \<Rightarrow> s | Some e \<Rightarrow> s\<lparr>karma := karma s @ [e]\<rparr>)
          else if t = TopicKarmaDecayed then
            (case parseKarmaDecayed l of None \<Rightarrow> s | Some e \<Rightarrow> s\<lparr>karma := karma s @ [e]\<rparr>)
          else if t = TopicDIDLinked then
            (case parseDIDLinked l of None \<Rightarrow> s | Some e \<Rightarrow> s\<lparr>karma := karma s @ [e]\<rparr>)
          else if t = TopicVerified then
            (case parseVerified l of None \<Rightarrow> s | Some e \<Rightarrow> s\<lparr>karma := karma s @ [e]\<rparr>)
          else if t = TopicDLUXStaked then
            (case parseDLUXStaked l of None \<Rightarrow> s | Some e \<Rightarrow> s\<lparr>dlux := dlux s @ [e]\<rparr>)
          else if t = TopicDLUXUnstaked then
            (case parseDLUXUnstaked l of None \<Rightarrow> s | Some e \<Rightarrow> s\<lparr>dlux := dlux s @ [e]\<rparr>)
          else if t = TopicRebased then s\<lparr>dlux := dlux s @ [parseRebased l]\<rparr>
          else if t = TopicDemurrageApplied then
            (case parseDemurrage l of None \<Rightarrow> s | Some e \<Rightarrow> s\<lparr>dlux := dlux s @ [e]\<rparr>)
          else if t = TopicDLUXMinted then
            (case parseDLUXMinted l of None \<Rightarrow> s | Some e \<Rightarrow> s\<lparr>dlux := dlux s @ [e]\<rparr>)
          else s)"

definition ParseDAOEvents :: "log list \<Rightarrow> daoLists" where
  "ParseDAOEvents logs = foldl stepDAO \<lparr>gauges = [], vlux = [], karma = [], dlux = []\<rparr> logs"

section \<open>What a log contributes to each list\<close>

lemma dao_topics_distinct: "distinct DAOTopics"
  by (simp add: DAOTopics_def dao_topic_defs)

lemmas dao_distinct = dao_topics_distinct[unfolded DAOTopics_def, simplified]

definition decGauge :: "log \<Rightarrow> GaugeEvent option" where
  "decGauge l =
     (case logTopics l of
        [] \<Rightarrow> None
      | t # _ \<Rightarrow>
          if t = TopicGaugeAdded then parseGaugeAdded l
          else if t = TopicGaugeUpdated then parseGaugeUpdated l
          else if t = TopicGaugeVoteCast then parseGaugeVote l
          else if t = TopicWeightsUpdated then Some (weightsUpdated l)
          else None)"

definition decVLUX :: "log \<Rightarrow> VLUXEvent option" where
  "decVLUX l =
     (case logTopics l of
        [] \<Rightarrow> None
      | t # _ \<Rightarrow>
          if t = TopicVLUXDeposit then parseVLUXDeposit l
          else if t = TopicVLUXWithdraw then parseVLUXWithdraw l
          else None)"

definition decKarma :: "log \<Rightarrow> KarmaEvent option" where
  "decKarma l =
     (case logTopics l of
        [] \<Rightarrow> None
      | t # _ \<Rightarrow>
          if t = TopicKarmaMinted then parseKarmaMinted l
          else if t = TopicKarmaSlashed then parseKarmaSlashed l
          else if t = TopicKarmaDecayed then parseKarmaDecayed l
          else if t = TopicDIDLinked then parseDIDLinked l
          else if t = TopicVerified then parseVerified l
          else None)"

definition decDLUX :: "log \<Rightarrow> DLUXEvent option" where
  "decDLUX l =
     (case logTopics l of
        [] \<Rightarrow> None
      | t # _ \<Rightarrow>
          if t = TopicDLUXStaked then parseDLUXStaked l
          else if t = TopicDLUXUnstaked then parseDLUXUnstaked l
          else if t = TopicRebased then Some (parseRebased l)
          else if t = TopicDemurrageApplied then parseDemurrage l
          else if t = TopicDLUXMinted then parseDLUXMinted l
          else None)"

lemmas dao_parsers =
  parseGaugeAdded_def parseGaugeUpdated_def parseGaugeVote_def weightsUpdated_def
  parseVLUXDeposit_def parseVLUXWithdraw_def parseKarmaMinted_def parseKarmaSlashed_def
  parseKarmaDecayed_def parseDIDLinked_def parseVerified_def parseDLUXStaked_def
  parseDLUXUnstaked_def parseRebased_def parseDemurrage_def parseDLUXMinted_def

interpretation gauge: log_stream stepDAO gauges decGauge
  "{TopicGaugeAdded, TopicGaugeUpdated, TopicGaugeVoteCast, TopicWeightsUpdated}"
  by unfold_locales
    (auto simp: stepDAO_def decGauge_def dao_distinct dao_parsers fromLog_def
      split: list.splits option.splits if_splits)

interpretation vluxStream: log_stream stepDAO vlux decVLUX
  "{TopicVLUXDeposit, TopicVLUXWithdraw}"
  by unfold_locales
    (auto simp: stepDAO_def decVLUX_def dao_distinct dao_parsers fromLog_def
      split: list.splits option.splits if_splits)

interpretation karmaStream: log_stream stepDAO karma decKarma
  "{TopicKarmaMinted, TopicKarmaSlashed, TopicKarmaDecayed, TopicDIDLinked, TopicVerified}"
  by unfold_locales
    (auto simp: stepDAO_def decKarma_def dao_distinct dao_parsers fromLog_def
      split: list.splits option.splits if_splits)

interpretation dluxStream: log_stream stepDAO dlux decDLUX
  "{TopicDLUXStaked, TopicDLUXUnstaked, TopicRebased, TopicDemurrageApplied, TopicDLUXMinted}"
  by unfold_locales
    (auto simp: stepDAO_def decDLUX_def dao_distinct dao_parsers fromLog_def
      split: list.splits option.splits if_splits)

text \<open>DAO parsing is a filter per event type: the gauge, vLUX, karma and dLUX lists hold exactly the events their
decoders give, in log order, over all the signatures the parser knows.\<close>

theorem dao_lists_are_filters:
  "gauges (ParseDAOEvents logs) = List.map_filter decGauge logs \<and> vlux (ParseDAOEvents logs) = List.map_filter decVLUX logs \<and>
   karma (ParseDAOEvents logs) = List.map_filter decKarma logs \<and> dlux (ParseDAOEvents logs) = List.map_filter decDLUX logs"
  unfolding ParseDAOEvents_def gauge.run_filter vluxStream.run_filter karmaStream.run_filter dluxStream.run_filter by simp

end
