(* ===== verification/Abi.thy ===== *)
theory Abi
  imports EvmLog
begin

text \<open>
  The ABI and address helpers of package \<open>engine\<close> (src/engine/quote.go and src/engine/swap.go):
  32-byte words as hexadecimal text, amounts as the caller writes them, addresses and their
  EIP-55 form, and the native-coin sentinel.

  Keccak-256 is a third-party function (golang.org/x/crypto/sha3): it is the parameter \<open>keccak\<close>
  of the definitions that use it.  Where the code relies on the 32 bytes it returns, that is a
  named hypothesis.  A Go run-time panic (an index out of range) is the value None.
\<close>

definition nativeSentinel :: string where
  "nativeSentinel = ''0x0000000000000000000000000000000000000000''"

definition wordHexLen :: nat where
  "wordHexLen = 64"

definition maxWord :: int where
  "maxWord = 2 ^ 256 - 1"

section \<open>Go integer conversions\<close>

definition bigInt64 :: "int \<Rightarrow> int" where
  "bigInt64 n = sint (word_of_int n :: 64 word)"

definition bigUint64 :: "int \<Rightarrow> 64 word" where
  "bigUint64 n = word_of_int \<bar>n\<bar>"

lemma bigInt64_id: "- (2 ^ 63) \<le> n \<Longrightarrow> n < 2 ^ 63 \<Longrightarrow> bigInt64 n = n"
  by (simp add: bigInt64_def sint_sbintrunc' signed_take_bit_int_eq_self)

section \<open>Words\<close>

text \<open>\<open>fmt.Sprintf\<close> with a zero-padded hexadecimal verb: the width counts the sign.\<close>

definition hexPadded :: "nat \<Rightarrow> int \<Rightarrow> string" where
  "hexPadded width n =
     (let sign = (if n < 0 then ''-'' else ''''); ds = natText 16 (nat \<bar>n\<bar>) in
      sign @ replicate (width - (length sign + length ds)) (CHR ''0'') @ ds)"

definition numWord :: "int \<Rightarrow> string" where
  "numWord n = hexPadded 64 n"

definition addrWord :: "string \<Rightarrow> string" where
  "addrWord addr = replicate 24 (CHR ''0'') @ toLower (trimPrefix addr ''0x'')"

function wordsFrom :: "string \<Rightarrow> int list" where
  "wordsFrom h =
     (if length h < wordHexLen then []
      else (case setString 16 (take wordHexLen h) of
              (n, ok) \<Rightarrow> if ok then n # wordsFrom (drop wordHexLen h) else []))"
  by auto
termination
  by (relation "measure length") (auto simp: wordHexLen_def)

declare wordsFrom.simps [simp del]

definition words :: "string \<Rightarrow> int list" where
  "words data = wordsFrom (trimPrefix data ''0x'')"

definition signedWord :: "int \<Rightarrow> int" where
  "signedWord w = (if w \<ge> 2 ^ 255 then bigInt64 (w - 2 ^ 256) else bigInt64 w)"

definition bigString :: "int option \<Rightarrow> string" where
  "bigString n = (case n of None \<Rightarrow> ''0'' | Some k \<Rightarrow> intText 10 k)"

section \<open>Addresses\<close>

definition isHexChar :: "char \<Rightarrow> bool" where
  "isHexChar c = (c \<in> set ''0123456789abcdefABCDEF'')"

definition IsAddress :: "string \<Rightarrow> bool" where
  "IsAddress s = (length s = 42 \<and> hasPrefix s ''0x'' \<and> list_all isHexChar (drop 2 s))"

definition isLowerHexLetter :: "char \<Rightarrow> bool" where
  "isLowerHexLetter c = (97 \<le> byteOf c \<and> byteOf c \<le> 102)"

definition hashNibble :: "string \<Rightarrow> nat \<Rightarrow> nat" where
  "hashNibble digest i = byteOf (digest ! (i div 2)) div 2 ^ (4 - 4 * (i mod 2)) mod 16"

definition checksumAddress :: "(string \<Rightarrow> string) \<Rightarrow> string \<Rightarrow> string option" where
  "checksumAddress keccak addr =
     (let a = toLower (trimPrefix addr ''0x''); digest = keccak a in
      if list_all (\<lambda>i. isLowerHexLetter (a ! i) \<longrightarrow> i div 2 < length digest) [0..<length a]
      then Some (''0x'' @ map (\<lambda>i. if isLowerHexLetter (a ! i) \<and> hashNibble digest i \<ge> 8
                                   then char_of (byteOf (a ! i) - 32) else a ! i) [0..<length a])
      else None)"

definition parseWei :: "string \<Rightarrow> int option" where
  "parseWei s =
     (if s = '''' then None
      else if \<not> list_all (\<lambda>c. 48 \<le> byteOf c \<and> byteOf c \<le> 57) s then None
      else (case setString 10 s of (n, ok) \<Rightarrow> if \<not> ok \<or> n > maxWord then None else Some n))"

definition isNativeAddr :: "string \<Rightarrow> bool" where
  "isNativeAddr addr = equalFold (trimSpace addr) nativeSentinel"

definition wrap :: "string \<Rightarrow> string \<Rightarrow> string" where
  "wrap addr wrapped = (if isNativeAddr addr then wrapped else toLower addr)"

definition unwrapNative :: "string \<Rightarrow> string \<Rightarrow> string" where
  "unwrapNative wrapped addr =
     (let a = toLower addr in if a = nativeSentinel \<and> wrapped \<noteq> '''' then wrapped else a)"

definition echoToken :: "(string \<Rightarrow> string) \<Rightarrow> string \<Rightarrow> string option" where
  "echoToken keccak addr =
     (if toLower addr = nativeSentinel then Some nativeSentinel else checksumAddress keccak addr)"

definition selector :: "(string \<Rightarrow> string) \<Rightarrow> string \<Rightarrow> string" where
  "selector keccak sig =
     ''0x'' @ concat (map (\<lambda>b. hexPadded 2 (int (byteOf b))) (take 4 (keccak sig)))"

section \<open>Lemmas\<close>

lemma numWord_encode: "0 \<le> n \<Longrightarrow> numWord n = encodeWord (nat n)"
  by (simp add: numWord_def hexPadded_def encodeWord_def Let_def)

lemma length_numWord: "0 \<le> n \<Longrightarrow> n \<le> maxWord \<Longrightarrow> length (numWord n) = 64"
  by (simp add: numWord_encode length_encodeWord maxWord_def nat_less_iff)

lemma wordsFrom_short [simp]: "length h < 64 \<Longrightarrow> wordsFrom h = []"
  by (subst wordsFrom.simps) (simp add: wordHexLen_def)

lemma wordsFrom_encodeWord:
  "n < 2 ^ 256 \<Longrightarrow> wordsFrom (encodeWord n @ h) = int n # wordsFrom h"
  by (subst wordsFrom.simps) (simp add: wordHexLen_def length_encodeWord)

lemma wordsFrom_concat:
  "\<forall>n \<in> set ns. n < 2 ^ 256 \<Longrightarrow> length h < 64 \<Longrightarrow>
   wordsFrom (concat (map encodeWord ns) @ h) = map int ns"
  by (induction ns) (simp_all add: wordsFrom_encodeWord)

lemma words_concat:
  assumes "\<forall>n \<in> set ns. n < 2 ^ 256" "length rest < 64"
  shows "words (''0x'' @ concat (map encodeWord ns) @ rest) = map int ns"
  using wordsFrom_concat[OF assms] by (simp add: words_def)

lemma isHexChar_byte:
  "isHexChar c \<longleftrightarrow> (48 \<le> byteOf c \<and> byteOf c \<le> 57) \<or> (97 \<le> byteOf c \<and> byteOf c \<le> 102)
     \<or> (65 \<le> byteOf c \<and> byteOf c \<le> 70)"
proof -
  have "isHexChar c \<longleftrightarrow> byteOf c \<in> of_char ` set ''0123456789abcdefABCDEF''"
    unfolding isHexChar_def byteOf_def by (rule inj_image_mem_iff[OF inj_of_char, symmetric])
  then show ?thesis by simp presburger
qed

lemma hexChar_lower: "isHexChar c \<Longrightarrow> isHexChar (lowerChar c)"
  by (auto simp: isHexChar_byte lowerChar_def)

lemma IsAddress_cases:
  assumes "IsAddress s"
  obtains ds where "s = ''0x'' @ ds" "length ds = 40" "list_all isHexChar ds"
proof -
  have t: "take 2 s = ''0x''" "length s = 42" "list_all isHexChar (drop 2 s)"
    using assms by (auto simp: IsAddress_def hasPrefix_def numeral_2_eq_2)
  have "s = ''0x'' @ drop 2 s" using t(1) append_take_drop_id[of 2 s] by simp
  with t show ?thesis using that[of "drop 2 s"] by simp
qed

lemma IsAddress_0x: "IsAddress (''0x'' @ ds) \<longleftrightarrow> length ds = 40 \<and> list_all isHexChar ds"
  by (simp add: IsAddress_def)

lemma lower_0x: "toLower (CHR ''0'' # CHR ''x'' # ds) = CHR ''0'' # CHR ''x'' # toLower ds"
  by (simp add: toLower_def lowerChar_def byteOf_def)

lemma IsAddress_toLower: "IsAddress s \<Longrightarrow> IsAddress (toLower s)"
  by (elim IsAddress_cases)
    (simp add: lower_0x IsAddress_0x[simplified], auto simp: list_all_iff toLower_def hexChar_lower)

lemma length_addrWord: "IsAddress a \<Longrightarrow> length (addrWord a) = 64"
  by (elim IsAddress_cases) (simp add: addrWord_def)

lemma addrWord_inj:
  assumes "IsAddress a" "IsAddress b" "addrWord a = addrWord b"
  shows "toLower a = toLower b"
  using assms by (elim IsAddress_cases) (simp add: addrWord_def lower_0x)

lemma IsAddress_not_Nil: "IsAddress a \<Longrightarrow> a \<noteq> ''''"
  by (auto simp: IsAddress_def)

lemma lower_nativeSentinel [simp]: "toLower nativeSentinel = nativeSentinel"
  by (simp add: nativeSentinel_def toLower_def lowerChar_def byteOf_def)

lemma upper_hexLetter:
  "isLowerHexLetter c \<Longrightarrow> isHexChar (char_of (byteOf c - 32)) \<and> lowerChar (char_of (byteOf c - 32)) = c"
  by (auto simp: isLowerHexLetter_def isHexChar_byte lowerChar_def byteOf_def)

lemma checksumAddress_Some:
  assumes "IsAddress addr" "length (keccak (toLower (trimPrefix addr ''0x''))) = 32"
  shows "\<exists>c. checksumAddress keccak addr = Some c \<and> IsAddress c \<and> toLower c = toLower addr"
proof -
  obtain ds where ds: "addr = ''0x'' @ ds" "length ds = 40" "list_all isHexChar ds"
    using IsAddress_cases[OF assms(1)] by blast
  define a where "a = toLower ds"
  define digest where "digest = keccak a"
  have trim: "toLower (trimPrefix addr ''0x'') = a" by (simp add: ds a_def)
  have len: "length a = 40" "length digest = 32"
    using ds assms(2) by (simp_all add: digest_def a_def)
  define f where "f i = (if isLowerHexLetter (a ! i) \<and> hashNibble digest i \<ge> 8
                         then char_of (byteOf (a ! i) - 32) else a ! i)" for i
  have some: "checksumAddress keccak addr = Some (''0x'' @ map f [0..<length a])"
    using len by (auto simp: checksumAddress_def trim f_def list_all_iff simp flip: digest_def)
  have hexa: "isHexChar (a ! i)" if "i < 40" for i
    using ds that by (simp add: a_def toLower_def list_all_length hexChar_lower)
  have low: "lowerChar (f i) = a ! i" if "i < 40" for i
    using upper_hexLetter that ds by (simp add: f_def a_def toLower_def)
  have hexf: "isHexChar (f i)" if "i < 40" for i
    using upper_hexLetter hexa[OF that] by (simp add: f_def)
  have "IsAddress (''0x'' @ map f [0..<length a])"
    using hexf len by (auto simp: IsAddress_0x[simplified] list_all_iff)
  moreover have "toLower (''0x'' @ map f [0..<length a]) = toLower addr"
    using low len ds(2) by (simp add: lower_0x ds(1)) (auto simp: toLower_def a_def intro!: nth_equalityI)
  ultimately show ?thesis using some by blast
qed

lemma digitVal_digit: "48 \<le> byteOf c \<Longrightarrow> byteOf c \<le> 57 \<Longrightarrow> digitVal c = Some (byteOf c - 48)"
  by (simp add: digitVal_def)

lemma decimal_digitChar: "d < 10 \<Longrightarrow> 48 \<le> byteOf (digitChar d) \<and> byteOf (digitChar d) \<le> 57"
  by (simp add: byteOf_digitChar)

lemma natText_decimal: "list_all (\<lambda>c. 48 \<le> byteOf c \<and> byteOf c \<le> 57) (natText 10 n)"
  by (induction n rule: less_induct) (subst natText.simps, auto simp: decimal_digitChar)

lemma parseWei_range:
  assumes "parseWei s = Some n"
  shows "0 \<le> n \<and> n \<le> maxWord"
proof -
  have d: "list_all (\<lambda>c. 48 \<le> byteOf c \<and> byteOf c \<le> 57) s" "s \<noteq> ''''"
      "fst (setString 10 s) = n" "n \<le> maxWord"
    using assms by (auto simp: parseWei_def split: if_splits prod.splits)
  then obtain c cs where c: "s = c # cs" by (cases s) auto
  moreover have "c \<noteq> CHR ''-''" using d(1) c by (auto simp: byteOf_def)
  ultimately have "0 \<le> fst (setString 10 s)" by (auto simp: setString_def Let_def split: prod.splits)
  with d show ?thesis by simp
qed

lemma signedWord_twos_complement:
  assumes "- (2 ^ 63) \<le> t" "t < 2 ^ 63"
  shows "signedWord (t mod 2 ^ 256) = t"
proof (cases "t < 0")
  case True
  then have "t mod 2 ^ 256 = t + 2 ^ 256"
    using assms mod_pos_pos_trivial[of "t + 2 ^ 256" "2 ^ 256"] by simp
  then show ?thesis using assms True by (simp add: signedWord_def bigInt64_id)
next
  case False
  then show ?thesis using assms by (simp add: signedWord_def bigInt64_id)
qed

lemma unwrapNative_wrapped: "wrapped \<noteq> '''' \<Longrightarrow> unwrapNative wrapped nativeSentinel = wrapped"
  by (simp add: unwrapNative_def Let_def)

lemma checksumAddress_lower:
  assumes "IsAddress a" "IsAddress b" "toLower a = toLower b"
  shows "checksumAddress keccak a = checksumAddress keccak b"
proof -
  have "toLower (trimPrefix a ''0x'') = toLower (trimPrefix b ''0x'')"
    using assms by (elim IsAddress_cases) (simp add: lower_0x)
  then show ?thesis by (simp add: checksumAddress_def)
qed

text \<open>The checksummed form is a canonical name: rendering an address never fails, keeps which address it is, and
two spellings of one address render the same, for any hash that gives 32 bytes.\<close>

theorem checksum_is_canonical:
  assumes "IsAddress a" "IsAddress b" "toLower a = toLower b" "length (keccak (toLower (trimPrefix a ''0x''))) = 32"
  shows "\<exists>c. checksumAddress keccak a = Some c \<and> checksumAddress keccak b = Some c \<and> IsAddress c \<and> toLower c = toLower a"
  using checksumAddress_Some[of a keccak] checksumAddress_lower[OF assms(1-3), of keccak] assms(1,4) by simp

theorem checksum_is_canonical_witness:
  "\<exists>c. checksumAddress (\<lambda>_. replicate 32 (CHR ''z'')) (''0x'' @ replicate 40 (CHR ''a'')) = Some c \<and>
     checksumAddress (\<lambda>_. replicate 32 (CHR ''z'')) (''0x'' @ replicate 40 (CHR ''A'')) = Some c"
proof -
  let ?a = "''0x'' @ replicate 40 (CHR ''a'')" and ?b = "''0x'' @ replicate 40 (CHR ''A'')"
  have "IsAddress ?a" "IsAddress ?b" "toLower ?a = toLower ?b" by code_simp+
  then show ?thesis using checksum_is_canonical[of ?a ?b "\<lambda>_. replicate 32 (CHR ''z'')"] by auto
qed

text \<open>An amount written in decimal is read back as itself when it fits a 256-bit word, and is refused when it
does not.\<close>

theorem amounts_round_trip: "parseWei (natText 10 n) = (if int n \<le> maxWord then Some (int n) else None)"
  using natText_decimal[of n] by (simp add: parseWei_def setString_natText)

end
