(* ===== verification/Amm.thy ===== *)
theory Amm
  imports Prelude "HOL-Library.Signed_Division"
begin

text \<open>
  The constant-product pair of src/engine/quote.go: \<open>amountOut\<close> and \<open>amountIn\<close>, with
  \<open>big.Int.Quo\<close> as the truncating division \<open>sdiv\<close> and nil as None, and \<open>marginalSize\<close>.

  The lemmas state what the code's comments promise: the product of the reserves does not fall,
  the pool never pays out its whole side, and the input \<open>amountIn\<close> asks for does buy the output
  it was asked about.
\<close>

definition million :: int where
  "million = 1000000"

definition amountOut :: "int option \<Rightarrow> int \<Rightarrow> int \<Rightarrow> int \<Rightarrow> int option" where
  "amountOut amtIn reserveIn reserveOut feePPM =
     (case amtIn of
        None \<Rightarrow> None
      | Some x \<Rightarrow>
          if x \<le> 0 \<or> reserveIn \<le> 0 \<or> reserveOut \<le> 0 then None
          else if feePPM < 0 \<or> feePPM \<ge> million then None
          else (let afterFee = x * (million - feePPM);
                    num = afterFee * reserveOut;
                    den = reserveIn * million + afterFee
                in if den \<le> 0 then None else Some (num sdiv den)))"

definition amountIn :: "int option \<Rightarrow> int \<Rightarrow> int \<Rightarrow> int \<Rightarrow> int option" where
  "amountIn amtOut reserveIn reserveOut feePPM =
     (case amtOut of
        None \<Rightarrow> None
      | Some y \<Rightarrow>
          if y \<le> 0 \<or> reserveIn \<le> 0 \<or> reserveOut \<le> 0 then None
          else if feePPM < 0 \<or> feePPM \<ge> million \<or> y \<ge> reserveOut then None
          else (let num = reserveIn * y * million;
                    den = (reserveOut - y) * (million - feePPM)
                in Some (num sdiv den + 1)))"

definition marginalRef :: int where
  "marginalRef = 1000000000000000"

definition marginalSize :: "int option \<Rightarrow> int" where
  "marginalSize amtIn =
     (case amtIn of None \<Rightarrow> marginalRef | Some x \<Rightarrow> if x > 0 \<and> x < marginalRef then x else marginalRef)"

section \<open>Division facts\<close>

lemma sdiv_nonneg: "0 \<le> a \<Longrightarrow> 0 < b \<Longrightarrow> a sdiv b = a div (b::int)"
  by (simp add: signed_divide_int_def sgn_if)

lemma div_mult_bounds:
  assumes "0 < (b::int)"
  shows "b * (a div b) \<le> a" "a < b * (a div b) + b"
  using assms mult_div_mod_eq[of b a] pos_mod_bound[OF assms, of a] pos_mod_sign[OF assms, of a]
  by linarith+

lemma le_div_iff: "0 < (b::int) \<Longrightarrow> y \<le> a div b \<longleftrightarrow> y * b \<le> a"
  by (metis div_mult_bounds(1) dual_order.trans mult.commute mult_le_cancel_right_pos
      nonzero_mult_div_cancel_right order_less_irrefl zdiv_mono1)

lemma div_le_of_le_mult: "0 < (b::int) \<Longrightarrow> a \<le> x * b \<Longrightarrow> a div b \<le> x"
  by (metis nonzero_mult_div_cancel_right order_less_irrefl zdiv_mono1)

text \<open>The admissible trades, and the value the pool pays on them.\<close>

definition tradeable :: "int \<Rightarrow> int \<Rightarrow> int \<Rightarrow> int \<Rightarrow> bool" where
  "tradeable x rIn rOut fee \<longleftrightarrow> 0 < x \<and> 0 < rIn \<and> 0 < rOut \<and> 0 \<le> fee \<and> fee < million"

lemma million_pos [simp]: "0 < million" "0 \<le> million" "million \<noteq> 0"
  by (simp_all add: million_def)

lemma den_pos: "tradeable x rIn rOut fee \<Longrightarrow> 0 < rIn * million + x * (million - fee)"
  by (auto simp: tradeable_def intro!: add_pos_pos)

lemma amountOut_value:
  assumes "tradeable x rIn rOut fee"
  shows "amountOut (Some x) rIn rOut fee =
    Some (x * (million - fee) * rOut div (rIn * million + x * (million - fee)))"
  using assms den_pos[OF assms] by (auto simp: amountOut_def tradeable_def Let_def sdiv_nonneg)

lemma amountOut_Some_iff:
  "(\<exists>y. amountOut a rIn rOut fee = Some y) \<longleftrightarrow> (\<exists>x. a = Some x \<and> tradeable x rIn rOut fee)"
proof (cases a)
  case (Some x)
  show ?thesis
  proof (cases "tradeable x rIn rOut fee")
    case True
    then show ?thesis using Some amountOut_value by blast
  next
    case False
    then show ?thesis using Some by (auto simp: amountOut_def tradeable_def)
  qed
qed (simp add: amountOut_def)

lemma amountIn_value:
  assumes "tradeable y rIn rOut fee" "y < rOut"
  shows "amountIn (Some y) rIn rOut fee =
    Some (rIn * y * million div ((rOut - y) * (million - fee)) + 1)"
  using assms by (auto simp: amountIn_def tradeable_def Let_def sdiv_nonneg)

lemma amountIn_Some_iff:
  "(\<exists>x. amountIn a rIn rOut fee = Some x) \<longleftrightarrow> (\<exists>y. a = Some y \<and> tradeable y rIn rOut fee \<and> y < rOut)"
proof (cases a)
  case (Some y)
  show ?thesis
  proof (cases "tradeable y rIn rOut fee \<and> y < rOut")
    case True
    then show ?thesis using Some amountIn_value by blast
  next
    case False
    then show ?thesis using Some by (auto simp: amountIn_def tradeable_def)
  qed
qed (simp add: amountIn_def)

section \<open>The invariant\<close>

lemma amountOut_scaled:
  assumes "tradeable x rIn rOut fee" "amountOut (Some x) rIn rOut fee = Some y"
  shows "0 \<le> y" "y < rOut"
    "rIn * rOut * million \<le> (rIn * million + x * (million - fee)) * (rOut - y)"
proof -
  define a where "a = x * (million - fee)"
  define d where "d = rIn * million + a"
  have a: "0 < a" and r: "0 < rIn" "0 < rOut" using assms(1) by (auto simp: tradeable_def a_def)
  have d: "0 < d" using a r by (auto simp: d_def intro!: add_pos_pos)
  have y: "y = a * rOut div d" using assms amountOut_value by (simp add: a_def d_def)
  have le: "d * y \<le> a * rOut" using div_mult_bounds(1)[OF d] y by simp
  show "0 \<le> y" using y a r d by (simp add: pos_imp_zdiv_nonneg_iff)
  have "a * rOut < d * rOut" using r by (simp add: d_def)
  with le have "d * y < d * rOut" by simp
  with d show "y < rOut" by simp
  have "rIn * rOut * million = d * rOut - a * rOut" by (simp add: d_def algebra_simps)
  also have "\<dots> \<le> d * rOut - d * y" using le by simp
  finally show "rIn * rOut * million \<le> (rIn * million + x * (million - fee)) * (rOut - y)"
    by (simp add: d_def a_def right_diff_distrib)
qed

text \<open>C30: A swap a pool quotes never lowers the product of its reserves, and never pays out the whole side: the
price formula cannot be used to drain it, at any fee.\<close>

theorem product_does_not_fall:
  assumes "tradeable x rIn rOut fee" "amountOut (Some x) rIn rOut fee = Some y"
  shows "0 \<le> y \<and> y < rOut \<and> rIn * rOut \<le> (rIn + x) * (rOut - y)"
proof -
  have "x * (million - fee) \<le> x * million" using assms(1) by (simp add: tradeable_def)
  then have "rIn * million + x * (million - fee) \<le> (rIn + x) * million"
    by (simp add: distrib_right)
  then have "(rIn * million + x * (million - fee)) * (rOut - y) \<le> (rIn + x) * million * (rOut - y)"
    using amountOut_scaled(2)[OF assms] by (intro mult_right_mono) auto
  with amountOut_scaled(3)[OF assms]
  have "rIn * rOut * million \<le> (rIn + x) * million * (rOut - y)" by linarith
  then have "(rIn * rOut) * million \<le> ((rIn + x) * (rOut - y)) * million" by (simp only: mult_ac)
  then have "rIn * rOut \<le> (rIn + x) * (rOut - y)" by (rule mult_right_le_imp_le) simp
  then show ?thesis using amountOut_scaled(1,2)[OF assms] by simp
qed

theorem product_does_not_fall_witness:
  "amountOut (Some 1000) 10000 20000 3000 = Some 1813 \<and> 0 \<le> (1813 :: int) \<and> (1813 :: int) < 20000 \<and>
   10000 * 20000 \<le> (10000 + 1000) * (20000 - (1813 :: int))"
proof -
  have "tradeable 1000 10000 20000 3000" by (simp add: tradeable_def million_def)
  moreover have o: "amountOut (Some 1000) 10000 20000 3000 = Some 1813" by code_simp
  ultimately show ?thesis using product_does_not_fall by blast
qed

lemma buys_iff:
  assumes "tradeable x rIn rOut fee" "0 < y" "y < rOut"
  shows "(\<exists>z. amountOut (Some x) rIn rOut fee = Some z \<and> y \<le> z)
    \<longleftrightarrow> rIn * y * million \<le> x * ((rOut - y) * (million - fee))"
proof -
  define a where "a = x * (million - fee)"
  have d: "0 < rIn * million + a" using den_pos[OF assms(1)] by (simp add: a_def)
  have "(\<exists>z. amountOut (Some x) rIn rOut fee = Some z \<and> y \<le> z)
      \<longleftrightarrow> y \<le> a * rOut div (rIn * million + a)"
    using amountOut_value[OF assms(1)] by (simp add: a_def)
  also have "\<dots> \<longleftrightarrow> y * (rIn * million + a) \<le> a * rOut"
    using d by (simp add: le_div_iff)
  also have "\<dots> \<longleftrightarrow> rIn * y * million \<le> a * (rOut - y)"
    by (simp add: algebra_simps)
  finally show ?thesis by (simp add: a_def algebra_simps)
qed

text \<open>The input asked for an exact output does buy it, and is at most one unit above the least input that
does: no smaller input by two or more buys as much.\<close>

theorem amountIn_is_tight:
  assumes "amountIn (Some y) rIn rOut fee = Some x"
  shows "(\<exists>z. amountOut (Some x) rIn rOut fee = Some z \<and> y \<le> z) \<and>
    (\<forall>x' z'. amountOut (Some x') rIn rOut fee = Some z' \<and> y \<le> z' \<longrightarrow> x \<le> x' + 1)"
proof -
  have t: "tradeable y rIn rOut fee" "y < rOut"
    using amountIn_Some_iff[of "Some y" rIn rOut fee] assms by auto
  define n where "n = rIn * y * million"
  define d where "d = (rOut - y) * (million - fee)"
  have d: "0 < d" and n: "0 < n" using t by (auto simp: d_def n_def tradeable_def)
  have x: "x = n div d + 1" using assms amountIn_value[OF t] by (simp add: n_def d_def)
  have xpos: "0 < x" using x n d by (simp add: pos_imp_zdiv_nonneg_iff add_pos_nonneg)
  then have tx: "tradeable x rIn rOut fee" using t by (simp add: tradeable_def)
  have "n \<le> x * d" using div_mult_bounds(2)[OF d, of n] x by (simp add: algebra_simps)
  then have buys: "\<exists>z. amountOut (Some x) rIn rOut fee = Some z \<and> y \<le> z"
    using buys_iff[OF tx] t by (simp add: n_def d_def tradeable_def)
  have "x \<le> x' + 1" if o: "amountOut (Some x') rIn rOut fee = Some z'" "y \<le> z'" for x' z'
  proof -
    have "tradeable x' rIn rOut fee" using amountOut_Some_iff[of "Some x'" rIn rOut fee] o by auto
    then have "n \<le> x' * d" using buys_iff[of x' rIn rOut fee y] t o by (auto simp: n_def d_def tradeable_def)
    then have "n div d \<le> x'" using d by (rule div_le_of_le_mult[rotated])
    then show ?thesis using x by simp
  qed
  then show ?thesis using buys by blast
qed

theorem amountIn_is_tight_witness:
  "amountIn (Some 1813) 10000 20000 3000 = Some 1000 \<and> (\<exists>z. amountOut (Some 1000) 10000 20000 3000 = Some z \<and> 1813 \<le> z)"
proof -
  have i: "amountIn (Some 1813) 10000 20000 3000 = Some 1000" by code_simp
  from amountIn_is_tight[OF this] i show ?thesis by blast
qed

lemma marginalSize_pos: "0 < marginalSize a"
  by (simp add: marginalSize_def marginalRef_def split: option.splits)

lemma marginalSize_le: "0 < x \<Longrightarrow> marginalSize (Some x) \<le> x"
  by (simp add: marginalSize_def)

end
