(* ===== verification/Node.thy ===== *)
theory Node
  imports Prelude
begin

text \<open>
  The chain's read side, src/engine/node.go: a batch of calls answered positionally.

  The HTTP round trip and the JSON decoding of the reply are the parameter \<open>post\<close>: the list of
  id and result pairs the node sent, or None when the request failed, the status was not 200 or
  the body did not decode.  What the program does with the reply is \<open>nodeBatch\<close>.

  The locale \<open>positional\<close> is what the callers of a batch rely on; \<open>nodeCall\<close> is interpreted in it.
\<close>

record ethCall =
  callTo :: string
  callData :: string

record rpcRequest =
  rpcID :: int
  rpcMethod :: string
  rpcParams :: "(string \<times> string) list"

definition ethCallReq :: "int \<Rightarrow> string \<Rightarrow> string \<Rightarrow> rpcRequest" where
  "ethCallReq i to0 data =
     \<lparr>rpcID = i, rpcMethod = ''eth_call'', rpcParams = [(''to'', to0), (''data'', data)]\<rparr>"

definition fillReply :: "string list \<Rightarrow> int \<times> string \<Rightarrow> string list" where
  "fillReply out r = (if fst r \<ge> 0 \<and> fst r < int (length out) then out[nat (fst r) := snd r] else out)"

definition nodeBatch :: "(rpcRequest list \<Rightarrow> (int \<times> string) list option) \<Rightarrow> rpcRequest list \<Rightarrow> string list option" where
  "nodeBatch post reqs =
     (if reqs = [] then Some []
      else map_option (foldl fillReply (replicate (length reqs) '''')) (post reqs))"

definition nodeCall :: "(rpcRequest list \<Rightarrow> (int \<times> string) list option) \<Rightarrow> ethCall list \<Rightarrow> string list option" where
  "nodeCall post calls =
     nodeBatch post (map (\<lambda>(i, c). ethCallReq (int i) (callTo c) (callData c)) (enumerate 0 calls))"

locale positional =
  fixes ask :: "'c list \<Rightarrow> string list option"
  assumes positions: "ask cs = Some rs \<Longrightarrow> length rs = length cs"
    and nothing: "ask [] = Some []"
begin

text \<open>The answers of a batch built from several blocks split into the blocks' answers.\<close>

lemma split_answers:
  assumes "ask (concat css) = Some rs" "i < length css"
  shows "length (take (length (css ! i)) (drop (length (concat (take i css))) rs)) = length (css ! i)"
proof -
  have "concat css = concat (take i css) @ css ! i @ concat (drop (Suc i) css)"
    using assms(2) by (metis append.assoc concat.simps(2) concat_append id_take_nth_drop append_Cons)
  then show ?thesis using positions[OF assms(1)] by simp
qed

lemma answered_each:
  assumes "ask cs = Some rs" "i < length cs"
  shows "i < length rs"
  using positions[OF assms(1)] assms(2) by simp

end

lemma length_fillReply [simp]: "length (foldl fillReply out rs) = length out"
  by (induction rs arbitrary: out) (auto simp: fillReply_def)

lemma length_nodeBatch: "nodeBatch post reqs = Some out \<Longrightarrow> length out = length reqs"
  by (auto simp: nodeBatch_def split: if_splits)

lemma enumerate_Nil_iff [simp]: "enumerate n xs = [] \<longleftrightarrow> xs = []"
  by (cases xs) auto

interpretation node: positional "nodeCall post" for post
  by unfold_locales (auto simp: nodeCall_def nodeBatch_def split: if_splits)

lemma fillReply_last:
  assumes "distinct (map fst rs)" "(int i, x) \<in> set rs" "i < length out"
  shows "foldl fillReply out rs ! i = x"
  using assms
proof (induction rs arbitrary: out rule: rev_induct)
  case (snoc r rs)
  show ?case
  proof (cases "fst r = int i")
    case True
    then have "snd r = x" using snoc.prems by (auto simp: distinct_map inj_on_def image_iff)
    then show ?thesis using True snoc.prems(3) by (simp add: fillReply_def[of _ r])
  next
    case False
    then have "(int i, x) \<in> set rs" using snoc.prems by auto
    then have "foldl fillReply out rs ! i = x" using snoc by simp
    then show ?thesis using False by (auto simp: fillReply_def[of _ r] nth_list_update)
  qed
qed simp

lemma fillReply_other:
  "int i \<notin> fst ` set rs \<Longrightarrow> foldl fillReply out rs ! i = out ! i"
proof (induction rs arbitrary: out)
  case (Cons r rs)
  then have "fillReply out r ! i = out ! i" by (auto simp: fillReply_def nth_list_update)
  then show ?case using Cons by simp
qed simp

text \<open>A batch of calls is answered in the order it was asked: the answer with the id of a call stands at that
call's position, an id the node did not answer leaves the empty text, and the batch has one answer per
call whatever the node sent.\<close>

theorem batch_answers_by_id:
  assumes "post (map (\<lambda>(i, c). ethCallReq (int i) (callTo c) (callData c)) (enumerate 0 calls)) = Some rs"
    "calls \<noteq> []" "distinct (map fst rs)"
  shows "\<exists>out. nodeCall post calls = Some out \<and> length out = length calls \<and>
    (\<forall>i < length calls. out ! i = (case map_of rs (int i) of Some x \<Rightarrow> x | None \<Rightarrow> ''''))"
proof (intro exI conjI allI impI)
  let ?out = "foldl fillReply (replicate (length calls) '''') rs"
  show n: "nodeCall post calls = Some ?out" using assms by (simp add: nodeCall_def nodeBatch_def)
  show "length ?out = length calls" by simp
  fix i assume i: "i < length calls"
  show "?out ! i = (case map_of rs (int i) of Some x \<Rightarrow> x | None \<Rightarrow> '''')"
  proof (cases "map_of rs (int i)")
    case None
    then have "?out ! i = ''''" using fillReply_other[of i rs] i by (simp add: map_of_eq_None_iff)
    then show ?thesis using None by simp
  next
    case (Some x)
    then show ?thesis using fillReply_last[OF assms(3) map_of_SomeD[OF Some]] i by simp
  qed
qed

theorem batch_answers_by_id_witness:
  "\<exists>out. nodeCall (\<lambda>_. Some [(1, ''b''), (0, ''a'')]) [\<lparr>callTo = ''x'', callData = ''p''\<rparr>, \<lparr>callTo = ''y'', callData = ''q''\<rparr>]
     = Some out \<and> out ! 0 = ''a'' \<and> out ! 1 = ''b''"
  using batch_answers_by_id[of "\<lambda>_. Some [(1, ''b''), (0, ''a'')]"
      "[\<lparr>callTo = ''x'', callData = ''p''\<rparr>, \<lparr>callTo = ''y'', callData = ''q''\<rparr>]" "[(1, ''b''), (0, ''a'')]"] by force

end
