(* ===== verification/Float64.thy ===== *)
theory Float64
  imports Prelude "HOL-Library.Log_Nat" Complex_Main
begin

text \<open>
  IEEE-754 binary64 as Go's \<open>float64\<close> uses it, and the part of \<open>math/big.Float\<close> the sources
  call.  A finite float is the rational it denotes (a zero has no sign here: no source tells the
  two zeros apart); every operation computes exactly and rounds once to nearest, ties to even,
  with 53 bits of significand, gradual underflow at \<open>2\<^sup>-\<^sup>1\<^sup>0\<^sup>7\<^sup>4\<close> and overflow to infinity at \<open>2\<^sup>1\<^sup>0\<^sup>2\<^sup>4\<close>.

  \<open>roundPrec\<close> is the rounding of \<open>big.Float\<close> at a precision, whose exponent does not underflow
  in the ranges met here.
\<close>

datatype f64 = FNaN | FInf (negInf: bool) | Fin (finVal: rat)

definition pow2 :: "int \<Rightarrow> rat" where
  "pow2 k = (if 0 \<le> k then 2 ^ nat k else 1 / 2 ^ nat (- k))"

definition floorLog2 :: "rat \<Rightarrow> int" where
  "floorLog2 x =
     (case quotient_of x of (n, d) \<Rightarrow>
        let e = int (floorlog 2 (nat n)) - int (floorlog 2 (nat d)) in
        if pow2 e \<le> x then e else e - 1)"

definition roundEven :: "rat \<Rightarrow> int" where
  "roundEven x =
     (let f = \<lfloor>x\<rfloor>; r = x - of_int f in
      if r < 1 / 2 then f else if r > 1 / 2 then f + 1 else if even f then f else f + 1)"

definition roundAt :: "int \<Rightarrow> rat \<Rightarrow> rat" where
  "roundAt e x = of_int (roundEven (x / pow2 e)) * pow2 e"

definition roundPrec :: "nat \<Rightarrow> rat \<Rightarrow> rat" where
  "roundPrec p x = (if x = 0 then 0 else roundAt (floorLog2 \<bar>x\<bar> - int p + 1) x)"

definition toF64 :: "rat \<Rightarrow> f64" where
  "toF64 x =
     (let r = (if x = 0 then 0 else roundAt (max (floorLog2 \<bar>x\<bar> - 52) (- 1074)) x) in
      if \<bar>r\<bar> \<ge> pow2 1024 then FInf (r < 0) else Fin r)"

fun fneg :: "f64 \<Rightarrow> f64" where
  "fneg FNaN = FNaN"
| "fneg (FInf s) = FInf (\<not> s)"
| "fneg (Fin x) = Fin (- x)"

fun fadd :: "f64 \<Rightarrow> f64 \<Rightarrow> f64" where
  "fadd (Fin x) (Fin y) = toF64 (x + y)"
| "fadd (FInf s) (FInf t) = (if s = t then FInf s else FNaN)"
| "fadd (FInf s) (Fin y) = FInf s"
| "fadd (Fin x) (FInf t) = FInf t"
| "fadd FNaN y = FNaN"
| "fadd x FNaN = FNaN"

definition fsub :: "f64 \<Rightarrow> f64 \<Rightarrow> f64" where
  "fsub x y = fadd x (fneg y)"

fun fmul :: "f64 \<Rightarrow> f64 \<Rightarrow> f64" where
  "fmul (Fin x) (Fin y) = toF64 (x * y)"
| "fmul (FInf s) (FInf t) = FInf (s \<noteq> t)"
| "fmul (FInf s) (Fin y) = (if y = 0 then FNaN else FInf (s \<noteq> (y < 0)))"
| "fmul (Fin x) (FInf t) = (if x = 0 then FNaN else FInf ((x < 0) \<noteq> t))"
| "fmul FNaN y = FNaN"
| "fmul x FNaN = FNaN"

fun fdiv :: "f64 \<Rightarrow> f64 \<Rightarrow> f64" where
  "fdiv (Fin x) (Fin y) = (if y = 0 then (if x = 0 then FNaN else FInf (x < 0)) else toF64 (x / y))"
| "fdiv (FInf s) (FInf t) = FNaN"
| "fdiv (FInf s) (Fin y) = FInf (s \<noteq> (y < 0))"
| "fdiv (Fin x) (FInf t) = Fin 0"
| "fdiv FNaN y = FNaN"
| "fdiv x FNaN = FNaN"

fun fless :: "f64 \<Rightarrow> f64 \<Rightarrow> bool" where
  "fless (Fin x) (Fin y) = (x < y)"
| "fless (FInf s) (Fin y) = s"
| "fless (Fin x) (FInf t) = (\<not> t)"
| "fless (FInf s) (FInf t) = (s \<and> \<not> t)"
| "fless FNaN y = False"
| "fless x FNaN = False"

fun feq :: "f64 \<Rightarrow> f64 \<Rightarrow> bool" where
  "feq (Fin x) (Fin y) = (x = y)"
| "feq (FInf s) (FInf t) = (s = t)"
| "feq _ _ = False"

definition fle :: "f64 \<Rightarrow> f64 \<Rightarrow> bool" where
  "fle x y = (fless x y \<or> feq x y)"

fun isInf :: "f64 \<Rightarrow> bool" where
  "isInf (FInf _) = True"
| "isInf _ = False"

fun isNaN :: "f64 \<Rightarrow> bool" where
  "isNaN FNaN = True"
| "isNaN _ = False"

text \<open>\<open>math.Round\<close>: nearest integer, halves away from zero; then Go's \<open>int64\<close> conversion of a
  float in range.\<close>

definition roundAway :: "rat \<Rightarrow> int" where
  "roundAway x = (if x < 0 then - \<lfloor>- x + 1 / 2\<rfloor> else \<lfloor>x + 1 / 2\<rfloor>)"

text \<open>\<open>big.Float\<close>: the quotient of two integers set at their own precision (at least 64 bits),
  rounded to the larger of the two, then to a float64.\<close>

definition bitLen :: "int \<Rightarrow> nat" where
  "bitLen n = floorlog 2 (nat \<bar>n\<bar>)"

definition bigQuotient :: "int \<Rightarrow> int \<Rightarrow> f64" where
  "bigQuotient num den =
     toF64 (roundPrec (max (max (bitLen num) 64) (max (bitLen den) 64)) (of_int num / of_int den))"

section \<open>Rounding errors\<close>

lemma pow2_pos [simp]: "0 < pow2 k"
  by (simp add: pow2_def)

lemma pow2_neq [simp]: "pow2 k \<noteq> 0"
  using pow2_pos[of k] by linarith

lemma pow2_abs [simp]: "\<bar>pow2 k\<bar> = pow2 k" "\<not> pow2 k \<le> 0" "0 \<le> pow2 k" "\<not> pow2 k < 0"
  using pow2_pos[of k] by linarith+

lemma pow2_add: "pow2 (a + b) = pow2 a * pow2 b"
proof -
  have s: "pow2 k = 2 powi k" for k
    by (simp add: pow2_def power_int_def field_simps)
  show ?thesis by (simp add: s power_int_add)
qed

lemma pow2_mono: "a \<le> b \<Longrightarrow> pow2 a \<le> pow2 b"
proof -
  assume "a \<le> b"
  have "pow2 b = pow2 a * pow2 (b - a)" by (simp flip: pow2_add)
  moreover have "1 \<le> pow2 (b - a)" using \<open>a \<le> b\<close> by (simp add: pow2_def)
  ultimately show ?thesis using pow2_pos[of a] by (metis less_eq_rat_def mult.right_neutral mult_left_mono)
qed

lemma pow2_less_iff: "pow2 a < pow2 b \<longleftrightarrow> a < b"
proof -
  have "pow2 k < pow2 (k + 1)" for k using pow2_add[of k 1] by (simp add: pow2_def)
  then have "pow2 a < pow2 b" if "a < b" for a b
    using that pow2_mono[of "a + 1" b] by (meson less_le_trans zless_imp_add1_zle)
  then show ?thesis using pow2_mono by (meson leD not_less)
qed

lemma pow2_le_iff: "pow2 a \<le> pow2 b \<longleftrightarrow> a \<le> b"
  using pow2_less_iff[of b a] by linarith

lemma floorLog2_le:
  assumes "0 < x"
  shows "pow2 (floorLog2 x) \<le> x"
proof -
  obtain n d where q: "quotient_of x = (n, d)" by fastforce
  have d: "0 < d" using quotient_of_denom_pos[OF q] .
  have x: "x = of_int n / of_int d" using quotient_of_div[OF q] .
  have n: "0 < n" using assms d by (simp add: x zero_less_divide_iff)
  define a b where "a = floorlog 2 (nat n)" and "b = floorlog 2 (nat d)"
  have na: "2 ^ (a - 1) \<le> nat n" "a \<ge> 1"
    using n floorlog_bounds[of "nat n" 2] by (auto simp: a_def floorlog_def)
  have db: "nat d < 2 ^ b" using d floorlog_bounds[of "nat d" 2] by (simp add: b_def)
  have "of_nat (nat n) = (of_int n :: rat)" "of_nat (nat d) = (of_int d :: rat)" using n d by simp_all
  then have "2 ^ (a - 1) \<le> (of_int n :: rat)" "(of_int d :: rat) < 2 ^ b"
    using na db by (metis of_nat_le_iff of_nat_numeral of_nat_power, metis of_nat_less_iff of_nat_numeral of_nat_power)
  then have "2 ^ (a - 1) / 2 ^ b \<le> x" unfolding x using d n by (intro frac_le) auto
  moreover have "2 ^ (a - 1) / 2 ^ b = pow2 (int a - int b - 1)"
  proof -
    have "pow2 (int a - int b - 1) = pow2 (int (a - 1)) * pow2 (- int b)"
      using na(2) by (simp flip: pow2_add add: of_nat_diff algebra_simps)
    then show ?thesis by (simp add: pow2_def)
  qed
  ultimately have "pow2 (int a - int b - 1) \<le> x" by simp
  then show ?thesis by (simp add: floorLog2_def q Let_def a_def b_def)
qed

lemma roundEven_error: "\<bar>of_int (roundEven x) - x\<bar> \<le> 1 / 2"
proof -
  have "of_int \<lfloor>x\<rfloor> \<le> x" "x < of_int \<lfloor>x\<rfloor> + 1" by linarith+
  then show ?thesis by (auto simp: roundEven_def Let_def abs_le_iff)
qed

lemma roundAt_error: "\<bar>roundAt e x - x\<bar> \<le> pow2 e / 2"
proof -
  have "roundAt e x - x = (of_int (roundEven (x / pow2 e)) - x / pow2 e) * pow2 e"
    by (simp add: roundAt_def left_diff_distrib)
  then have "\<bar>roundAt e x - x\<bar> = \<bar>of_int (roundEven (x / pow2 e)) - x / pow2 e\<bar> * pow2 e"
    by (simp add: abs_mult)
  also have "\<dots> \<le> 1 / 2 * pow2 e" by (intro mult_right_mono roundEven_error) simp
  finally show ?thesis by simp
qed

lemma roundEven_nonneg: "0 \<le> x \<Longrightarrow> 0 \<le> roundEven x"
  by (auto simp: roundEven_def Let_def)

lemma roundAt_nonneg: "0 \<le> x \<Longrightarrow> 0 \<le> roundAt e x"
  by (simp add: roundAt_def roundEven_nonneg zero_le_mult_iff)

lemma toF64_small:
  assumes "0 \<le> x" "x \<le> 2 ^ 20"
  obtains r where "toF64 x = Fin r" "0 \<le> r" "\<bar>r - x\<bar> \<le> 1 / 2 ^ 32"
proof (cases "x = 0")
  case True
  then show ?thesis using that[of 0] by (simp add: toF64_def)
next
  case False
  with assms have x: "0 < x" by simp
  define e where "e = max (floorLog2 \<bar>x\<bar> - 52) (- 1074)"
  have "pow2 (floorLog2 x) \<le> pow2 20" using floorLog2_le[OF x] assms by (simp add: pow2_def)
  then have "floorLog2 x \<le> 20" by (simp add: pow2_le_iff)
  then have e: "e \<le> - 32" using x by (simp add: e_def)
  define r where "r = roundAt e x"
  have "\<bar>r - x\<bar> \<le> pow2 (- 32) / 2"
    using roundAt_error[of e x] pow2_mono[OF e] by (simp add: r_def)
  then have r: "\<bar>r - x\<bar> \<le> 1 / 2 ^ 32" by (simp add: pow2_def)
  have "0 \<le> r" using roundAt_nonneg assms by (simp add: r_def)
  moreover have "\<bar>r\<bar> < pow2 1024"
  proof -
    have "r - x \<le> 1" using abs_ge_self[of "r - x"] r by simp
    then have "\<bar>r\<bar> \<le> 2 ^ 20 + 1" using \<open>0 \<le> r\<close> assms by linarith
    also have "\<dots> < pow2 21" by (simp add: pow2_def)
    also have "\<dots> \<le> pow2 1024" by (rule pow2_mono) simp
    finally show ?thesis .
  qed
  ultimately have "toF64 x = Fin r"
    unfolding toF64_def Let_def using False by (simp flip: e_def r_def)
  then show ?thesis using that r \<open>0 \<le> r\<close> by blast
qed

section \<open>Exact results\<close>

lemma roundEven_int [simp]: "roundEven (of_int n) = n"
  by (simp add: roundEven_def Let_def)

lemma roundAt_exact:
  assumes "k \<le> e"
  shows "roundAt k (of_int m * pow2 e) = of_int m * pow2 e"
proof -
  have p: "pow2 e = 2 ^ nat (e - k) * pow2 k"
    using assms pow2_add[of "e - k" k] by (simp add: pow2_def)
  have "of_int m * pow2 e / pow2 k = of_int (m * 2 ^ nat (e - k))" by (simp add: p)
  then show ?thesis by (simp add: roundAt_def p del: of_int_mult)
qed

text \<open>A number with at most 53 bits of significand is its own float.\<close>

lemma toF64_exact:
  assumes m: "\<bar>m\<bar> < 2 ^ 53" and e: "- 1074 \<le> e" "e \<le> 971"
  shows "toF64 (of_int m * pow2 e) = Fin (of_int m * pow2 e)"
proof (cases "m = 0")
  case False
  let ?x = "of_int m * pow2 e"
  have x: "0 < \<bar>?x\<bar>" using False by simp
  have b: "\<bar>?x\<bar> < pow2 (53 + e)"
  proof -
    have "(of_int \<bar>m\<bar> :: rat) < 2 ^ 53" using m by (metis of_int_less_iff of_int_numeral of_int_power)
    then show ?thesis using pow2_pos[of e] by (simp add: abs_mult pow2_add) (simp add: pow2_def)
  qed
  then have "pow2 (floorLog2 \<bar>?x\<bar>) < pow2 (53 + e)" using floorLog2_le[OF x] by linarith
  then have k: "max (floorLog2 \<bar>?x\<bar> - 52) (- 1074) \<le> e" using e(1) by (simp add: pow2_less_iff)
  have "pow2 (53 + e) \<le> pow2 1024" using e(2) by (simp add: pow2_le_iff)
  then have "\<bar>?x\<bar> < pow2 1024" using b by linarith
  then show ?thesis
    using x False by (simp add: toF64_def Let_def roundAt_exact[OF k] del: abs_mult)
qed (simp add: toF64_def)

lemma toF64_int: "\<bar>n\<bar> < 2 ^ 53 \<Longrightarrow> toF64 (of_int n) = Fin (of_int n)"
  using toF64_exact[of n 0] by (simp add: pow2_def)

lemma fless_trans: "fless a b \<Longrightarrow> fless b c \<Longrightarrow> fless a c"
  by (cases a; cases b; cases c) auto

section \<open>Signs\<close>

definition upward :: "f64 \<Rightarrow> bool" where
  "upward x \<longleftrightarrow> x = FInf False \<or> (\<exists>v. x = Fin v \<and> 0 \<le> v)"

lemma toF64_upward: "0 \<le> x \<Longrightarrow> upward (toF64 x)"
  by (auto simp: toF64_def upward_def Let_def roundAt_nonneg not_less)

lemma fmul_upward: "upward x \<Longrightarrow> 0 < v \<Longrightarrow> upward (fmul x (Fin v))"
proof -
  assume x: "upward x" "0 < v"
  have "upward (toF64 (u * v))" if "0 \<le> u" for u using toF64_upward[of "u * v"] that x(2) by simp
  then show ?thesis using x by (auto simp: upward_def[of x]) (simp add: upward_def)
qed

lemma fadd_upward: "upward x \<Longrightarrow> upward y \<Longrightarrow> upward (fadd x y)"
proof -
  assume "upward x" "upward y"
  moreover have "upward (toF64 (u + v))" if "0 \<le> u" "0 \<le> v" for u v using toF64_upward[of "u + v"] that by simp
  ultimately show ?thesis by (auto simp: upward_def[of x] upward_def[of y]) (simp_all add: upward_def)
qed

lemma toF64_number: "toF64 x = FInf True \<or> toF64 x = FInf False \<or> (\<exists>v. toF64 x = Fin v)"
  by (cases "toF64 x") (auto simp: toF64_def Let_def split: if_splits)

end
