(* ===== verification/Value.thy ===== *)
theory Value
  imports Prelude "HOL-Library.AList" "HOL-Library.List_Lexorder" "HOL-Library.Char_ord"
begin

text \<open>
  Dynamic values: Go's \<open>interface{}\<close> as the query engine, the resolvers and the entity store pass it
  around, with the two printers the sources call on it (\<open>fmt.Sprint\<close> and \<open>json.Marshal\<close>) and the
  integer reader \<open>fmt.Sscanf(s, "%d", &limit)\<close>.

  A Go map is an association list without duplicate keys; its order stands for the order one
  iteration visits, which Go leaves open.  \<open>putKey\<close> is an assignment \<open>m[k] = v\<close>.
\<close>

datatype val =
    VNil
  | VStr string
  | VInt int
  | VBool bool
  | VList "val list"
  | VMap "(string \<times> val) list"

type_synonym 'v gomap = "(string \<times> 'v) list"

definition putKey :: "string \<Rightarrow> 'v \<Rightarrow> 'v gomap \<Rightarrow> 'v gomap" where
  "putKey k v m = AList.update k v m"

definition getKey :: "'v gomap \<Rightarrow> string \<Rightarrow> 'v option" where
  "getKey m k = map_of m k"

lemma getKey_putKey [simp]: "getKey (putKey k v m) k' = (if k' = k then Some v else getKey m k')"
  by (simp add: getKey_def putKey_def update_conv')

lemma distinct_putKey [simp]: "distinct (map fst m) \<Longrightarrow> distinct (map fst (putKey k v m))"
  by (simp add: putKey_def distinct_update)

lemma dom_putKey [simp]: "fst ` set (putKey k v m) = insert k (fst ` set m)"
  by (simp add: putKey_def dom_update)

lemma set_putKey: "set (putKey k v m) \<subseteq> insert (k, v) (set m)"
  by (induction m) (auto simp: putKey_def)

section \<open>Printing\<close>

fun joinWith :: "string \<Rightarrow> string list \<Rightarrow> string" where
  "joinWith sep [] = ''''"
| "joinWith sep [x] = x"
| "joinWith sep (x # y # ys) = x @ sep @ joinWith sep (y # ys)"

definition sortKeys :: "(string \<times> 'v) list \<Rightarrow> (string \<times> 'v) list" where
  "sortKeys m = sort_key fst m"

lemma size_pair_in_map: "(k, v) \<in> set m \<Longrightarrow> size v < size_list (size_prod (\<lambda>_. 0) size) m"
proof (induction m)
  case (Cons a m)
  then show ?case by (cases a) auto
qed simp

function sprint :: "val \<Rightarrow> string" where
  "sprint VNil = ''<nil>''"
| "sprint (VStr s) = s"
| "sprint (VInt n) = intText 10 n"
| "sprint (VBool b) = (if b then ''true'' else ''false'')"
| "sprint (VList vs) = ''['' @ joinWith '' '' (map sprint vs) @ '']''"
| "sprint (VMap m) = ''map['' @ joinWith '' '' (map (\<lambda>(k, v). k @ '':'' @ sprint v) (sortKeys m)) @ '']''"
  by pat_completeness auto
termination
  by (relation "measure size") (auto simp: sortKeys_def less_Suc_eq_le size_list_estimation'
      dest!: size_pair_in_map)

definition jsonChar :: "char \<Rightarrow> string" where
  "jsonChar c =
     (let b = byteOf c; hex = (\<lambda>n. [digitChar n]) in
      if b = 34 then [CHR 0x5C, c]
      else if b = 92 then [c, c]
      else if b = 10 then [CHR 0x5C, CHR ''n'']
      else if b = 13 then [CHR 0x5C, CHR ''r'']
      else if b = 9 then [CHR 0x5C, CHR ''t'']
      else if b = 8 then [CHR 0x5C, CHR ''b'']
      else if b = 12 then [CHR 0x5C, CHR ''f'']
      else if b < 32 \<or> b = 60 \<or> b = 62 \<or> b = 38 then
        [CHR 0x5C] @ ''u00'' @ hex (b div 16) @ hex (b mod 16)
      else [c])"

definition jsonString :: "string \<Rightarrow> string" where
  "jsonString s = [CHR 0x22] @ concat (map jsonChar s) @ [CHR 0x22]"

function jsonText :: "val \<Rightarrow> string" where
  "jsonText VNil = ''null''"
| "jsonText (VStr s) = jsonString s"
| "jsonText (VInt n) = intText 10 n"
| "jsonText (VBool b) = (if b then ''true'' else ''false'')"
| "jsonText (VList vs) = ''['' @ joinWith '','' (map jsonText vs) @ '']''"
| "jsonText (VMap m) =
     ''{'' @ joinWith '','' (map (\<lambda>(k, v). jsonString k @ '':'' @ jsonText v) (sortKeys m)) @ ''}''"
  by pat_completeness auto
termination
  by (relation "measure size") (auto simp: sortKeys_def less_Suc_eq_le size_list_estimation'
      dest!: size_pair_in_map)

section \<open>Reading a limit\<close>

text \<open>\<open>fmt.Sscanf(s, "%d", &limit)\<close>: leading blanks are skipped and a newline stops the scan; then
  a sign and decimal digits, of which the longest prefix counts.  None leaves the variable as it
  was.\<close>

fun skipBlanks :: "string \<Rightarrow> string option" where
  "skipBlanks [] = None"
| "skipBlanks (c # cs) =
     (if byteOf c = 10 then None
      else if byteOf c = 13 \<and> cs \<noteq> [] \<and> byteOf (hd cs) = 10 then None
      else if asciiSpace c then skipBlanks cs
      else Some (c # cs))"

definition decimalPrefix :: "string \<Rightarrow> string" where
  "decimalPrefix s = takeWhile (\<lambda>c. 48 \<le> byteOf c \<and> byteOf c \<le> 57) s"

definition sscanfD :: "string \<Rightarrow> int option" where
  "sscanfD s =
     (case skipBlanks s of
        None \<Rightarrow> None
      | Some t \<Rightarrow>
          (let neg = (hd t = CHR ''-''); hasSign = (hd t = CHR ''-'' \<or> hd t = CHR ''+'');
               ds = decimalPrefix (if hasSign then tl t else t);
               n = int (fst (scanDigits 10 0 ds)); z = (if neg then - n else n)
           in if ds = [] \<or> z < - (2 ^ 63) \<or> z \<ge> 2 ^ 63 then None else Some z))"

definition readFirst :: "val gomap \<Rightarrow> int \<Rightarrow> int" where
  "readFirst args dflt =
     (case getKey args ''first'' of
        None \<Rightarrow> dflt
      | Some l \<Rightarrow> (case sscanfD (sprint l) of None \<Rightarrow> dflt | Some n \<Rightarrow> n))"

end
