(* ===== verification/Store.thy ===== *)
theory Store
  imports Value
begin

text \<open>
  The data layer, src/storage/store.go (row types) and src/storage/store_memory.go (the map backend).

  The store is a record of Go maps; every write returns the new store.  Locks are not modelled:
  each operation is one critical section.  A nil result is \<open>VNil\<close>; no operation of this backend
  returns an error.  Row pointers are values: a caller that keeps a pointer after storing it is
  not modelled, and the reads here copy.  Go's strings.ToLower is taken on ASCII.

  The locale \<open>entity_store\<close> is the contract the indexer's event writers and the resolvers rely on:
  what is read after a write at the same key and at any other.  The map backend stores an entity
  under the text \<open>type:id\<close>; the contract holds for type names without a colon.
\<close>

record seedFactory =
  sfPoolCount :: int
  sfTxCount :: int
  sfTotalVolumeUSD :: string
  sfTotalValueLockedUSD :: string

record seedBundle =
  sbEthPriceUSD :: string

record seedToken =
  stSymbol :: string
  stName :: string
  stDecimals :: int
  stTotalSupply :: string
  stStaked :: string
  stVolumeUSD :: string
  stTotalValueLockedUSD :: string
  stDerivedETH :: string
  stTxCount :: int

record seedPool =
  spToken0 :: string
  spToken1 :: string
  spFeeTier :: int
  spTotalValueLockedUSD :: string
  spVolumeUSD :: string
  spToken0Price :: string
  spToken1Price :: string
  spTxCount :: int

record seedSwap =
  swTimestamp :: int
  swBlock :: "64 word"
  swPool :: string
  swAmount0 :: string
  swAmount1 :: string
  swAmountUSD :: string
  swSender :: string

definition Dated :: "seedSwap \<Rightarrow> bool" where
  "Dated d \<longleftrightarrow> swBlock d \<noteq> 0 \<and> swTimestamp d > 0"

record store =
  dbFactories :: "seedFactory gomap"
  dbBundles :: "seedBundle gomap"
  dbTokens :: "seedToken gomap"
  dbPools :: "seedPool gomap"
  dbSwaps :: "seedSwap gomap"
  dbPricedThrough :: int
  dbGeneric :: "val gomap"
  dbLastBlock :: "64 word"

definition NewStore :: store where
  "NewStore =
     \<lparr>dbFactories = [], dbBundles = [], dbTokens = [], dbPools = [], dbSwaps = [], dbPricedThrough = 0,
      dbGeneric = [], dbLastBlock = 0\<rparr>"

definition SetLastBlock :: "64 word \<Rightarrow> store \<Rightarrow> store" where
  "SetLastBlock block s = s\<lparr>dbLastBlock := block\<rparr>"

definition GetLastBlock :: "store \<Rightarrow> 64 word" where
  "GetLastBlock s = dbLastBlock s"

definition SeedFactory :: "string \<Rightarrow> seedFactory \<Rightarrow> store \<Rightarrow> store" where
  "SeedFactory i d s = s\<lparr>dbFactories := putKey i d (dbFactories s)\<rparr>"

definition SeedBundle :: "string \<Rightarrow> seedBundle \<Rightarrow> store \<Rightarrow> store" where
  "SeedBundle i d s = s\<lparr>dbBundles := putKey i d (dbBundles s)\<rparr>"

definition SeedToken :: "string \<Rightarrow> seedToken \<Rightarrow> store \<Rightarrow> store" where
  "SeedToken i d s = s\<lparr>dbTokens := putKey i d (dbTokens s)\<rparr>"

definition SeedPool :: "string \<Rightarrow> seedPool \<Rightarrow> store \<Rightarrow> store" where
  "SeedPool i d s = s\<lparr>dbPools := putKey i d (dbPools s)\<rparr>"

definition SeedSwap :: "string \<Rightarrow> seedSwap \<Rightarrow> store \<Rightarrow> store" where
  "SeedSwap i d s = s\<lparr>dbSwaps := putKey i d (dbSwaps s)\<rparr>"

text \<open>\<open>ValueSwaps\<close> visits the map of values in some order; it counts the rows it found.\<close>

definition valueSwap :: "store \<times> int \<Rightarrow> string \<times> string \<Rightarrow> store \<times> int" where
  "valueSwap st kv =
     (case getKey (dbSwaps (fst st)) (fst kv) of
        None \<Rightarrow> st
      | Some sw \<Rightarrow> (SeedSwap (fst kv) (sw\<lparr>swAmountUSD := snd kv\<rparr>) (fst st), snd st + 1))"

definition ValueSwaps :: "string gomap \<Rightarrow> store \<Rightarrow> store \<times> int" where
  "ValueSwaps usd s = foldl valueSwap (s, 0) usd"

section \<open>Entities\<close>

definition entityKey :: "string \<Rightarrow> string \<Rightarrow> string" where
  "entityKey entityType i = entityType @ '':'' @ i"

definition SetEntity :: "string \<Rightarrow> string \<Rightarrow> val \<Rightarrow> store \<Rightarrow> store" where
  "SetEntity entityType i data s = s\<lparr>dbGeneric := putKey (entityKey entityType i) data (dbGeneric s)\<rparr>"

definition GetByType :: "store \<Rightarrow> string \<Rightarrow> string \<Rightarrow> val" where
  "GetByType s entityType i =
     (case getKey (dbGeneric s) (entityKey entityType i) of Some v \<Rightarrow> v | None \<Rightarrow> VNil)"

fun listLoop :: "string \<Rightarrow> int \<Rightarrow> val gomap \<Rightarrow> val list \<Rightarrow> val list" where
  "listLoop pfx limit [] result = result"
| "listLoop pfx limit ((k, v) # m) result =
     (if length k > length pfx \<and> take (length pfx) k = pfx then
        (if int (length (result @ [v])) \<ge> limit then result @ [v]
         else listLoop pfx limit m (result @ [v]))
      else listLoop pfx limit m result)"

definition ListByType :: "store \<Rightarrow> string \<Rightarrow> int \<Rightarrow> val" where
  "ListByType s entityType limit = VList (listLoop (entityType @ '':'') limit (dbGeneric s) [])"

section \<open>Presentation\<close>

definition tokenToMap :: "string \<Rightarrow> seedToken \<Rightarrow> val" where
  "tokenToMap a t = VMap
     [(''id'', VStr a), (''symbol'', VStr (stSymbol t)), (''name'', VStr (stName t)),
      (''decimals'', VInt (stDecimals t)), (''volumeUSD'', VStr (stVolumeUSD t)),
      (''totalValueLockedUSD'', VStr (stTotalValueLockedUSD t)), (''derivedETH'', VStr (stDerivedETH t)),
      (''txCount'', VInt (stTxCount t)), (''totalSupply'', VStr (stTotalSupply t)),
      (''staked'', VStr (stStaked t))]"

definition GetToken :: "store \<Rightarrow> string \<Rightarrow> val" where
  "GetToken s a = (case getKey (dbTokens s) a of Some t \<Rightarrow> tokenToMap a t | None \<Rightarrow> VNil)"

definition factoryToMap :: "string \<Rightarrow> seedFactory \<Rightarrow> val" where
  "factoryToMap i f = VMap
     [(''id'', VStr i), (''poolCount'', VInt (sfPoolCount f)), (''txCount'', VInt (sfTxCount f)),
      (''totalVolumeUSD'', VStr (sfTotalVolumeUSD f)),
      (''totalValueLockedUSD'', VStr (sfTotalValueLockedUSD f))]"

definition GetFactory :: "store \<Rightarrow> string \<Rightarrow> val" where
  "GetFactory s i = (case getKey (dbFactories s) i of Some f \<Rightarrow> factoryToMap i f | None \<Rightarrow> VNil)"

definition GetFactories :: "store \<Rightarrow> val" where
  "GetFactories s = VList (map (\<lambda>(i, f). factoryToMap i f) (dbFactories s))"

definition GetBundle :: "store \<Rightarrow> string \<Rightarrow> val" where
  "GetBundle s i =
     (case getKey (dbBundles s) i of
        Some b \<Rightarrow> VMap [(''id'', VStr i), (''ethPriceUSD'', VStr (sbEthPriceUSD b)),
                        (''ethPrice'', VStr (sbEthPriceUSD b))]
      | None \<Rightarrow> VNil)"

definition tokenRefMap :: "store \<Rightarrow> string \<Rightarrow> val" where
  "tokenRefMap s a =
     (case getKey (dbTokens s) a of
        Some t \<Rightarrow> VMap [(''id'', VStr a), (''symbol'', VStr (stSymbol t)), (''name'', VStr (stName t)),
                        (''decimals'', VInt (stDecimals t))]
      | None \<Rightarrow> VNil)"

definition poolToMap :: "store \<Rightarrow> string \<Rightarrow> seedPool \<Rightarrow> val" where
  "poolToMap s i p = VMap
     [(''id'', VStr i), (''token0'', tokenRefMap s (spToken0 p)), (''token1'', tokenRefMap s (spToken1 p)),
      (''feeTier'', VInt (spFeeTier p)), (''totalValueLockedUSD'', VStr (spTotalValueLockedUSD p)),
      (''volumeUSD'', VStr (spVolumeUSD p)), (''token0Price'', VStr (spToken0Price p)),
      (''token1Price'', VStr (spToken1Price p)), (''txCount'', VInt (spTxCount p))]"

definition GetPool :: "store \<Rightarrow> string \<Rightarrow> val" where
  "GetPool s i = (case getKey (dbPools s) i of Some p \<Rightarrow> poolToMap s i p | None \<Rightarrow> VNil)"

definition swapToMap :: "store \<Rightarrow> string \<Rightarrow> seedSwap \<Rightarrow> val" where
  "swapToMap s i sw = VMap
     [(''id'', VStr i), (''timestamp'', VInt (swTimestamp sw)),
      (''pool'', case getKey (dbPools s) (swPool sw) of Some p \<Rightarrow> poolToMap s (swPool sw) p
                                                 | None \<Rightarrow> VStr (swPool sw)),
      (''amount0'', VStr (swAmount0 sw)), (''amount1'', VStr (swAmount1 sw)),
      (''amountUSD'', VStr (swAmountUSD sw)), (''sender'', VStr (swSender sw))]"

definition GetSwap :: "store \<Rightarrow> string \<Rightarrow> val" where
  "GetSwap s i = (case getKey (dbSwaps s) i of Some sw \<Rightarrow> swapToMap s i sw | None \<Rightarrow> VNil)"

section \<open>Raw accessors\<close>

definition PoolsRaw :: "store \<Rightarrow> seedPool gomap" where
  "PoolsRaw s = dbPools s"

definition TokensRaw :: "store \<Rightarrow> seedToken gomap" where
  "TokensRaw s = dbTokens s"

definition PricedThrough :: "store \<Rightarrow> int" where
  "PricedThrough s = dbPricedThrough s"

definition SetPricedThrough :: "int \<Rightarrow> store \<Rightarrow> store" where
  "SetPricedThrough ts s = s\<lparr>dbPricedThrough := ts\<rparr>"

text \<open>\<open>sort.Slice\<close> is not stable; the stable sort used here is one of the orders it may answer.\<close>

definition SwapsAfter :: "store \<Rightarrow> int \<Rightarrow> nat \<Rightarrow> seedSwap gomap" where
  "SwapsAfter s ts limit =
     take limit (sort_key (\<lambda>(_, sw). swTimestamp sw) (filter (\<lambda>(_, sw). swTimestamp sw > ts) (dbSwaps s)))"

definition RecentSwapsRaw :: "store \<Rightarrow> nat \<Rightarrow> seedSwap gomap" where
  "RecentSwapsRaw s limit = take limit (sort_key (\<lambda>(_, sw). - swTimestamp sw) (dbSwaps s))"

definition UndatedSwapsRaw :: "store \<Rightarrow> nat \<Rightarrow> seedSwap gomap" where
  "UndatedSwapsRaw s limit =
     take limit (filter (\<lambda>(_, sw). \<not> (Dated sw \<or> swTimestamp sw \<le> 0)) (dbSwaps s))"

section \<open>The entity contract\<close>

text \<open>\<open>lastWrite ws t i\<close>: the value of the last write of the run at the key, as an abstract map would hold it.\<close>

definition lastWrite :: "(string \<times> string \<times> 'v) list \<Rightarrow> string \<Rightarrow> string \<Rightarrow> 'v option" where
  "lastWrite ws t i = map_of (rev (map (\<lambda>(t, i, v). ((t, i), v)) ws)) (t, i)"

lemma lastWrite_snoc: "lastWrite (ws @ [(u, j, v)]) t i = (if (u, j) = (t, i) then Some v else lastWrite ws t i)"
  by (simp add: lastWrite_def)

locale entity_store =
  fixes put :: "string \<Rightarrow> string \<Rightarrow> 'v \<Rightarrow> 's \<Rightarrow> 's"
    and get :: "'s \<Rightarrow> string \<Rightarrow> string \<Rightarrow> 'r"
    and seen :: "'v \<Rightarrow> 'r"
    and typeName :: "string \<Rightarrow> bool"
  assumes get_put_same: "get (put t i v s) t i = seen v"
    and get_put_other: "typeName t \<Longrightarrow> typeName t' \<Longrightarrow> (t, i) \<noteq> (t', i') \<Longrightarrow> get (put t i v s) t' i' = get s t' i'"
begin

text \<open>A run of writes: the last write at a key is what is read there, and a key no write names
  keeps its value.\<close>

definition putAll :: "(string \<times> string \<times> 'v) list \<Rightarrow> 's \<Rightarrow> 's" where
  "putAll ws s = foldl (\<lambda>s (t, i, v). put t i v s) s ws"

lemma putAll_snoc: "putAll (ws @ [(t, i, v)]) s = put t i v (putAll ws s)"
  by (simp add: putAll_def)

lemma putAll_last: "get (putAll (ws @ [(t, i, v)]) s) t i = seen v"
  by (simp add: putAll_snoc get_put_same)

lemma putAll_frame:
  "\<forall>(t, i, v) \<in> set ws. typeName t \<and> (t, i) \<noteq> (t', i') \<Longrightarrow> typeName t' \<Longrightarrow>
   get (putAll ws s) t' i' = get s t' i'"
  by (induction ws rule: rev_induct) (auto simp: putAll_snoc get_put_other, simp add: putAll_def)

lemma putAll_reads:
  assumes "\<forall>(u, j, v) \<in> set ws. typeName u" "typeName t"
  shows "get (putAll ws s) t i = (case lastWrite ws t i of Some v \<Rightarrow> seen v | None \<Rightarrow> get s t i)"
  using assms(1)
proof (induction ws rule: rev_induct)
  case (snoc w ws)
  obtain u j v where w: "w = (u, j, v)" by (cases w)
  show ?case
  proof (cases "(u, j) = (t, i)")
    case True
    then show ?thesis using w by (simp add: lastWrite_snoc putAll_last)
  next
    case False
    then have "lastWrite (ws @ [w]) t i = lastWrite ws t i" using w by (simp only: lastWrite_snoc if_False)
    then show ?thesis using False w snoc assms(2) get_put_other[of u t j i] by (simp add: putAll_snoc)
  qed
qed (simp add: lastWrite_def putAll_def)

lemma put_put_get: "get (put t i v (put t i w s)) t' i' = get (put t i v s) t' i'"
  if "typeName t" "typeName t'"
  using that by (cases "(t', i') = (t, i)") (auto simp: get_put_same get_put_other)

lemma put_commute_get:
  assumes "typeName t" "typeName u" "typeName t'" "(t, i) \<noteq> (u, j)"
  shows "get (put t i v (put u j w s)) t' i' = get (put u j w (put t i v s)) t' i'"
  using assms
  by (cases "(t', i') = (t, i)"; cases "(t', i') = (u, j)") (auto simp: get_put_same get_put_other)

end

definition colonFree :: "string \<Rightarrow> bool" where
  "colonFree t \<longleftrightarrow> CHR '':'' \<notin> set t"

lemma entityKey_inj:
  "colonFree t \<Longrightarrow> colonFree t' \<Longrightarrow> entityKey t i = entityKey t' i' \<longleftrightarrow> t = t' \<and> i = i'"
proof (induction t arbitrary: t')
  case Nil
  then show ?case by (cases t') (auto simp: entityKey_def colonFree_def)
next
  case (Cons c t)
  then show ?case by (cases t') (auto simp: entityKey_def colonFree_def)
qed

interpretation entities: entity_store SetEntity GetByType "\<lambda>v. v" colonFree
  by unfold_locales (auto simp: SetEntity_def GetByType_def entityKey_inj split: option.splits)

section \<open>Listing\<close>

lemma listLoop_length:
  "1 \<le> limit \<Longrightarrow> int (length r) < limit \<Longrightarrow> int (length (listLoop p limit m r)) \<le> limit"
proof (induction p limit m r rule: listLoop.induct)
  case (2 pfx limit k v m result)
  then show ?case by (auto split: if_splits)
qed simp

lemma listLoop_sound:
  "x \<in> set (listLoop p limit m r) \<Longrightarrow>
   x \<in> set r \<or> (\<exists>k. (k, x) \<in> set m \<and> length k > length p \<and> take (length p) k = p)"
proof (induction p limit m r rule: listLoop.induct)
  case (2 pfx limit k v m result)
  then show ?case by (auto split: if_splits)
qed simp

lemma listLoop_complete:
  "int (length (listLoop p limit m r)) < limit \<Longrightarrow>
   listLoop p limit m r = r @ map snd (filter (\<lambda>(k, v). length k > length p \<and> take (length p) k = p) m)"
proof (induction p limit m r rule: listLoop.induct)
  case (2 pfx limit k v m result)
  then show ?case by (auto split: if_splits)
qed simp

lemma listLoop_prefix:
  "\<exists>rest. listLoop p limit m r @ rest =
     r @ map snd (filter (\<lambda>(k, v). length k > length p \<and> take (length p) k = p) m)"
proof (induction p limit m r rule: listLoop.induct)
  case (2 pfx limit k v m result)
  then show ?case by (auto split: if_splits)
qed simp

text \<open>The entity table, kept under one flat key per type and id, is a map from (type, id) to rows: after any
run of writes a read gives the last value written there, and what it was before when the run wrote none.
It holds for every type name without a colon, which is what the key is built with.\<close>

theorem entities_are_a_map:
  assumes "\<forall>(u, j, v) \<in> set ws. colonFree u" "colonFree t"
  shows "GetByType (foldl (\<lambda>s (u, j, v). SetEntity u j v s) s ws) t i =
    (case lastWrite ws t i of Some v \<Rightarrow> v | None \<Rightarrow> GetByType s t i)"
  using entities.putAll_reads[OF assms] by (simp add: entities.putAll_def)

theorem entities_are_a_map_witness:
  "GetByType (foldl (\<lambda>s (u, j, v). SetEntity u j v s) NewStore
     [(''Fill'', ''a'', VInt 1), (''Market'', ''a'', VInt 2), (''Fill'', ''a'', VInt 3)]) ''Fill'' ''a'' = VInt 3"
  using entities_are_a_map[of "[(''Fill'', ''a'', VInt 1), (''Market'', ''a'', VInt 2), (''Fill'', ''a'', VInt 3)]" "''Fill''"
      NewStore "''a''"] by (simp add: colonFree_def lastWrite_def)

text \<open>Listing a type returns rows of that type only, never more than a positive limit, and all of them in table
order when it returns fewer than the limit.\<close>

theorem listing_is_complete:
  assumes "1 \<le> limit"
  shows "\<exists>vs. ListByType s t limit = VList vs \<and> int (length vs) \<le> limit \<and>
    (\<exists>rest. vs @ rest = map snd (filter (\<lambda>(k, v). hasPrefix k (t @ '':'') \<and> k \<noteq> t @ '':'') (dbGeneric s))) \<and>
    (int (length vs) = limit \<or> vs = map snd (filter (\<lambda>(k, v). hasPrefix k (t @ '':'') \<and> k \<noteq> t @ '':'') (dbGeneric s)))"
proof -
  have p: "length k > length p \<and> take (length p) k = p \<longleftrightarrow> hasPrefix k p \<and> k \<noteq> p" for k p :: string
    by (auto simp: hasPrefix_def) (metis linorder_not_less take_all)
  let ?vs = "listLoop (t @ '':'') limit (dbGeneric s) []"
  have "int (length ?vs) \<le> limit" using listLoop_length[of limit "[]"] assms by simp
  moreover have "\<exists>rest. ?vs @ rest = map snd (filter (\<lambda>(k, v). hasPrefix k (t @ '':'') \<and> k \<noteq> t @ '':'') (dbGeneric s))"
    using listLoop_prefix[of "t @ '':''" limit "dbGeneric s" "[]"] unfolding p by simp
  moreover have "int (length ?vs) = limit \<or> ?vs = map snd (filter (\<lambda>(k, v). hasPrefix k (t @ '':'') \<and> k \<noteq> t @ '':'') (dbGeneric s))"
    using listLoop_complete[of "t @ '':''" limit "dbGeneric s" "[]"] calculation(1) unfolding p by fastforce
  ultimately show ?thesis by (simp add: ListByType_def)
qed

theorem listing_is_complete_witness:
  "\<exists>vs. ListByType (SetEntity ''Fill'' ''a'' (VInt 1) NewStore) ''Fill'' 5 = VList vs \<and> int (length vs) \<le> 5"
  using listing_is_complete[of 5 "SetEntity ''Fill'' ''a'' (VInt 1) NewStore" "''Fill''"] by fastforce

end
