(* ===== verification/Routing.thy ===== *)
theory Routing
  imports Abi Float64 Store "HOL-Library.Product_Lexorder"
    "HOL-Library.Multiset"
begin

text \<open>
  The routing graph of src/engine/quote.go: \<open>pool\<close>, the \<open>book\<close> built from the stored pools, and
  \<open>routes\<close>, the search over it.

  A pool is a Go pointer.  \<open>poolRef\<close> is its identity: the position at which \<open>book\<close> allocates it.
  The pools of the store arrive as the list of key and row in the order the map iteration visits
  them; Go leaves that order open, and the lemmas hold for every list.

  Strings compare bytewise, which is the lexicographic order of \<open>List_Lexorder\<close> and \<open>Char_ord\<close>.
\<close>

record pool =
  poolRef :: nat
  addr :: string
  t0 :: string
  t1 :: string
  fee :: int
  venue :: string

definition other :: "pool \<Rightarrow> string \<Rightarrow> string option" where
  "other p token = (if token = t0 p then Some (t1 p) else if token = t1 p then Some (t0 p) else None)"

definition bookEntry :: "nat \<Rightarrow> string \<times> seedPool option \<Rightarrow> pool option" where
  "bookEntry r row =
     (case row of
        (_, None) \<Rightarrow> None
      | (a, Some p) \<Rightarrow>
          if \<not> IsAddress a \<or> \<not> IsAddress (spToken0 p) \<or> \<not> IsAddress (spToken1 p) then None
          else (let u = toLower (spToken0 p); v = toLower (spToken1 p) in
                if u = v then None
                else Some \<lparr>poolRef = r, addr = toLower a, t0 = u, t1 = v, fee = spFeeTier p, venue = ''''\<rparr>))"

definition book :: "(string \<times> seedPool option) list \<Rightarrow> pool list" where
  "book raw = sort_key addr (List.map_filter (\<lambda>(i, row). bookEntry i row) (enumerate 0 raw))"

record leg =
  legPool :: pool
  legIn :: string
  legOut :: string
  amtIn :: "int option"
  amtOut :: "int option"
  legGas :: int
  sqrtP :: "int option"
  liq :: "int option"
  tick :: int
  r0 :: "int option"
  r1 :: "int option"
  marginal :: f64
  refIn :: "int option"

definition newLeg :: "pool \<Rightarrow> string \<Rightarrow> string \<Rightarrow> leg" where
  "newLeg p a b =
     \<lparr>legPool = p, legIn = a, legOut = b, amtIn = None, amtOut = None, legGas = 0,
      sqrtP = None, liq = None, tick = 0, r0 = None, r1 = None, marginal = Fin 0, refIn = None\<rparr>"

type_synonym route = "leg list"

record mid =
  midToken :: string
  midFirst :: pool
  midLast :: pool
  midDeg :: nat

definition maxRoutes :: nat where
  "maxRoutes = 24"

definition joins :: "string \<Rightarrow> string \<Rightarrow> pool \<Rightarrow> bool" where
  "joins a b p \<longleftrightarrow> (t0 p = a \<and> t1 p = b) \<or> (t0 p = b \<and> t1 p = a)"

definition byToken :: "pool list \<Rightarrow> string \<Rightarrow> pool list" where
  "byToken ps token =
     concat (map (\<lambda>p. (if t0 p = token then [p] else []) @ (if t1 p = token then [p] else [])) ps)"

definition midsVia :: "pool list \<Rightarrow> string \<Rightarrow> string \<Rightarrow> pool \<Rightarrow> mid list" where
  "midsVia ps a b first =
     (case other first a of
        None \<Rightarrow> []
      | Some m \<Rightarrow>
          if m = b \<or> m = a then []
          else List.map_filter
            (\<lambda>last. if poolRef last = poolRef first then None
                    else if other last m \<noteq> Some b then None
                    else Some \<lparr>midToken = m, midFirst = first, midLast = last,
                               midDeg = length (byToken ps m)\<rparr>)
            (byToken ps m))"

definition routes :: "pool list \<Rightarrow> string \<Rightarrow> string \<Rightarrow> route list" where
  "routes pools a b =
     (let direct = map (\<lambda>p. [newLeg p a b]) (filter (joins a b) pools);
          rest = filter (\<lambda>p. \<not> joins a b p) pools;
          mids = concat (map (midsVia rest a b) (byToken rest a));
          ranked = sort_key (\<lambda>m. (- int (midDeg m), addr (midFirst m))) mids;
          hops = map (\<lambda>m. [newLeg (midFirst m) a (midToken m), newLeg (midLast m) (midToken m) b]) ranked
      in take maxRoutes (direct @ hops))"

section \<open>The book\<close>

definition goodPool :: "pool \<Rightarrow> bool" where
  "goodPool p \<longleftrightarrow> IsAddress (addr p) \<and> IsAddress (t0 p) \<and> IsAddress (t1 p) \<and> t0 p \<noteq> t1 p
     \<and> toLower (addr p) = addr p \<and> toLower (t0 p) = t0 p \<and> toLower (t1 p) = t1 p"

lemma bookEntry_good: "bookEntry i row = Some p \<Longrightarrow> goodPool p \<and> poolRef p = i"
  by (auto simp: bookEntry_def goodPool_def Let_def IsAddress_toLower split: prod.splits option.splits if_splits)

lemma set_book: "set (book raw) = {p. \<exists>i < length raw. bookEntry i (raw ! i) = Some p}"
proof -
  have "p \<in> set (book raw) \<longleftrightarrow> (\<exists>i < length raw. bookEntry i (raw ! i) = Some p)" for p
    by (simp add: book_def in_map_filter Bex_def in_set_enumerate_eq split_paired_Ex)
  then show ?thesis by blast
qed

lemma book_good: "p \<in> set (book raw) \<Longrightarrow> goodPool p"
  by (auto simp: set_book dest: bookEntry_good)

lemma map_filter_distinct_refs:
  "distinct (map poolRef (List.map_filter (\<lambda>(i, row). bookEntry i row) (enumerate n raw)))
   \<and> (\<forall>p \<in> set (List.map_filter (\<lambda>(i, row). bookEntry i row) (enumerate n raw)). n \<le> poolRef p)"
proof (induction raw arbitrary: n)
  case Nil
  then show ?case by (simp add: List.map_filter_def)
next
  case (Cons row raw)
  from Cons[of "Suc n"] show ?case
    by (fastforce simp: List.map_filter_simps Suc_le_eq dest: bookEntry_good split: option.splits)
qed

lemma book_distinct_refs: "distinct (map poolRef (book raw))"
proof -
  have "mset (map poolRef (book raw)) =
    mset (map poolRef (List.map_filter (\<lambda>(i, row). bookEntry i row) (enumerate 0 raw)))"
    by (simp add: book_def)
  then show ?thesis using map_filter_distinct_refs[of 0 raw] by (metis mset_eq_imp_distinct_iff)
qed

lemma book_sorted: "sorted (map addr (book raw))"
  by (simp add: book_def)

section \<open>The routes\<close>

lemma other_Some: "other p a = Some b \<longleftrightarrow> (a = t0 p \<and> b = t1 p) \<or> (a \<noteq> t0 p \<and> a = t1 p \<and> b = t0 p)"
  by (auto simp: other_def)

lemma other_joins: "other p a = Some b \<Longrightarrow> joins a b p"
  by (auto simp: other_Some joins_def)

lemma joins_other: "joins a b p \<Longrightarrow> a \<noteq> b \<Longrightarrow> other p a = Some b"
  by (auto simp: other_Some joins_def)

lemma set_byToken: "set (byToken ps token) = {p \<in> set ps. t0 p = token \<or> t1 p = token}"
  by (auto simp: byToken_def split: if_splits)

text \<open>A route carries \<open>a\<close> to \<open>b\<close> when each leg crosses a pool of the book that holds its two
  tokens, and each leg starts where the one before it ended.\<close>

fun chained :: "pool set \<Rightarrow> string \<Rightarrow> string \<Rightarrow> route \<Rightarrow> bool" where
  "chained ps a b [] = False"
| "chained ps a b [l] = (legPool l \<in> ps \<and> joins a b (legPool l) \<and> legIn l = a \<and> legOut l = b)"
| "chained ps a b (l # ls) =
     (legPool l \<in> ps \<and> joins a (legOut l) (legPool l) \<and> legIn l = a \<and> chained ps (legOut l) b ls)"

definition twoHop :: "pool list \<Rightarrow> string \<Rightarrow> string \<Rightarrow> string \<Rightarrow> pool \<Rightarrow> pool \<Rightarrow> bool" where
  "twoHop ps a b m p q \<longleftrightarrow>
     p \<in> set ps \<and> q \<in> set ps \<and> poolRef p \<noteq> poolRef q \<and> m \<noteq> a \<and> m \<noteq> b \<and> joins a m p \<and> joins m b q"

lemma in_midsVia:
  "x \<in> set (midsVia ps a b p) \<longleftrightarrow>
   (\<exists>m. other p a = Some m \<and> m \<noteq> b \<and> m \<noteq> a \<and>
     (\<exists>q \<in> set (byToken ps m). poolRef q \<noteq> poolRef p \<and> other q m = Some b \<and>
        x = \<lparr>midToken = m, midFirst = p, midLast = q, midDeg = length (byToken ps m)\<rparr>))"
proof (cases "other p a")
  case (Some m)
  have e: "(if A then None else if B then None else Some X) = Some x \<longleftrightarrow> \<not> A \<and> \<not> B \<and> x = X"
    for A B and X :: mid by auto
  show ?thesis
  proof (cases "m = b \<or> m = a")
    case True
    then have "midsVia ps a b p = []" by (simp add: Some midsVia_def)
    with True show ?thesis by (auto simp: Some)
  next
    case False
    then show ?thesis by (auto simp: Some midsVia_def in_map_filter e)
  qed
qed (simp add: midsVia_def)

definition hopRoute :: "string \<Rightarrow> string \<Rightarrow> string \<Rightarrow> pool \<Rightarrow> pool \<Rightarrow> route" where
  "hopRoute a b m p q = [newLeg p a m, newLeg q m b]"

definition allRoutes :: "pool list \<Rightarrow> string \<Rightarrow> string \<Rightarrow> route list" where
  "allRoutes pools a b =
     (let direct = map (\<lambda>p. [newLeg p a b]) (filter (joins a b) pools);
          rest = filter (\<lambda>p. \<not> joins a b p) pools;
          mids = concat (map (midsVia rest a b) (byToken rest a));
          ranked = sort_key (\<lambda>m. (- int (midDeg m), addr (midFirst m))) mids;
          hops = map (\<lambda>m. [newLeg (midFirst m) a (midToken m), newLeg (midLast m) (midToken m) b]) ranked
      in direct @ hops)"

lemma routes_take: "routes pools a b = take maxRoutes (allRoutes pools a b)"
  by (simp add: routes_def allRoutes_def Let_def)

lemma set_allRoutes:
  assumes "a \<noteq> b"
  shows "set (allRoutes pools a b) =
    {[newLeg p a b] | p. p \<in> set pools \<and> joins a b p} \<union>
    {hopRoute a b m p q | m p q. twoHop pools a b m p q}"
proof -
  define rest where "rest = filter (\<lambda>p. \<not> joins a b p) pools"
  define mids where "mids = concat (map (midsVia rest a b) (byToken rest a))"
  have mids: "(\<exists>x \<in> set mids. midFirst x = p \<and> midLast x = q \<and> midToken x = m) \<longleftrightarrow> twoHop pools a b m p q"
    for p q m
  proof
    assume "\<exists>x \<in> set mids. midFirst x = p \<and> midLast x = q \<and> midToken x = m"
    then obtain x where x: "x \<in> set mids" "midFirst x = p" "midLast x = q" "midToken x = m" by blast
    then have "p \<in> set rest" "q \<in> set rest" "poolRef q \<noteq> poolRef p" "m \<noteq> a" "m \<noteq> b"
        "other p a = Some m" "other q m = Some b"
      by (auto simp: mids_def set_byToken in_midsVia)
    then show "twoHop pools a b m p q" by (auto simp: twoHop_def rest_def dest: other_joins)
  next
    assume h: "twoHop pools a b m p q"
    then have j: "joins a m p" "joins m b q" "m \<noteq> a" "m \<noteq> b" by (auto simp: twoHop_def)
    then have "\<not> joins a b p" "\<not> joins a b q" using assms by (auto simp: joins_def)
    then have "p \<in> set (byToken rest a)" "q \<in> set (byToken rest m)" "poolRef q \<noteq> poolRef p"
      using h j by (auto simp: twoHop_def set_byToken rest_def joins_def)
    moreover have "other p a = Some m" "other q m = Some b" using j by (auto intro!: joins_other)
    ultimately have "\<lparr>midToken = m, midFirst = p, midLast = q, midDeg = length (byToken rest m)\<rparr> \<in> set mids"
      using j by (auto simp: mids_def in_midsVia)
    then show "\<exists>x \<in> set mids. midFirst x = p \<and> midLast x = q \<and> midToken x = m" by force
  qed
  have "set (allRoutes pools a b) =
      (\<lambda>p. [newLeg p a b]) ` {p \<in> set pools. joins a b p} \<union>
      (\<lambda>m. hopRoute a b (midToken m) (midFirst m) (midLast m)) ` set mids"
    by (simp add: allRoutes_def Let_def hopRoute_def flip: rest_def mids_def)
  moreover have "(\<lambda>m. hopRoute a b (midToken m) (midFirst m) (midLast m)) ` set mids =
      {hopRoute a b m p q | m p q. twoHop pools a b m p q}" (is "?L = ?R")
  proof (intro equalityI subsetI)
    fix r assume "r \<in> ?L"
    then obtain x where "x \<in> set mids" "r = hopRoute a b (midToken x) (midFirst x) (midLast x)" by blast
    then show "r \<in> ?R" using mids[of "midFirst x" "midLast x" "midToken x"] by blast
  next
    fix r assume "r \<in> ?R"
    then obtain m p q where "twoHop pools a b m p q" "r = hopRoute a b m p q" by blast
    then show "r \<in> ?L" using mids[of p q m] by blast
  qed
  ultimately show ?thesis by (simp add: image_Collect)
qed

lemma allRoutes_chained:
  assumes "a \<noteq> b" "r \<in> set (allRoutes pools a b)"
  shows "chained (set pools) a b r"
  using assms by (auto simp: set_allRoutes hopRoute_def twoHop_def newLeg_def)

text \<open>C31: The candidates of a quote are exactly the routes of one or two pools that carry one token to the other,
cut at 24 with the direct ones first: each candidate is such a route, there are at most 24, none is lost
when there are fewer than 24, and a route over one pool is lost only to 24 others over one pool.\<close>

theorem routes_are_the_short_paths:
  assumes "a \<noteq> b"
  shows "set (routes pools a b) \<subseteq>
      {[newLeg p a b] | p. p \<in> set pools \<and> joins a b p} \<union> {hopRoute a b m p q | m p q. twoHop pools a b m p q} \<and>
    length (routes pools a b) \<le> 24 \<and>
    (length (routes pools a b) < 24 \<longrightarrow> set (routes pools a b) =
      {[newLeg p a b] | p. p \<in> set pools \<and> joins a b p} \<union> {hopRoute a b m p q | m p q. twoHop pools a b m p q}) \<and>
    take 24 (map (\<lambda>p. [newLeg p a b]) (filter (joins a b) pools)) =
      filter (\<lambda>r. length r = 1) (routes pools a b)"
proof (intro conjI impI)
  let ?all = "{[newLeg p a b] | p. p \<in> set pools \<and> joins a b p} \<union> {hopRoute a b m p q | m p q. twoHop pools a b m p q}"
  have all: "set (allRoutes pools a b) = ?all" by (rule set_allRoutes[OF assms])
  show "set (routes pools a b) \<subseteq> ?all" using all by (auto simp: routes_take dest: in_set_takeD)
  show "length (routes pools a b) \<le> 24" by (simp add: routes_take maxRoutes_def)
  show "set (routes pools a b) = ?all" if "length (routes pools a b) < 24"
    using that all by (simp add: routes_take maxRoutes_def)
  obtain hops where h: "allRoutes pools a b = map (\<lambda>p. [newLeg p a b]) (filter (joins a b) pools) @ hops"
      "\<forall>r \<in> set hops. length r = 2"
    by (auto simp: allRoutes_def Let_def)
  have "filter (\<lambda>r. length r = 1) (take n hops) = []" for n
    using h(2) by (auto simp: filter_empty_conv dest: in_set_takeD)
  moreover have "filter (\<lambda>r. length r = 1) (take n (map (\<lambda>p. [newLeg p a b]) ps)) = take n (map (\<lambda>p. [newLeg p a b]) ps)"
    for n and ps :: "pool list"
    by (auto simp: filter_id_conv take_map)
  ultimately show "take 24 (map (\<lambda>p. [newLeg p a b]) (filter (joins a b) pools)) =
      filter (\<lambda>r. length r = 1) (routes pools a b)"
    by (simp add: routes_take maxRoutes_def h(1))
qed

definition exPool :: "nat \<Rightarrow> string \<Rightarrow> string \<Rightarrow> string \<Rightarrow> pool" where
  "exPool r i a b = \<lparr>poolRef = r, addr = i, t0 = a, t1 = b, fee = 3000, venue = ''v2''\<rparr>"

theorem routes_are_the_short_paths_witness:
  "length (routes [exPool 0 ''p'' ''A'' ''B'', exPool 1 ''q'' ''A'' ''C'', exPool 2 ''r'' ''C'' ''B''] ''A'' ''B'') = 2 \<and>
   [newLeg (exPool 0 ''p'' ''A'' ''B'') ''A'' ''B'']
     \<in> set (routes [exPool 0 ''p'' ''A'' ''B'', exPool 1 ''q'' ''A'' ''C'', exPool 2 ''r'' ''C'' ''B''] ''A'' ''B'')"
proof -
  let ?ps = "[exPool 0 ''p'' ''A'' ''B'', exPool 1 ''q'' ''A'' ''C'', exPool 2 ''r'' ''C'' ''B'']"
  have l: "length (routes ?ps ''A'' ''B'') = 2" by code_simp
  have "joins ''A'' ''B'' (exPool 0 ''p'' ''A'' ''B'')" by (simp add: joins_def exPool_def)
  then show ?thesis using routes_are_the_short_paths[of "''A''" "''B''" ?ps] l by auto
qed

end
