(* ===== verification/Quoter.thy ===== *)
theory Quoter
  imports Routing Amm Node
begin

text \<open>
  Pricing of src/engine/quote.go: the venue cache (\<open>classify\<close>), the calls a leg asks
  (\<open>legCalls\<close>) and the reading of their answers (\<open>absorb\<close>), one pricing pass over all candidates
  (\<open>priceReady\<close>) and the choice of the winner (\<open>best\<close>).

  A conversation with the node is a parameter \<open>ask\<close>; \<open>best\<close> takes one for each of its three
  batches, since the chain may move between them.  An error from the node is None.  Legs are
  values: the code mutates the leg objects of a route in place, and no two routes share one.
\<close>

record quoter =
  qChainID :: int
  qQuoterV2 :: string
  qWrapped :: string
  qKeccak :: "string \<Rightarrow> string"

definition NewQuoter :: "int \<Rightarrow> string \<Rightarrow> string \<Rightarrow> (string \<Rightarrow> string) \<Rightarrow> quoter" where
  "NewQuoter chainID quoterV2 wrapped keccak =
     \<lparr>qChainID = chainID, qQuoterV2 = toLower (trimSpace quoterV2), qWrapped = toLower (trimSpace wrapped),
      qKeccak = keccak\<rparr>"

type_synonym venueCache = "string \<rightharpoonup> string"

definition selQuoteExactIn :: "quoter \<Rightarrow> string" where
  "selQuoteExactIn q =
     selector (qKeccak q) ''quoteExactInputSingle((address,address,uint256,uint24,uint160))''"

definition selQuoteExactOut :: "quoter \<Rightarrow> string" where
  "selQuoteExactOut q =
     selector (qKeccak q) ''quoteExactOutputSingle((address,address,uint256,uint24,uint160))''"

definition selGetReserves :: "quoter \<Rightarrow> string" where
  "selGetReserves q = selector (qKeccak q) ''getReserves()''"

definition selSlot0 :: "quoter \<Rightarrow> string" where
  "selSlot0 q = selector (qKeccak q) ''slot0()''"

definition selLiquidity :: "quoter \<Rightarrow> string" where
  "selLiquidity q = selector (qKeccak q) ''liquidity()''"

definition v2SwapGas :: int where
  "v2SwapGas = 104000"

section \<open>Venues\<close>

definition classifyCalls :: "quoter \<Rightarrow> pool list \<Rightarrow> ethCall list" where
  "classifyCalls q unknown =
     concat (map (\<lambda>p. [\<lparr>callTo = addr p, callData = selGetReserves q\<rparr>,
                       \<lparr>callTo = addr p, callData = selSlot0 q\<rparr>]) unknown)"

definition venueOf :: "string \<Rightarrow> string \<Rightarrow> string option" where
  "venueOf reserves slot0 =
     (if length reserves \<ge> 3 * wordHexLen then Some ''v2''
      else if length slot0 \<ge> 2 * wordHexLen then Some ''v3''
      else None)"

fun learn :: "string list \<Rightarrow> pool list \<Rightarrow> venueCache \<Rightarrow> venueCache" where
  "learn (reserves # slot0 # res) (p # ps) venues =
     learn res ps (case venueOf reserves slot0 of None \<Rightarrow> venues | Some v \<Rightarrow> venues(addr p \<mapsto> v))"
| "learn _ _ venues = venues"

fun assignVenues :: "venueCache \<Rightarrow> string list \<Rightarrow> pool list \<Rightarrow> pool list" where
  "assignVenues venues res [] = []"
| "assignVenues venues res (p # ps) =
     (case venues (addr p) of
        Some v \<Rightarrow> p\<lparr>venue := v\<rparr> # assignVenues venues res ps
      | None \<Rightarrow>
          (case res of
             reserves # slot0 # res' \<Rightarrow>
               (case venueOf reserves slot0 of None \<Rightarrow> p | Some v \<Rightarrow> p\<lparr>venue := v\<rparr>)
                 # assignVenues venues res' ps
           | _ \<Rightarrow> p # assignVenues venues res ps))"

definition unknownPools :: "venueCache \<Rightarrow> pool list \<Rightarrow> pool list" where
  "unknownPools venues pools = filter (\<lambda>p. venues (addr p) = None) pools"

definition classify ::
  "quoter \<Rightarrow> (ethCall list \<Rightarrow> string list option) \<Rightarrow> venueCache \<Rightarrow> pool list \<Rightarrow> (pool list \<times> venueCache) option" where
  "classify q ask venues pools =
     (let unknown = unknownPools venues pools in
      if unknown = [] then Some (assignVenues venues [] pools, venues)
      else case ask (classifyCalls q unknown) of
             None \<Rightarrow> None
           | Some res \<Rightarrow> Some (assignVenues venues res pools, learn res unknown venues))"

section \<open>Legs\<close>

definition legDone :: "leg \<Rightarrow> bool" where
  "legDone l \<longleftrightarrow> amtIn l \<noteq> None \<and> amtOut l \<noteq> None"

definition legReady :: "bool \<Rightarrow> leg \<Rightarrow> bool" where
  "legReady exactIn l \<longleftrightarrow>
     \<not> legDone l \<and> ((exactIn \<and> amtIn l \<noteq> None) \<or> (\<not> exactIn \<and> amtOut l \<noteq> None))"

definition quoteData :: "string \<Rightarrow> leg \<Rightarrow> int \<Rightarrow> string" where
  "quoteData sel l amount =
     sel @ addrWord (legIn l) @ addrWord (legOut l) @ numWord amount @ numWord (fee (legPool l)) @ numWord 0"

definition legCalls :: "quoter \<Rightarrow> bool \<Rightarrow> leg \<Rightarrow> ethCall list \<times> leg" where
  "legCalls q exactIn l =
     (if venue (legPool l) = ''v2'' then
        ([\<lparr>callTo = addr (legPool l), callData = selGetReserves q\<rparr>], l)
      else if qQuoterV2 q = '''' then ([], l)
      else case (if exactIn then amtIn l else amtOut l) of
             None \<Rightarrow> ([], l)
           | Some amount \<Rightarrow>
               (let sel = (if exactIn then selQuoteExactIn q else selQuoteExactOut q);
                    ref = marginalSize (amtIn l)
                in ([\<lparr>callTo = qQuoterV2 q, callData = quoteData sel l amount\<rparr>,
                     \<lparr>callTo = qQuoterV2 q, callData = quoteData (selQuoteExactIn q) l ref\<rparr>],
                    l\<lparr>refIn := Some ref\<rparr>)))"

definition ratio :: "int option \<Rightarrow> int option \<Rightarrow> f64" where
  "ratio num den =
     (case (num, den) of
        (Some n, Some d) \<Rightarrow> if d = 0 then Fin 0 else bigQuotient n d
      | _ \<Rightarrow> Fin 0)"

definition absorbV2 :: "bool \<Rightarrow> int list \<Rightarrow> leg \<Rightarrow> leg" where
  "absorbV2 exactIn w l =
     (if length w < 2 then l
      else
        let a = w ! 0; b = w ! 1;
            swapped = (legIn l = t1 (legPool l));
            rIn = (if swapped then b else a); rOut = (if swapped then a else b);
            l1 = l\<lparr>r0 := Some a, r1 := Some b\<rparr>;
            l2 = (if exactIn then l1\<lparr>amtOut := amountOut (amtIn l) rIn rOut (fee (legPool l))\<rparr>
                  else l1\<lparr>amtIn := amountIn (amtOut l) rIn rOut (fee (legPool l))\<rparr>)
        in if amtIn l2 = None \<or> amtOut l2 = None then l2
           else let ref = marginalSize (amtIn l2); l3 = l2\<lparr>legGas := v2SwapGas, refIn := Some ref\<rparr>
                in case amountOut (Some ref) rIn rOut (fee (legPool l)) of
                     None \<Rightarrow> l3
                   | Some m \<Rightarrow> l3\<lparr>marginal := ratio (Some m) (Some ref)\<rparr>)"

definition absorbV3 :: "bool \<Rightarrow> string list \<Rightarrow> leg \<Rightarrow> leg" where
  "absorbV3 exactIn res l =
     (let w = words (hd res) in
      if length w < 4 then l
      else
        let l1 = (if exactIn then l\<lparr>amtOut := Some (w ! 0)\<rparr> else l\<lparr>amtIn := Some (w ! 0)\<rparr>);
            l2 = l1\<lparr>legGas := bigInt64 (w ! 3)\<rparr>
        in if length res > 1 \<and> refIn l2 \<noteq> None then
             (case words (res ! 1) of
                [] \<Rightarrow> l2
              | m # _ \<Rightarrow> l2\<lparr>marginal := ratio (Some m) (refIn l2)\<rparr>)
           else l2)"

definition absorb :: "bool \<Rightarrow> string list \<Rightarrow> leg \<Rightarrow> leg" where
  "absorb exactIn res l =
     (if res = [] then l
      else if venue (legPool l) = ''v2'' then absorbV2 exactIn (words (hd res)) l
      else absorbV3 exactIn res l)"

section \<open>A pricing pass\<close>

fun absorbLegs :: "quoter \<Rightarrow> bool \<Rightarrow> string list \<Rightarrow> leg list \<Rightarrow> leg list \<times> string list" where
  "absorbLegs q exactIn res [] = ([], res)"
| "absorbLegs q exactIn res (l # ls) =
     (if legReady exactIn l then
        (case legCalls q exactIn l of
           (calls, l') \<Rightarrow>
             (case absorbLegs q exactIn (drop (length calls) res) ls of
                (ls', rest) \<Rightarrow> (absorb exactIn (take (length calls) res) l' # ls', rest)))
      else (case absorbLegs q exactIn res ls of (ls', rest) \<Rightarrow> (l # ls', rest)))"

fun absorbRoutes :: "quoter \<Rightarrow> bool \<Rightarrow> string list \<Rightarrow> route list \<Rightarrow> route list" where
  "absorbRoutes q exactIn res [] = []"
| "absorbRoutes q exactIn res (c # cs) =
     (case absorbLegs q exactIn res c of (c', rest) \<Rightarrow> c' # absorbRoutes q exactIn rest cs)"

definition feedNext :: "bool \<Rightarrow> leg \<Rightarrow> leg \<Rightarrow> leg" where
  "feedNext exactIn a b =
     (if exactIn \<and> amtIn b = None \<and> amtOut a \<noteq> None then b\<lparr>amtIn := amtOut a\<rparr> else b)"

definition feedPrev :: "bool \<Rightarrow> leg \<Rightarrow> leg \<Rightarrow> leg" where
  "feedPrev exactIn a b =
     (if \<not> exactIn \<and> amtOut a = None \<and> amtIn b \<noteq> None then a\<lparr>amtOut := amtIn b\<rparr> else a)"

fun feed :: "bool \<Rightarrow> route \<Rightarrow> route" where
  "feed exactIn (a # b # ls) = feedPrev exactIn a b # feed exactIn (feedNext exactIn a b # ls)"
| "feed exactIn ls = ls"

definition readyLegs :: "bool \<Rightarrow> route list \<Rightarrow> leg list" where
  "readyLegs exactIn candidates = filter (legReady exactIn) (concat candidates)"

definition priceReady ::
  "quoter \<Rightarrow> (ethCall list \<Rightarrow> string list option) \<Rightarrow> bool \<Rightarrow> route list \<Rightarrow> route list option" where
  "priceReady q ask exactIn candidates =
     (let ready = readyLegs exactIn candidates in
      if ready = [] then Some candidates
      else case ask (concat (map (\<lambda>l. fst (legCalls q exactIn l)) ready)) of
             None \<Rightarrow> None
           | Some res \<Rightarrow> Some (map (feed exactIn) (absorbRoutes q exactIn res candidates)))"

section \<open>The winner\<close>

definition routeAmountIn :: "route \<Rightarrow> int option" where
  "routeAmountIn r = amtIn (hd r)"

definition routeAmountOut :: "route \<Rightarrow> int option" where
  "routeAmountOut r = amtOut (last r)"

definition routeGas :: "route \<Rightarrow> int" where
  "routeGas r = foldl (\<lambda>g l. g + legGas l) 0 r"

definition positive :: "int option \<Rightarrow> bool" where
  "positive a = (case a of None \<Rightarrow> False | Some n \<Rightarrow> n > 0)"

definition priced :: "route \<Rightarrow> bool" where
  "priced r = list_all (\<lambda>l. positive (amtIn l) \<and> positive (amtOut l)) r"

definition seed :: "bool \<Rightarrow> int \<Rightarrow> route \<Rightarrow> route" where
  "seed exactIn amount c =
     (if c = [] then c
      else if exactIn then (hd c)\<lparr>amtIn := Some amount\<rparr> # tl c
      else butlast c @ [(last c)\<lparr>amtOut := Some amount\<rparr>])"

definition better :: "bool \<Rightarrow> route \<Rightarrow> route \<Rightarrow> bool" where
  "better exactIn c winner =
     (if exactIn then the (routeAmountOut c) > the (routeAmountOut winner)
      else the (routeAmountIn c) < the (routeAmountIn winner))"

definition chooseStep :: "bool \<Rightarrow> route option \<Rightarrow> route \<Rightarrow> route option" where
  "chooseStep exactIn winner c =
     (if \<not> priced c then winner
      else case winner of
             None \<Rightarrow> Some c
           | Some w \<Rightarrow> if better exactIn c w then Some c else winner)"

definition best ::
  "quoter \<Rightarrow> (ethCall list \<Rightarrow> string list option) \<Rightarrow> (ethCall list \<Rightarrow> string list option)
   \<Rightarrow> (ethCall list \<Rightarrow> string list option) \<Rightarrow> venueCache \<Rightarrow> (string \<times> seedPool option) list
   \<Rightarrow> string \<Rightarrow> string \<Rightarrow> int \<Rightarrow> string \<Rightarrow> route option \<times> venueCache" where
  "best q ask0 ask1 ask2 venues raw a b amount tradeType =
     (let pools = book raw; exactIn = (tradeType = ''EXACT_INPUT'') in
      if pools = [] then (None, venues)
      else case classify q ask0 venues pools of
             None \<Rightarrow> (None, venues)
           | Some (pools', venues') \<Rightarrow>
               (let candidates = routes pools' a b in
                if candidates = [] then (None, venues')
                else case priceReady q ask1 exactIn (map (seed exactIn amount) candidates) of
                       None \<Rightarrow> (None, venues')
                     | Some cs1 \<Rightarrow>
                         (case priceReady q ask2 exactIn cs1 of
                            None \<Rightarrow> (None, venues')
                          | Some cs2 \<Rightarrow> (foldl (chooseStep exactIn) None cs2, venues'))))"

section \<open>What a pass keeps\<close>

definition sameLeg :: "leg \<Rightarrow> leg \<Rightarrow> bool" where
  "sameLeg l l' \<longleftrightarrow> legPool l' = legPool l \<and> legIn l' = legIn l \<and> legOut l' = legOut l"

lemma sameLeg_refl [simp]: "sameLeg l l"
  by (simp add: sameLeg_def)

lemma sameLeg_trans: "sameLeg a b \<Longrightarrow> sameLeg b c \<Longrightarrow> sameLeg a c"
  by (simp add: sameLeg_def)

lemma legCalls_keeps [simp]:
  "sameLeg l (snd (legCalls q x l))" "amtIn (snd (legCalls q x l)) = amtIn l"
  "amtOut (snd (legCalls q x l)) = amtOut l" 
  by (auto simp: legCalls_def Let_def sameLeg_def split: option.splits)

lemma legPool_legCalls [simp]: "legPool (snd (legCalls q x l)) = legPool l"
  by (auto simp: legCalls_def Let_def split: option.splits)

lemma absorb_same: "sameLeg l (absorb x res l)"
  by (auto simp: absorb_def absorbV2_def absorbV3_def Let_def sameLeg_def split: option.splits list.splits)

lemma absorb_exactIn: "amtIn (absorb True res l) = amtIn l"
  by (auto simp: absorb_def absorbV2_def absorbV3_def Let_def split: option.splits list.splits)

lemma absorb_exactOut: "amtOut (absorb False res l) = amtOut l"
  by (auto simp: absorb_def absorbV2_def absorbV3_def Let_def split: option.splits list.splits)

text \<open>The fixed amount sits at the end of the route the caller named, and an amount known in
  the middle is known to both legs that meet there.\<close>

fun linked :: "bool \<Rightarrow> int \<Rightarrow> route \<Rightarrow> bool" where
  "linked x n [] = False"
| "linked x n [l] = (if x then True else amtOut l = Some n)"
| "linked x n (a # b # ls) =
     ((if x then (amtIn b \<noteq> None \<longrightarrow> amtOut a = amtIn b) else (amtOut a \<noteq> None \<longrightarrow> amtIn b = amtOut a))
      \<and> linked x n (b # ls))"

definition fixedIn :: "bool \<Rightarrow> int \<Rightarrow> route \<Rightarrow> bool" where
  "fixedIn x n r \<longleftrightarrow> r \<noteq> [] \<and> (x \<longrightarrow> amtIn (hd r) = Some n) \<and> linked x n r"

text \<open>How one leg may change in a pass: its place is kept, the amount the direction starts from
  is kept, and an amount already known is not touched.\<close>

definition stepLeg :: "bool \<Rightarrow> leg \<Rightarrow> leg \<Rightarrow> bool" where
  "stepLeg x l l' \<longleftrightarrow> sameLeg l l' \<and>
     (if x then amtIn l' = amtIn l \<and> (amtOut l \<noteq> None \<longrightarrow> amtOut l' = amtOut l)
      else amtOut l' = amtOut l \<and> (amtIn l \<noteq> None \<longrightarrow> amtIn l' = amtIn l))
     \<and> (legReady x l \<or> l' = l)"

lemma absorb_step:
  assumes "legReady x l"
  shows "stepLeg x l (absorb x res (snd (legCalls q x l)))"
proof -
  let ?m = "snd (legCalls q x l)"
  have "sameLeg l (absorb x res ?m)" using sameLeg_trans[OF legCalls_keeps(1) absorb_same] .
  moreover have "x \<Longrightarrow> amtIn (absorb x res ?m) = amtIn l \<and> amtOut l = None"
    using assms by (auto simp: absorb_exactIn legReady_def legDone_def)
  moreover have "\<not> x \<Longrightarrow> amtOut (absorb x res ?m) = amtOut l \<and> amtIn l = None"
    using assms by (auto simp: absorb_exactOut legReady_def legDone_def)
  ultimately show ?thesis using assms by (auto simp: stepLeg_def)
qed

lemma absorbLegs_step: "list_all2 (stepLeg x) ls (fst (absorbLegs q x res ls))"
proof (induction ls arbitrary: res)
  case (Cons l ls)
  show ?case
  proof (cases "legReady x l")
    case True
    obtain calls l' where c: "legCalls q x l = (calls, l')" by fastforce
    have "stepLeg x l (absorb x (take (length calls) res) l')"
      using absorb_step[OF True, of "take (length calls) res" q] c by simp
    then show ?thesis using Cons True c by (simp split: prod.splits) (metis fst_conv)
  next
    case False
    have "stepLeg x l l" by (auto simp: stepLeg_def)
    then show ?thesis using Cons False by (simp split: prod.splits) (metis fst_conv)
  qed
qed simp

lemma linked_step:
  "list_all2 (stepLeg x) r r' \<Longrightarrow> linked x n r \<Longrightarrow> linked x n r'"
proof (induction x n r arbitrary: r' rule: linked.induct)
  case (2 x n l)
  then show ?case by (auto simp: list_all2_Cons1 stepLeg_def)
next
  case (3 x n a b ls)
  obtain a' b' ls' where r': "r' = a' # b' # ls'" "stepLeg x a a'" "stepLeg x b b'"
      "list_all2 (stepLeg x) ls ls'"
    using 3(2) by (auto simp: list_all2_Cons1)
  have "linked x n (b' # ls')" using 3 r' by auto
  moreover have "if x then (amtIn b' \<noteq> None \<longrightarrow> amtOut a' = amtIn b') else (amtOut a' \<noteq> None \<longrightarrow> amtIn b' = amtOut a')"
    using 3(3) r' by (cases x) (auto simp: stepLeg_def)
  ultimately show ?case using r' by simp
qed simp

lemma list_all2_hd: "list_all2 P xs ys \<Longrightarrow> xs \<noteq> [] \<Longrightarrow> P (hd xs) (hd ys) \<and> ys \<noteq> []"
  by (cases xs) (auto simp: list_all2_Cons1)

lemma fixedIn_step: "list_all2 (stepLeg x) r r' \<Longrightarrow> fixedIn x n r \<Longrightarrow> fixedIn x n r'"
  using linked_step[of x r r' n] list_all2_hd[of "stepLeg x" r r']
  by (auto simp: fixedIn_def stepLeg_def)

lemma chained_step: "list_all2 sameLeg r r' \<Longrightarrow> chained ps a b r \<Longrightarrow> chained ps a b r'"
  by (induction ps a b r arbitrary: r' rule: chained.induct) (auto simp: list_all2_Cons1 sameLeg_def)

lemma stepLeg_same: "list_all2 (stepLeg x) r r' \<Longrightarrow> list_all2 sameLeg r r'"
  by (auto elim!: list_all2_mono simp: stepLeg_def)

lemma feedNext_same: "sameLeg b (feedNext x a b)" and feedPrev_same: "sameLeg a (feedPrev x a b)"
  by (simp_all add: feedNext_def feedPrev_def sameLeg_def)

lemma feed_same: "list_all2 sameLeg r (feed x r)"
proof (induction x r rule: feed.induct)
  case (1 x a b ls)
  obtain c cs where f: "feed x (feedNext x a b # ls) = c # cs" using 1 by (auto simp: list_all2_Cons1)
  then show ?case using 1 feedNext_same[of b x a] feedPrev_same[of a x b] by (auto intro: sameLeg_trans)
qed simp_all

lemma feed_hd: "r \<noteq> [] \<Longrightarrow> feed x r \<noteq> [] \<and> amtIn (hd (feed x r)) = amtIn (hd r)"
  by (cases "(x, r)" rule: feed.cases) (auto simp: feedPrev_def)

lemma linked_tail_amtIn: "linked x n (b # ls) \<Longrightarrow> linked x n (b\<lparr>amtIn := v\<rparr> # ls)"
  by (cases ls) auto

lemma feed_linked: "linked x n r \<Longrightarrow> linked x n (feed x r)"
proof (induction x r rule: feed.induct)
  case (1 x a b ls)
  let ?b = "feedNext x a b" and ?a = "feedPrev x a b"
  have "linked x n (?b # ls)"
    using 1(2) linked_tail_amtIn[of x n b ls] by (auto simp: feedNext_def)
  then have ih: "linked x n (feed x (?b # ls))" by (rule 1(1))
  obtain c cs where f: "feed x (?b # ls) = c # cs" "amtIn c = amtIn ?b"
    using feed_hd[of "?b # ls" x] by (cases "feed x (?b # ls)") auto
  have "if x then (amtIn ?b \<noteq> None \<longrightarrow> amtOut ?a = amtIn ?b) else (amtOut ?a \<noteq> None \<longrightarrow> amtIn ?b = amtOut ?a)"
    using 1(2) by (auto simp: feedNext_def feedPrev_def)
  then show ?case using ih f by (cases x) simp_all
qed simp_all

lemma feed_fixedIn: "fixedIn x n r \<Longrightarrow> fixedIn x n (feed x r)"
  using feed_hd[of r x] by (auto simp: fixedIn_def feed_linked)

section \<open>The whole search\<close>

lemma absorbRoutes_step: "list_all2 (list_all2 (stepLeg x)) cs (absorbRoutes q x res cs)"
proof (induction cs arbitrary: res)
  case (Cons c cs)
  obtain c' rest where c: "absorbLegs q x res c = (c', rest)" by fastforce
  then show ?case using Cons absorbLegs_step[of x c q res] by simp
qed simp

definition goodCandidate :: "bool \<Rightarrow> int \<Rightarrow> pool set \<Rightarrow> string \<Rightarrow> string \<Rightarrow> route \<Rightarrow> bool" where
  "goodCandidate x n ps a b r \<longleftrightarrow> chained ps a b r \<and> fixedIn x n r \<and> length r \<le> 2"

lemma goodCandidate_pass:
  assumes "list_all2 (stepLeg x) r r'" "goodCandidate x n ps a b r"
  shows "goodCandidate x n ps a b (feed x r')"
proof -
  have "list_all2 sameLeg r (feed x r')"
    using list_all2_trans[OF sameLeg_trans stepLeg_same[OF assms(1)] feed_same[of r' x]] .
  then show ?thesis
    using assms chained_step[of r "feed x r'" ps a b] feed_fixedIn[OF fixedIn_step[OF assms(1)]]
    by (auto simp: goodCandidate_def dest: list_all2_lengthD)
qed

lemma list_all2_transfer:
  "list_all2 P xs ys \<Longrightarrow> \<forall>x \<in> set xs. Q x \<Longrightarrow> (\<And>x y. P x y \<Longrightarrow> Q x \<Longrightarrow> R y) \<Longrightarrow> \<forall>y \<in> set ys. R y"
  by (induction rule: list_all2_induct) auto

lemma priceReady_good:
  assumes "priceReady q ask x cs = Some cs'" "\<forall>r \<in> set cs. goodCandidate x n ps a b r"
  shows "\<forall>r \<in> set cs'. goodCandidate x n ps a b r"
proof (cases "readyLegs x cs = []")
  case True
  then show ?thesis using assms by (simp add: priceReady_def)
next
  case False
  then obtain res where "cs' = map (feed x) (absorbRoutes q x res cs)"
    using assms(1) by (auto simp: priceReady_def Let_def split: option.splits)
  moreover have "\<forall>r' \<in> set (absorbRoutes q x res cs). goodCandidate x n ps a b (feed x r')"
    using absorbRoutes_step assms(2) goodCandidate_pass by (rule list_all2_transfer)
  ultimately show ?thesis by simp
qed

lemma seed_good:
  assumes "a \<noteq> b" "r \<in> set (routes ps a b)"
  shows "goodCandidate x n (set ps) a b (seed x n r)"
proof -
  have "r \<in> set (allRoutes ps a b)" using assms(2) by (auto simp: routes_take dest: in_set_takeD)
  then consider (one) p where "r = [newLeg p a b]" "p \<in> set ps" "joins a b p"
    | (two) m p p' where "r = hopRoute a b m p p'" "twoHop ps a b m p p'"
    by (auto simp: set_allRoutes[OF assms(1)])
  then show ?thesis
    by cases (auto simp: goodCandidate_def seed_def newLeg_def fixedIn_def hopRoute_def twoHop_def)
qed

lemma chooseStep_simps:
  "\<not> priced c \<Longrightarrow> chooseStep x w c = w"
  "priced c \<Longrightarrow> chooseStep x None c = Some c"
  "priced c \<Longrightarrow> chooseStep x (Some v) c = (if better x c v then Some c else Some v)"
  by (simp_all add: chooseStep_def)

lemma chooseStep_inv:
  assumes "foldl (chooseStep x) w cs = Some r"
  shows "(w = Some r \<or> (r \<in> set cs \<and> priced r))
    \<and> (\<forall>c \<in> set cs. priced c \<longrightarrow> \<not> better x c r)
    \<and> (\<forall>v. w = Some v \<longrightarrow> v = r \<or> better x r v)"
  using assms
proof (induction cs arbitrary: w)
  case (Cons c cs)
  have trans: "better x r v" if "better x r u" "better x u v" for u v
    using that by (auto simp: better_def split: if_splits)
  have nb: "\<not> better x c r" if "better x r c" using that by (auto simp: better_def split: if_splits)
  have irrefl: "\<not> better x u u" for u by (simp add: better_def)
  have neg: "\<not> better x c r" if "\<not> better x c v" "v = r \<or> better x r v" for v
    using that by (auto simp: better_def split: if_splits)
  note ih = Cons.IH[of "chooseStep x w c"]
  show ?case
  proof (cases "priced c")
    case False
    then show ?thesis using ih Cons.prems by (auto simp: chooseStep_simps)
  next
    case True
    show ?thesis
    proof (cases w)
      case None
      then show ?thesis using ih Cons.prems True nb irrefl by (auto simp: chooseStep_simps)
    next
      case (Some v)
      then show ?thesis using ih Cons.prems True nb irrefl trans neg
        by (cases "better x c v") (auto simp: chooseStep_simps)
    qed
  qed
qed (simp add: better_def)

lemma best_cases:
  assumes "best q ask0 ask1 ask2 venues raw a b amount ty = (Some r, venues')"
  obtains ps cs1 cs2 where "classify q ask0 venues (book raw) = Some (ps, venues')"
    "priceReady q ask1 (ty = ''EXACT_INPUT'') (map (seed (ty = ''EXACT_INPUT'') amount) (routes ps a b)) = Some cs1"
    "priceReady q ask2 (ty = ''EXACT_INPUT'') cs1 = Some cs2"
    "foldl (chooseStep (ty = ''EXACT_INPUT'')) None cs2 = Some r"
  using assms by (auto simp: best_def Let_def split: if_splits option.splits prod.splits)

lemma chooseStep_None: "foldl (chooseStep x) w cs = None \<Longrightarrow> w = None \<and> (\<forall>c \<in> set cs. \<not> priced c)"
proof (induction cs arbitrary: w)
  case (Cons c cs)
  have "chooseStep x w c = None \<and> (\<forall>c \<in> set cs. \<not> priced c)" using Cons by simp
  then show ?case by (auto simp: chooseStep_def split: if_splits option.splits)
qed simp

text \<open>The candidates after the two pricing passes.\<close>

definition pricedCandidates ::
  "quoter \<Rightarrow> (ethCall list \<Rightarrow> string list option) \<Rightarrow> (ethCall list \<Rightarrow> string list option) \<Rightarrow> bool \<Rightarrow> int
   \<Rightarrow> route list \<Rightarrow> route list option" where
  "pricedCandidates q ask1 ask2 x n cs =
     Option.bind (priceReady q ask1 x (map (seed x n) cs)) (priceReady q ask2 x)"

lemma pricedCandidates_good:
  assumes "pricedCandidates q ask1 ask2 x n (routes ps a b) = Some cs" "a \<noteq> b"
  shows "\<forall>r \<in> set cs. goodCandidate x n (set ps) a b r"
proof -
  obtain cs1 where h: "priceReady q ask1 x (map (seed x n) (routes ps a b)) = Some cs1"
    "priceReady q ask2 x cs1 = Some cs"
    using assms(1) by (auto simp: pricedCandidates_def bind_eq_Some_conv)
  have "\<forall>r \<in> set (map (seed x n) (routes ps a b)). goodCandidate x n (set ps) a b r"
    using seed_good[OF assms(2)] by auto
  then show ?thesis using priceReady_good[OF h(2) priceReady_good[OF h(1)]] by blast
qed

text \<open>C11: A quote is sound and optimal among what was priced: the route crosses pools of the book only, starts at
the input token and ends at the output token over at most two pools, keeps the amount the caller fixed, has
a positive amount on every leg with each leg fed by the one before it, and no candidate priced in the same
passes pays more (for an exact input) or costs less (for an exact output).\<close>

theorem best_route_is_sound_and_optimal:
  assumes "best q ask0 ask1 ask2 venues raw a b amount ty = (Some r, venues')" "a \<noteq> b"
  shows "\<exists>ps cs. classify q ask0 venues (book raw) = Some (ps, venues') \<and>
    pricedCandidates q ask1 ask2 (ty = ''EXACT_INPUT'') amount (routes ps a b) = Some cs \<and>
    r \<in> set cs \<and> priced r \<and> chained (set ps) a b r \<and> length r \<le> 2 \<and>
    fixedIn (ty = ''EXACT_INPUT'') amount r \<and>
    (\<forall>c \<in> set cs. priced c \<longrightarrow> \<not> better (ty = ''EXACT_INPUT'') c r)"
proof -
  let ?x = "ty = ''EXACT_INPUT''"
  obtain ps cs1 cs2 where h: "classify q ask0 venues (book raw) = Some (ps, venues')"
    "priceReady q ask1 ?x (map (seed ?x amount) (routes ps a b)) = Some cs1"
    "priceReady q ask2 ?x cs1 = Some cs2" "foldl (chooseStep ?x) None cs2 = Some r"
    using best_cases[OF assms(1)] .
  have p: "pricedCandidates q ask1 ask2 ?x amount (routes ps a b) = Some cs2"
    using h(2,3) by (simp add: pricedCandidates_def)
  have c: "r \<in> set cs2 \<and> priced r \<and> (\<forall>c \<in> set cs2. priced c \<longrightarrow> \<not> better ?x c r)"
    using chooseStep_inv[OF h(4)] by simp
  then have "goodCandidate ?x amount (set ps) a b r" using pricedCandidates_good[OF p assms(2)] by blast
  then show ?thesis using h(1) p c unfolding goodCandidate_def by blast
qed

text \<open>There is no quote only for a reason: when the node answered every batch, the quoter finds no route only if
the book has none between the tokens or no candidate came back with a positive amount on every leg.\<close>

theorem no_route_without_reason:
  assumes "best q ask0 ask1 ask2 venues raw a b amount ty = (None, venues')"
    "classify q ask0 venues (book raw) = Some (ps, venues')" "a \<noteq> b"
    "pricedCandidates q ask1 ask2 (ty = ''EXACT_INPUT'') amount (routes ps a b) = Some cs"
  shows "routes ps a b = [] \<or> (\<forall>c \<in> set cs. \<not> priced c)"
proof (rule disjCI)
  let ?x = "ty = ''EXACT_INPUT''"
  assume n: "\<not> (\<forall>c \<in> set cs. \<not> priced c)"
  obtain cs1 where h: "priceReady q ask1 ?x (map (seed ?x amount) (routes ps a b)) = Some cs1"
    "priceReady q ask2 ?x cs1 = Some cs"
    using assms(4) by (auto simp: pricedCandidates_def bind_eq_Some_conv)
  have "book raw \<noteq> [] \<or> routes ps a b = []"
    using assms(2) by (auto simp: classify_def unknownPools_def routes_def byToken_def Let_def)
  moreover have "foldl (chooseStep ?x) None cs \<noteq> None" using chooseStep_None n by blast
  ultimately show "routes ps a b = []"
    using assms(1,2) h by (auto simp: best_def Let_def split: if_splits)
qed

lemma assignVenues_same:
  "map addr (assignVenues venues res ps) = map addr ps
   \<and> map t0 (assignVenues venues res ps) = map t0 ps \<and> map t1 (assignVenues venues res ps) = map t1 ps
   \<and> map fee (assignVenues venues res ps) = map fee ps
   \<and> map poolRef (assignVenues venues res ps) = map poolRef ps"
  by (induction venues res ps rule: assignVenues.induct) (auto split: option.splits list.splits)

lemma classify_same:
  assumes "classify q ask venues ps = Some (ps', venues')"
  shows "map addr ps' = map addr ps" "map t0 ps' = map t0 ps" "map t1 ps' = map t1 ps"
    "map poolRef ps' = map poolRef ps" "map fee ps' = map fee ps"
  using assms by (auto simp: classify_def Let_def assignVenues_same split: if_splits option.splits)

section \<open>One pool, one trade\<close>

definition exAddress :: "char \<Rightarrow> string" where
  "exAddress c = ''0x'' @ replicate 40 c"

definition exBook :: "(string \<times> seedPool option) list" where
  "exBook = [(exAddress (CHR ''1''), Some
     \<lparr>spToken0 = exAddress (CHR ''a''), spToken1 = exAddress (CHR ''b''), spFeeTier = 3000,
      spTotalValueLockedUSD = ''0'', spVolumeUSD = ''0'', spToken0Price = ''0'', spToken1Price = ''0'', spTxCount = 0\<rparr>)]"

definition exQuoter :: quoter where
  "exQuoter = NewQuoter 1 (exAddress (CHR ''9'')) '''' (\<lambda>_. replicate 32 (CHR ''k''))"

definition exQuoted :: "int \<Rightarrow> string" where
  "exQuoted n = ''0x'' @ numWord n @ numWord 0 @ numWord 0 @ numWord 90000"

definition exAsk :: "int \<Rightarrow> ethCall list \<Rightarrow> string list option" where
  "exAsk n calls = Some [exQuoted n, '''']"

definition exSlot0 :: "ethCall list \<Rightarrow> string list option" where
  "exSlot0 calls = Some ['''', exQuoted 0]"

definition exBest :: "int \<Rightarrow> route option \<times> venueCache" where
  "exBest n = best exQuoter exSlot0 (exAsk n) (exAsk n) (\<lambda>_. None) exBook
     (exAddress (CHR ''a'')) (exAddress (CHR ''b'')) 1000 ''EXACT_INPUT''"

theorem best_route_is_sound_and_optimal_witness:
  "\<exists>r v. exBest 1813 = (Some r, v) \<and> routeAmountOut r = Some 1813 \<and> priced r \<and> length r \<le> 2"
proof -
  have o: "map_option routeAmountOut (fst (exBest 1813)) = Some (Some 1813)" by code_simp
  then obtain r where r: "fst (exBest 1813) = Some r" "routeAmountOut r = Some 1813" by auto
  then have b: "exBest 1813 = (Some r, snd (exBest 1813))" by (simp add: prod_eq_iff)
  have "exAddress (CHR ''a'') \<noteq> exAddress (CHR ''b'')" by code_simp
  from best_route_is_sound_and_optimal[OF b[unfolded exBest_def] this] show ?thesis using b r(2) by blast
qed

theorem no_route_without_reason_witness:
  "Option.is_none (fst (exBest 0)) \<and> (\<exists>cs. pricedCandidates exQuoter (exAsk 0) (exAsk 0) True 1000
     (routes (fst (the (classify exQuoter exSlot0 (\<lambda>_. None) (book exBook)))) (exAddress (CHR ''a'')) (exAddress (CHR ''b''))) = Some cs
     \<and> (\<forall>c \<in> set cs. \<not> priced c))"
proof -
  let ?cl = "classify exQuoter exSlot0 (\<lambda>_. None) (book exBook)"
  let ?rs = "routes (fst (the ?cl)) (exAddress (CHR ''a'')) (exAddress (CHR ''b''))"
  let ?pc = "pricedCandidates exQuoter (exAsk 0) (exAsk 0) (''EXACT_INPUT'' = ''EXACT_INPUT'') 1000 ?rs"
  have n: "Option.is_none (fst (exBest 0))" by code_simp
  have c: "\<not> Option.is_none ?cl" by code_simp
  have v: "\<not> Option.is_none ?pc" by code_simp
  have rs: "?rs \<noteq> []" by code_simp
  have ne: "exAddress (CHR ''a'') \<noteq> exAddress (CHR ''b'')" by code_simp
  from c have cl: "?cl = Some (fst (the ?cl), snd (the ?cl))" by (simp add: Option.is_none_def option.the_def split: option.splits)
  have bk: "book exBook \<noteq> []" by code_simp
  from cl have "snd (exBest 0) = snd (the ?cl)"
    using n bk by (auto simp: exBest_def best_def Let_def split: option.splits if_splits)
  then have b: "exBest 0 = (None, snd (the ?cl))" using n by (simp add: prod_eq_iff Option.is_none_def)
  from v obtain cs where p: "?pc = Some cs" by (auto simp: Option.is_none_def)
  from no_route_without_reason[OF b[unfolded exBest_def] cl ne p] rs n p show ?thesis by auto
qed

end
