(* ===== verification/SwapCall.thy ===== *)
theory SwapCall
  imports Abi Float64
begin

text \<open>
  Transactions: the router call of src/engine/swap.go (\<open>HandleSwap\<close>) and the approval of
  src/engine/approval.go (\<open>HandleCheckApproval\<close>).

  A handler is a function from the decoded request to an \<open>httpReply\<close>: the 400 with its detail,
  the 500, or the 200 with its body.  Decoding the JSON body, the request id and the response
  writer are outside the model; a Go panic is the reply \<open>Panic\<close>.
\<close>

datatype 'a httpReply =
    BadRequest string
  | NotFound
  | InternalError
  | OK 'a
  | Panic

section \<open>Amounts\<close>

text \<open>\<open>int64(math.Round(x))\<close>; outside the range of int64 the conversion is the machine's, and
  amd64 answers the least int64.\<close>

definition floatToInt64 :: "f64 \<Rightarrow> int" where
  "floatToInt64 x =
     (case x of
        Fin r \<Rightarrow> if - (2 ^ 63) \<le> roundAway r \<and> roundAway r < 2 ^ 63 then roundAway r else - (2 ^ 63)
      | _ \<Rightarrow> - (2 ^ 63))"

definition bps :: "f64 \<Rightarrow> int" where
  "bps pct = floatToInt64 (fmul pct (Fin 100))"

definition div10k :: "int \<Rightarrow> int \<Rightarrow> int" where
  "div10k amount factor = amount * factor div 10000"

definition downBound :: "int \<Rightarrow> f64 \<Rightarrow> int" where
  "downBound amount pct =
     (let f = 10000 - bps pct in div10k amount (if f < 0 then 0 else f))"

definition upBound :: "int \<Rightarrow> f64 \<Rightarrow> int" where
  "upBound amount pct =
     (let n = div10k amount (10000 + bps pct) in if n > maxWord then maxWord else n)"

definition clampPct :: "f64 \<Rightarrow> f64" where
  "clampPct p =
     (if isNaN p then FNaN
      else let a = (if fless (Fin 0) p then p else Fin 0) in if fless a (Fin 100) then a else Fin 100)"

section \<open>Paths\<close>

fun encodePath :: "string list \<Rightarrow> int list \<Rightarrow> string" where
  "encodePath [] fees = ''''"
| "encodePath (t # ts) [] = toLower (trimPrefix t ''0x'') @ encodePath ts []"
| "encodePath (t # ts) (f # fees) =
     toLower (trimPrefix t ''0x'') @ hexPadded 6 f @ encodePath ts fees"

definition pathCall :: "string \<Rightarrow> string \<Rightarrow> int \<Rightarrow> int \<Rightarrow> string" where
  "pathCall path recipient amount limit =
     (let bytes = length path div 2;
          pad = (wordHexLen - length path mod wordHexLen) mod wordHexLen
      in numWord 32 @ numWord 128 @ addrWord recipient @ numWord amount @ numWord limit
         @ numWord (int bytes) @ path @ replicate pad (CHR ''0''))"

text \<open>The reader of a packed path: 20 bytes of address, 3 of fee, 20 of address, and so on.\<close>

fun decodePath :: "nat \<Rightarrow> string \<Rightarrow> (string list \<times> int list) option" where
  "decodePath 0 s = None"
| "decodePath (Suc 0) s = (if length s = 40 then Some ([''0x'' @ s], []) else None)"
| "decodePath (Suc n) s =
     (if length s < 46 then None
      else case decodePath n (drop 46 s) of
             None \<Rightarrow> None
           | Some (ts, fs) \<Rightarrow>
               Some ((''0x'' @ take 40 s) # ts, fst (setString 16 (take 6 (drop 40 s))) # fs))"

section \<open>The swap call\<close>

record hop =
  hopType :: string
  hopTokenIn :: string
  hopTokenOut :: string
  hopFee :: string

record swapQuote =
  sqChainID :: int
  sqSwapper :: string
  sqInputToken :: string
  sqInputAmount :: string
  sqOutputToken :: string
  sqOutputAmount :: string
  sqTradeType :: string
  sqSlippage :: "f64 option"
  sqRoute :: "hop list list"
  sqGasUseEstimate :: string

record swapCallJSON =
  scTo :: string
  scFrom :: string
  scData :: string
  scValue :: string
  scChainID :: int
  scGasLimit :: string

text \<open>\<open>strconv.ParseInt(s, 10, 64)\<close>: a sign, decimal digits, in range.\<close>

definition parseInt64 :: "string \<Rightarrow> int option" where
  "parseInt64 s =
     (case setString 10 s of (n, ok) \<Rightarrow> if ok \<and> - (2 ^ 63) \<le> n \<and> n < 2 ^ 63 then Some n else None)"

definition hopError :: "nat \<Rightarrow> hop \<Rightarrow> string option" where
  "hopError i h =
     (if hopType h \<noteq> '''' \<and> hopType h \<noteq> ''v3-pool'' then
        Some (''quote.route hop '' @ natText 10 i @ '' is a '' @ hopType h
              @ ''; this endpoint builds v3-pool routes'')
      else if \<not> IsAddress (hopTokenIn h) \<or> \<not> IsAddress (hopTokenOut h)
              \<or> (case parseInt64 (hopFee h) of None \<Rightarrow> True | Some f \<Rightarrow> f < 0 \<or> f > 2 ^ 24 - 1) then
        Some (''quote.route hop '' @ natText 10 i @ '' is missing tokenIn/tokenOut/fee'')
      else None)"

fun readHops :: "string \<Rightarrow> nat \<Rightarrow> hop list \<Rightarrow> string list \<Rightarrow> int list \<Rightarrow> string + (string list \<times> int list)" where
  "readHops wrapped i [] tokens fees = Inr (tokens, fees)"
| "readHops wrapped i (h # hs) tokens fees =
     (case hopError i h of
        Some e \<Rightarrow> Inl e
      | None \<Rightarrow>
          readHops wrapped (Suc i) hs
            ((if i = 0 then tokens @ [wrap (hopTokenIn h) wrapped] else tokens)
               @ [wrap (hopTokenOut h) wrapped])
            (fees @ [the (parseInt64 (hopFee h))]))"

definition swapData ::
  "(string \<Rightarrow> string) \<Rightarrow> bool \<Rightarrow> string list \<Rightarrow> int list \<Rightarrow> string \<Rightarrow> int \<Rightarrow> int \<Rightarrow> f64 \<Rightarrow> string" where
  "swapData keccak exactIn tokens fees swapper amountIn amountOut slippage =
     (if exactIn \<and> length fees = 1 then
        selector keccak ''exactInputSingle((address,address,uint24,address,uint256,uint256,uint160))''
          @ addrWord (tokens ! 0) @ addrWord (tokens ! 1) @ numWord (fees ! 0) @ addrWord swapper
          @ numWord amountIn @ numWord (downBound amountOut slippage) @ numWord 0
      else if exactIn then
        selector keccak ''exactInput((bytes,address,uint256,uint256))''
          @ pathCall (encodePath tokens fees) swapper amountIn (downBound amountOut slippage)
      else if length fees = 1 then
        selector keccak ''exactOutputSingle((address,address,uint24,address,uint256,uint256,uint160))''
          @ addrWord (tokens ! 0) @ addrWord (tokens ! 1) @ numWord (fees ! 0) @ addrWord swapper
          @ numWord amountOut @ numWord (upBound amountIn slippage) @ numWord 0
      else
        selector keccak ''exactOutput((bytes,address,uint256,uint256))''
          @ pathCall (encodePath (rev tokens) (rev fees)) swapper amountOut (upBound amountIn slippage))"

definition quoteSlippage :: "swapQuote \<Rightarrow> f64" where
  "quoteSlippage q = (case sqSlippage q of None \<Rightarrow> Fin (1 / 2) | Some p \<Rightarrow> clampPct p)"

definition HandleSwap ::
  "(string \<Rightarrow> string) \<Rightarrow> int \<Rightarrow> string \<Rightarrow> string \<Rightarrow> swapQuote \<Rightarrow> swapCallJSON httpReply" where
  "HandleSwap keccak chainID router wrapped0 q =
     (let wrapped = toLower (trimSpace wrapped0) in
      if sqRoute q = [] \<or> hd (sqRoute q) = [] then BadRequest ''quote.route must contain at least one hop''
      else if \<not> IsAddress (sqSwapper q) then BadRequest ''quote.swapper must be an address''
      else case checksumAddress keccak (sqSwapper q) of
        None \<Rightarrow> Panic
      | Some swapper \<Rightarrow>
      if sqChainID q \<noteq> 0 \<and> sqChainID q \<noteq> chainID then
        BadRequest (''quote is for chain '' @ intText 10 (sqChainID q) @ '', this one serves '' @ intText 10 chainID)
      else case (parseWei (sqInputAmount q), parseWei (sqOutputAmount q)) of
        (Some amountIn, Some amountOut) \<Rightarrow>
          if amountIn \<le> 0 \<or> amountOut \<le> 0 then BadRequest ''quote input/output amounts must be > 0''
          else
            (let hops = hd (sqRoute q) in
             case readHops wrapped 0 hops [] [] of
               Inl e \<Rightarrow> BadRequest e
             | Inr (tokens, fees) \<Rightarrow>
                 (let slippage = quoteSlippage q;
                      exactIn = (sqTradeType q \<noteq> ''EXACT_OUTPUT'');
                      inTok = (if sqInputToken q = '''' then hopTokenIn (hd hops) else sqInputToken q)
                  in case checksumAddress keccak router of
                       None \<Rightarrow> Panic
                     | Some to' \<Rightarrow>
                         OK \<lparr>scTo = to', scFrom = swapper,
                             scData = swapData keccak exactIn tokens fees swapper amountIn amountOut slippage,
                             scValue = (if isNativeAddr inTok then intText 10 amountIn else ''0''),
                             scChainID = chainID, scGasLimit = sqGasUseEstimate q\<rparr>))
      | _ \<Rightarrow> BadRequest ''quote input/output amounts must be > 0'')"

section \<open>The approval\<close>

record approvalRequest =
  arWallet :: string
  arToken :: string
  arAmount :: string
  arChainID :: "int option"

record approvalTx =
  atTo :: string
  atFrom :: string
  atData :: string
  atValue :: string
  atChainID :: int

definition unlimited :: int where
  "unlimited = maxWord"

definition HandleCheckApproval ::
  "(string \<Rightarrow> string) \<Rightarrow> (string \<times> string \<Rightarrow> string option) \<Rightarrow> int \<Rightarrow> string \<Rightarrow> approvalRequest
   \<Rightarrow> approvalTx option httpReply" where
  "HandleCheckApproval keccak ask chainID router req =
     (if \<not> IsAddress (arWallet req) then BadRequest ''walletAddress must be an address''
      else if arToken req = '''' then BadRequest ''token is required''
      else case parseWei (arAmount req) of
        None \<Rightarrow> BadRequest ''amount must be a decimal wei string''
      | Some amount \<Rightarrow>
      if (case arChainID req of None \<Rightarrow> False | Some c \<Rightarrow> c \<noteq> chainID) then
        BadRequest (''unsupported chainId '' @ intText 10 (the (arChainID req)))
      else case checksumAddress keccak (arWallet req) of
        None \<Rightarrow> Panic
      | Some wallet \<Rightarrow>
      if isNativeAddr (arToken req) then OK None
      else if \<not> IsAddress (arToken req) then BadRequest ''token must be an address''
      else case checksumAddress keccak (arToken req) of
        None \<Rightarrow> Panic
      | Some token \<Rightarrow>
      (case ask (token, selector keccak ''allowance(address,address)'' @ addrWord wallet @ addrWord router) of
         None \<Rightarrow> InternalError
       | Some res \<Rightarrow>
           (let allowance = (case words res of [] \<Rightarrow> 0 | a # _ \<Rightarrow> a) in
            if allowance \<ge> amount then OK None
            else OK (Some \<lparr>atTo = token, atFrom = wallet,
                           atData = selector keccak ''approve(address,uint256)'' @ addrWord router @ numWord unlimited,
                           atValue = ''0'', atChainID = chainID\<rparr>))))"

section \<open>Slippage stays a bound\<close>

lemma roundAway_near: "0 \<le> r \<Longrightarrow> r < of_int n + 1 / 2 \<Longrightarrow> roundAway r \<le> n \<and> 0 \<le> roundAway r"
proof -
  assume a: "0 \<le> r" "r < of_int n + 1 / 2"
  then have "r + 1 / 2 < of_int (n + 1)" by simp
  then have "\<lfloor>r + 1 / 2\<rfloor> < n + 1" by (simp only: floor_less_iff)
  moreover have "0 \<le> \<lfloor>r + 1 / 2\<rfloor>" using a(1) by simp
  ultimately show ?thesis using a by (simp add: roundAway_def)
qed

lemma bps_range:
  assumes "0 \<le> p" "p \<le> 100"
  shows "0 \<le> bps (Fin p) \<and> bps (Fin p) \<le> 10000"
proof -
  have x: "0 \<le> p * 100" "p * 100 \<le> 2 ^ 20" using assms by simp_all
  obtain r where r: "toF64 (p * 100) = Fin r" "0 \<le> r" "\<bar>r - p * 100\<bar> \<le> 1 / 2 ^ 32"
    using toF64_small[OF x] .
  have "r - p * 100 \<le> 1 / 2 ^ 32" using r(3) abs_ge_self[of "r - p * 100"] by (rule order.trans[rotated])
  moreover have "(1 :: rat) / 2 ^ 32 < 1 / 2" by simp
  moreover have "p * 100 \<le> 10000" using assms by simp
  ultimately have "r < 10000 + 1 / 2" by linarith
  then have "roundAway r \<le> 10000 \<and> 0 \<le> roundAway r" using roundAway_near[of r 10000] r(2) by simp
  then show ?thesis using r(1) by (simp add: bps_def floatToInt64_def)
qed

lemma clampPct_Fin: "\<not> isNaN p \<Longrightarrow> \<exists>r. clampPct p = Fin r \<and> 0 \<le> r \<and> r \<le> 100"
  by (cases p) (auto simp: clampPct_def Let_def)

lemma downBound_range:
  assumes "0 \<le> amount" "0 \<le> p" "p \<le> 100"
  shows "0 \<le> downBound amount (Fin p) \<and> downBound amount (Fin p) \<le> amount"
proof -
  define f where "f = 10000 - bps (Fin p)"
  have f: "0 \<le> f" "f \<le> 10000" using bps_range[OF assms(2,3)] by (simp_all add: f_def)
  have "amount * f div 10000 \<le> amount * 10000 div 10000"
    using f assms(1) by (intro zdiv_mono1 mult_left_mono) auto
  moreover have "0 \<le> amount * f div 10000" using f assms(1) by (simp add: pos_imp_zdiv_nonneg_iff)
  ultimately show ?thesis using f(1) by (simp add: downBound_def div10k_def Let_def flip: f_def)
qed

lemma upBound_range:
  assumes "0 \<le> amount" "amount \<le> maxWord" "0 \<le> p" "p \<le> 100"
  shows "amount \<le> upBound amount (Fin p) \<and> upBound amount (Fin p) \<le> maxWord"
proof -
  define f where "f = 10000 + bps (Fin p)"
  have f: "10000 \<le> f" using bps_range[OF assms(3,4)] by (simp add: f_def)
  have "amount * 10000 div 10000 \<le> amount * f div 10000"
    using f assms(1) by (intro zdiv_mono1 mult_left_mono) auto
  then show ?thesis using assms(2) by (simp add: upBound_def div10k_def Let_def flip: f_def)
qed

section \<open>Paths read back\<close>

lemma hexPadded_nonneg:
  "0 \<le> n \<Longrightarrow> hexPadded w n = replicate (w - length (natText 16 (nat n))) (CHR ''0'') @ natText 16 (nat n)"
  by (simp add: hexPadded_def Let_def)

lemma setString_hexPadded: "0 \<le> n \<Longrightarrow> setString 16 (hexPadded w n) = (n, True)"
  by (simp add: hexPadded_nonneg setString_padded)

lemma length_hexPadded6: "0 \<le> n \<Longrightarrow> n < 2 ^ 24 \<Longrightarrow> length (hexPadded 6 n) = 6"
  using natText_length_le[of 16 "nat n" 5] by (simp add: hexPadded_nonneg nat_less_iff)

lemma address_digits:
  assumes "IsAddress t"
  shows "length (trimPrefix t ''0x'') = 40" "''0x'' @ toLower (trimPrefix t ''0x'') = toLower t"
  using assms by (auto elim!: IsAddress_cases simp: lower_0x)

lemma length_encodePath:
  "\<forall>t \<in> set ts. IsAddress t \<Longrightarrow> \<forall>f \<in> set fs. 0 \<le> f \<and> f < 2 ^ 24 \<Longrightarrow> length ts = Suc (length fs) \<Longrightarrow>
   length (encodePath ts fs) = 40 + 46 * length fs"
proof (induction ts fs rule: encodePath.induct)
  case (2 t ts)
  then show ?case by (simp add: address_digits)
next
  case (3 t ts f fees)
  then show ?case by (simp add: address_digits length_hexPadded6)
qed simp

lemma decode_encodePath:
  "\<forall>t \<in> set ts. IsAddress t \<Longrightarrow> \<forall>f \<in> set fs. 0 \<le> f \<and> f < 2 ^ 24 \<Longrightarrow> length ts = Suc (length fs) \<Longrightarrow>
   decodePath (length ts) (encodePath ts fs) = Some (map toLower ts, fs)"
proof (induction ts fs rule: encodePath.induct)
  case (2 t ts)
  then show ?case using address_digits[of t] by simp
next
  case (3 t ts f fees)
  obtain n where n: "length ts = Suc n" using 3(4) by auto
  let ?a = "toLower (trimPrefix t ''0x'')" and ?f = "hexPadded 6 f" and ?r = "encodePath ts fees"
  have a: "length ?a = 40" "''0x'' @ ?a = toLower t" using 3(2) address_digits[of t] by simp_all
  have f: "length ?f = 6" "setString 16 ?f = (f, True)" using 3(3) length_hexPadded6 setString_hexPadded by auto
  have r: "decodePath (Suc n) ?r = Some (map toLower ts, fees)" using 3 n by simp
  have e: "encodePath (t # ts) (f # fees) = ?a @ ?f @ ?r" by simp
  have l: "\<not> length (?a @ ?f @ ?r) < 46" using a f by simp
  have d: "drop 46 (?a @ ?f @ ?r) = ?r" "take 40 (?a @ ?f @ ?r) = ?a"
      "take 6 (drop 40 (?a @ ?f @ ?r)) = ?f" using a f by simp_all
  show ?case unfolding e using n r f a(2) l d by (simp del: append_assoc length_append)
qed simp

section \<open>Word alignment of the call data\<close>

lemma length_pathCall:
  assumes "IsAddress rcpt" "0 \<le> amount" "amount \<le> maxWord" "0 \<le> limit" "limit \<le> maxWord"
    "int (length path) \<le> maxWord"
  shows "64 dvd length (pathCall path rcpt amount limit)"
    "length (pathCall path rcpt amount limit) \<ge> 64 * 6 + length path"
proof -
  have nb: "length (numWord (int (length path div 2))) = 64"
    using assms(6) by (intro length_numWord) auto
  have w: "length (numWord 32) = 64" "length (numWord 128) = 64"
    by (intro length_numWord; simp add: maxWord_def)+
  let ?pad = "(64 - length path mod 64) mod 64"
  have "64 dvd length path + ?pad"
  proof (cases "length path mod 64 = 0")
    case False
    then have "?pad = 64 - length path mod 64" by simp
    moreover have "length path + (64 - length path mod 64) = (length path div 64 + 1) * 64"
      by presburger
    ultimately show ?thesis by simp
  qed auto
  moreover have "length (pathCall path rcpt amount limit) = 64 * 6 + (length path + ?pad)"
    using assms nb w by (simp add: pathCall_def wordHexLen_def Let_def length_addrWord length_numWord)
  ultimately show "64 dvd length (pathCall path rcpt amount limit)"
    "length (pathCall path rcpt amount limit) \<ge> 64 * 6 + length path"
    by (auto intro: dvd_add)
qed

section \<open>Reading the call back\<close>

definition addrValue :: "string \<Rightarrow> int" where
  "addrValue a = fst (setString 16 (addrWord a))"

lemma hexChar_digit: "isHexChar c \<Longrightarrow> \<exists>d < 16. digitVal c = Some d"
  by (auto simp: isHexChar_byte digitVal_def Let_def)

lemma scanDigits_hex: "list_all isHexChar s \<Longrightarrow> \<exists>v. scanDigits 16 acc s = (v, [])"
proof (induction s arbitrary: acc)
  case (Cons c cs)
  then obtain d where "d < 16" "digitVal c = Some d" using hexChar_digit by auto
  then show ?case using Cons by simp
qed simp

lemma hexChar_not_sign: "isHexChar c \<Longrightarrow> c \<noteq> CHR ''-'' \<and> c \<noteq> CHR ''+''"
  by (auto simp: isHexChar_def)

lemma setString_hex: "list_all isHexChar s \<Longrightarrow> s \<noteq> [] \<Longrightarrow> \<exists>v. setString 16 s = (int v, True)"
proof -
  assume a: "list_all isHexChar s" "s \<noteq> []"
  then obtain c cs where s: "s = c # cs" by (cases s) auto
  obtain v where "scanDigits 16 0 s = (v, [])" using scanDigits_hex[OF a(1)] by blast
  then show ?thesis using hexChar_not_sign[of c] a s
    by (auto simp: setString_def Let_def simp del: scanDigits.simps)
qed

lemma addrWord_reads: "IsAddress a \<Longrightarrow> setString 16 (addrWord a) = (addrValue a, True)"
proof -
  assume a: "IsAddress a"
  have "isHexChar (CHR ''0'')" by (simp add: isHexChar_def)
  then have "list_all isHexChar (addrWord a)" "addrWord a \<noteq> []"
    using a by (auto elim!: IsAddress_cases simp: addrWord_def toLower_def list_all_iff hexChar_lower)
  then show ?thesis using setString_hex[of "addrWord a"] by (auto simp: addrValue_def)
qed

lemma wordsFrom_block:
  "length b = 64 \<Longrightarrow> setString 16 b = (n, True) \<Longrightarrow> wordsFrom (b @ r) = n # wordsFrom r"
  by (subst wordsFrom.simps) (simp add: wordHexLen_def)

lemma wordsFrom_addr: "IsAddress a \<Longrightarrow> wordsFrom (addrWord a @ r) = addrValue a # wordsFrom r"
  by (intro wordsFrom_block) (simp_all add: length_addrWord addrWord_reads)

lemma wordsFrom_num: "0 \<le> n \<Longrightarrow> n \<le> maxWord \<Longrightarrow> wordsFrom (numWord n @ r) = n # wordsFrom r"
  by (intro wordsFrom_block length_numWord) (simp_all add: numWord_encode)

lemma length_selector:
  assumes "\<And>s. length (keccak s) = 32"
  shows "length (selector keccak sig) = 10"
proof -
  have l: "length (hexPadded 2 (int (byteOf b))) = 2" for b
    using natText_length_le[of 16 "byteOf b" 1] byteOf_less[of b] by (simp add: hexPadded_nonneg)
  have "length (concat (map (\<lambda>b. hexPadded 2 (int (byteOf b))) bs)) = 2 * length bs" for bs
    by (induction bs) (simp_all add: l)
  then show ?thesis by (simp add: selector_def assms)
qed

lemma wrap_address: "IsAddress a \<Longrightarrow> IsAddress (wrap a w) \<or> wrap a w = w"
  by (simp add: wrap_def IsAddress_toLower)

lemma readHops_Inr:
  assumes "readHops w i hs ts0 fs0 = Inr (ts, fs)" "IsAddress w"
    "\<forall>t \<in> set ts0. IsAddress t" "\<forall>f \<in> set fs0. 0 \<le> f \<and> f < 2 ^ 24"
    "length fs0 = i" "length ts0 = (if i = 0 then 0 else Suc i)"
  shows "(\<forall>t \<in> set ts. IsAddress t) \<and> (\<forall>f \<in> set fs. 0 \<le> f \<and> f < 2 ^ 24)
    \<and> length fs = i + length hs \<and> length ts = (if i + length hs = 0 then 0 else Suc (length fs))"
  using assms
proof (induction w i hs ts0 fs0 rule: readHops.induct)
  case (2 w i h hs ts0 fs0)
  have e: "hopError i h = None" using 2(2) by (auto split: option.splits)
  then have a: "IsAddress (hopTokenIn h)" "IsAddress (hopTokenOut h)"
      "0 \<le> the (parseInt64 (hopFee h)) \<and> the (parseInt64 (hopFee h)) < 2 ^ 24"
    by (auto simp: hopError_def split: if_splits option.splits)
  let ?ts = "(if i = 0 then ts0 @ [wrap (hopTokenIn h) w] else ts0) @ [wrap (hopTokenOut h) w]"
  let ?fs = "fs0 @ [the (parseInt64 (hopFee h))]"
  have "IsAddress (wrap (hopTokenIn h) w)" "IsAddress (wrap (hopTokenOut h) w)"
    using wrap_address[OF a(1), of w] wrap_address[OF a(2), of w] 2(3) by auto
  then have b1: "\<forall>t \<in> set ?ts. IsAddress t" using 2(4) by simp
  have b2: "\<forall>f \<in> set ?fs. 0 \<le> f \<and> f < 2 ^ 24" using 2(5) a(3) by simp
  have b3: "length ?fs = Suc i" using 2(6) by simp
  have b4: "length ?ts = (if Suc i = 0 then 0 else Suc (Suc i))" using 2(7) by simp
  have "readHops w (Suc i) hs ?ts ?fs = Inr (ts, fs)" using 2(2) e by simp
  from 2(1)[OF e this 2(3) b1 b2 b3 b4] show ?case by simp
qed simp

text \<open>What an accepted quote turned into: the parsed amounts, the tokens and fees of its hops, and
  the slippage as a percentage in range.\<close>

lemma HandleSwap_OK:
  assumes "HandleSwap keccak chainID router wrapped q = OK c" "\<forall>p. sqSlippage q = Some p \<longrightarrow> \<not> isNaN p"
  obtains ain aout ts fs p where
    "parseWei (sqInputAmount q) = Some ain" "parseWei (sqOutputAmount q) = Some aout" "0 < ain" "0 < aout"
    "readHops (toLower (trimSpace wrapped)) 0 (hd (sqRoute q)) [] [] = Inr (ts, fs)" "hd (sqRoute q) \<noteq> []"
    "0 \<le> p" "p \<le> 100" "IsAddress (sqSwapper q)" "checksumAddress keccak (sqSwapper q) = Some (scFrom c)"
    "sqChainID q = 0 \<or> sqChainID q = chainID" "scChainID c = chainID" "sqRoute q \<noteq> []"
    "scData c = swapData keccak (sqTradeType q \<noteq> ''EXACT_OUTPUT'') ts fs (scFrom c) ain aout (Fin p)"
proof -
  obtain p where p: "quoteSlippage q = Fin p" "0 \<le> p" "p \<le> 100"
  proof (cases "sqSlippage q")
    case None
    then show ?thesis using that[of "1 / 2"] by (simp add: quoteSlippage_def)
  next
    case (Some x)
    then show ?thesis using that clampPct_Fin[of x] assms(2) by (auto simp: quoteSlippage_def)
  qed
  obtain sw where sw: "checksumAddress keccak (sqSwapper q) = Some sw" "sqRoute q \<noteq> []" "hd (sqRoute q) \<noteq> []"
      "IsAddress (sqSwapper q)" "sqChainID q = 0 \<or> sqChainID q = chainID"
    using assms(1) by (auto simp: HandleSwap_def Let_def split: if_splits option.splits)
  obtain ain aout where am: "parseWei (sqInputAmount q) = Some ain" "parseWei (sqOutputAmount q) = Some aout"
      "0 < ain" "0 < aout"
    using assms(1) sw by (auto simp: HandleSwap_def Let_def split: if_splits option.splits)
  obtain ts fs where h: "readHops (toLower (trimSpace wrapped)) 0 (hd (sqRoute q)) [] [] = Inr (ts, fs)"
    using assms(1) sw am by (auto simp: HandleSwap_def Let_def split: if_splits sum.splits)
  have "scFrom c = sw \<and> scChainID c = chainID
      \<and> scData c = swapData keccak (sqTradeType q \<noteq> ''EXACT_OUTPUT'') ts fs sw ain aout (Fin p)"
    using assms(1) sw am h p(1) by (auto simp: HandleSwap_def Let_def split: if_splits option.splits)
  then show ?thesis using that sw am h p by simp
qed

lemma swapData_single:
  assumes "\<And>s. length (keccak s) = 32" "IsAddress t" "IsAddress u" "0 \<le> f" "f < 2 ^ 24" "IsAddress s"
    "0 < ain" "ain \<le> maxWord" "0 < aout" "aout \<le> maxWord" "0 \<le> p" "p \<le> 100"
  shows "words (''0x'' @ drop 10 (swapData keccak True [t, u] [f] s ain aout (Fin p))) =
      [addrValue t, addrValue u, f, addrValue s, ain, downBound aout (Fin p), 0]"
    and "words (''0x'' @ drop 10 (swapData keccak False [t, u] [f] s ain aout (Fin p))) =
      [addrValue t, addrValue u, f, addrValue s, aout, upBound ain (Fin p), 0]"
proof -
  have m: "0 \<le> maxWord" "f \<le> maxWord" using assms(5) by (simp_all add: maxWord_def)
  have d: "0 \<le> downBound aout (Fin p)" "downBound aout (Fin p) \<le> maxWord"
    using downBound_range[of aout p] assms by auto
  have u: "0 \<le> upBound ain (Fin p)" "upBound ain (Fin p) \<le> maxWord"
    using upBound_range[of ain p] assms by auto
  have z: "wordsFrom (numWord 0) = [0]" using wordsFrom_num[of 0 "[]"] m by simp
  note simps = words_def swapData_def length_selector[OF assms(1)] wordsFrom_addr wordsFrom_num z
  show "words (''0x'' @ drop 10 (swapData keccak True [t, u] [f] s ain aout (Fin p))) =
      [addrValue t, addrValue u, f, addrValue s, ain, downBound aout (Fin p), 0]"
    using assms m d by (simp add: simps)
  show "words (''0x'' @ drop 10 (swapData keccak False [t, u] [f] s ain aout (Fin p))) =
      [addrValue t, addrValue u, f, addrValue s, aout, upBound ain (Fin p), 0]"
    using assms m u by (simp add: simps)
qed

section \<open>The call of a whole quote\<close>

text \<open>The tokens and fees the hops of a quote name.\<close>

definition hopTokens :: "string \<Rightarrow> hop list \<Rightarrow> string list" where
  "hopTokens w hs = wrap (hopTokenIn (hd hs)) w # map (\<lambda>h. wrap (hopTokenOut h) w) hs"

definition hopFees :: "hop list \<Rightarrow> int list" where
  "hopFees hs = map (\<lambda>h. the (parseInt64 (hopFee h))) hs"

lemma readHops_rest:
  "readHops w (Suc i) hs ts0 fs0 = Inr (ts, fs) \<Longrightarrow>
   ts = ts0 @ map (\<lambda>h. wrap (hopTokenOut h) w) hs \<and> fs = fs0 @ hopFees hs"
proof (induction hs arbitrary: i ts0 fs0)
  case (Cons h hs)
  then have "readHops w (Suc (Suc i)) hs (ts0 @ [wrap (hopTokenOut h) w]) (fs0 @ [the (parseInt64 (hopFee h))]) = Inr (ts, fs)"
    by (auto split: option.splits)
  from Cons.IH[OF this] show ?case by (simp add: hopFees_def)
qed (simp add: hopFees_def)

lemma readHops_hops: "readHops w 0 hs [] [] = Inr (ts, fs) \<Longrightarrow> hs \<noteq> [] \<Longrightarrow> ts = hopTokens w hs \<and> fs = hopFees hs"
  by (cases hs) (auto simp: hopTokens_def hopFees_def split: option.splits dest!: readHops_rest)

text \<open>The amount the call fixes, and the bound it sets on the other side.\<close>

definition boundFor :: "bool \<Rightarrow> int \<Rightarrow> int \<Rightarrow> int \<Rightarrow> bool" where
  "boundFor exactIn ain aout limit \<longleftrightarrow>
     (if exactIn then 0 \<le> limit \<and> limit \<le> aout else ain \<le> limit \<and> limit \<le> maxWord)"

lemma maxWord_nonneg: "0 \<le> maxWord" "2 ^ 24 \<le> maxWord"
  by (simp_all add: maxWord_def)

lemma limits_ok:
  assumes "0 < ain" "ain \<le> maxWord" "0 < aout" "aout \<le> maxWord" "0 \<le> p" "p \<le> 100"
  shows "boundFor True ain aout (downBound aout (Fin p))" "boundFor False ain aout (upBound ain (Fin p))"
  using downBound_range[of aout p] upBound_range[of ain p] assms by (simp_all add: boundFor_def)

lemma accepted_facts:
  assumes "HandleSwap keccak chainID router wrapped q = OK c" "\<forall>p. sqSlippage q = Some p \<longrightarrow> \<not> isNaN p"
    "\<forall>t. length (keccak t) = 32" "IsAddress (toLower (trimSpace wrapped))"
  obtains ain aout p where
    "parseWei (sqInputAmount q) = Some ain" "parseWei (sqOutputAmount q) = Some aout" "0 < ain" "0 < aout"
    "ain \<le> maxWord" "aout \<le> maxWord" "0 \<le> p" "p \<le> 100" "IsAddress (scFrom c)" "hd (sqRoute q) \<noteq> []"
    "toLower (scFrom c) = toLower (sqSwapper q)"
    "\<forall>t \<in> set (hopTokens (toLower (trimSpace wrapped)) (hd (sqRoute q))). IsAddress t"
    "\<forall>f \<in> set (hopFees (hd (sqRoute q))). 0 \<le> f \<and> f < 2 ^ 24"
    "scData c = swapData keccak (sqTradeType q \<noteq> ''EXACT_OUTPUT'')
       (hopTokens (toLower (trimSpace wrapped)) (hd (sqRoute q))) (hopFees (hd (sqRoute q))) (scFrom c) ain aout (Fin p)"
proof -
  obtain ain aout ts fs p where h:
    "parseWei (sqInputAmount q) = Some ain" "parseWei (sqOutputAmount q) = Some aout" "0 < ain" "0 < aout"
    "readHops (toLower (trimSpace wrapped)) 0 (hd (sqRoute q)) [] [] = Inr (ts, fs)" "hd (sqRoute q) \<noteq> []"
    "0 \<le> p" "p \<le> 100" "IsAddress (sqSwapper q)" "checksumAddress keccak (sqSwapper q) = Some (scFrom c)"
    "scData c = swapData keccak (sqTradeType q \<noteq> ''EXACT_OUTPUT'') ts fs (scFrom c) ain aout (Fin p)"
    using HandleSwap_OK[OF assms(1,2)] by metis
  have t: "ts = hopTokens (toLower (trimSpace wrapped)) (hd (sqRoute q))" "fs = hopFees (hd (sqRoute q))"
    using readHops_hops[OF h(5,6)] by simp_all
  have g: "(\<forall>t \<in> set ts. IsAddress t) \<and> (\<forall>f \<in> set fs. 0 \<le> f \<and> f < 2 ^ 24)"
    using readHops_Inr[OF h(5) assms(4)] by simp
  have sw: "IsAddress (scFrom c)" "toLower (scFrom c) = toLower (sqSwapper q)"
    using checksumAddress_Some[of "sqSwapper q" keccak] h(9,10) assms(3) by auto
  have mx: "ain \<le> maxWord" "aout \<le> maxWord" using parseWei_range h(1,2) by auto
  show ?thesis by (rule that[OF h(1-4) mx h(7,8) sw(1) h(6) sw(2)]) (use g t h(11) in simp_all)
qed


lemma pathCall_reads:
  assumes "IsAddress rcpt" "0 \<le> amount" "amount \<le> maxWord" "0 \<le> limit" "limit \<le> maxWord"
    "int (length path) \<le> maxWord"
  shows "wordsFrom (take 384 (pathCall path rcpt amount limit)) =
      [32, 128, addrValue rcpt, amount, limit, int (length path div 2)]"
    "\<exists>k. drop 384 (pathCall path rcpt amount limit) = path @ replicate k (CHR ''0'')"
proof -
  let ?b = "int (length path div 2)" and ?z = "(wordHexLen - length path mod wordHexLen) mod wordHexLen"
  have b: "0 \<le> ?b" "?b \<le> maxWord" using assms(6) by simp_all
  have c: "0 \<le> (32 :: int)" "(32 :: int) \<le> maxWord" "0 \<le> (128 :: int)" "(128 :: int) \<le> maxWord"
    by (simp_all add: maxWord_def)
  let ?h = "numWord 32 @ numWord 128 @ addrWord rcpt @ numWord amount @ numWord limit @ numWord ?b"
  have e: "pathCall path rcpt amount limit = ?h @ path @ replicate ?z (CHR ''0'')"
    by (simp add: pathCall_def Let_def)
  have l: "length ?h = 384" using assms b c by (simp add: length_numWord length_addrWord)
  have "wordsFrom (?h @ []) = [32, 128, addrValue rcpt, amount, limit, ?b]"
    using assms(1-5) b c by (simp add: wordsFrom_num wordsFrom_addr wordsFrom_short del: append_Nil2)
  then show "wordsFrom (take 384 (pathCall path rcpt amount limit)) = [32, 128, addrValue rcpt, amount, limit, ?b]"
    using l e by simp
  show "\<exists>k. drop 384 (pathCall path rcpt amount limit) = path @ replicate k (CHR ''0'')" using l e by auto
qed

lemma path_reads:
  assumes "\<forall>t \<in> set ts. IsAddress t" "\<forall>f \<in> set fs. 0 \<le> f \<and> f < 2 ^ 24" "length ts = Suc (length fs)"
    "length fs < 2 ^ 64" "IsAddress rcpt" "0 \<le> amount" "amount \<le> maxWord" "0 \<le> limit" "limit \<le> maxWord"
  shows "64 dvd length (pathCall (encodePath ts fs) rcpt amount limit) \<and>
    wordsFrom (take 384 (pathCall (encodePath ts fs) rcpt amount limit)) =
      [32, 128, addrValue rcpt, amount, limit, 20 + 23 * int (length fs)] \<and>
    decodePath (length ts) (take (40 + 46 * length fs) (drop 384 (pathCall (encodePath ts fs) rcpt amount limit))) =
      Some (map toLower ts, fs)"
proof -
  have n: "length (encodePath ts fs) = 40 + 46 * length fs" using assms(1-3) by (rule length_encodePath)
  have "40 + 46 * int (length fs) \<le> 40 + 46 * 2 ^ 64" using assms(4) by simp
  then have m: "int (length (encodePath ts fs)) \<le> maxWord" using n by (simp add: maxWord_def)
  have "(40 + 46 * length fs) div 2 = 20 + 23 * length fs" by simp
  then have h: "int (length (encodePath ts fs) div 2) = 20 + 23 * int (length fs)" using n by simp
  obtain k where k: "drop 384 (pathCall (encodePath ts fs) rcpt amount limit) = encodePath ts fs @ replicate k (CHR ''0'')"
    using pathCall_reads(2)[OF assms(5-9) m] by blast
  show ?thesis
    using pathCall_reads(1)[OF assms(5-9) m] length_pathCall(1)[OF assms(5-9) m] decode_encodePath[OF assms(1-3)] h k n
    by simp
qed

text \<open>C13: The call built for an accepted quote over several pools names the whole route: the head words are the
recipient, the fixed amount, the bound and the path's length in bytes, the packed path decodes to the tokens and
fees of the hops in order (reversed for an exact output, which the router walks backwards), and the call data is
a whole number of words.\<close>

theorem many_pool_call_reads_back:
  assumes "HandleSwap keccak chainID router wrapped q = OK c" "\<forall>p. sqSlippage q = Some p \<longrightarrow> \<not> isNaN p"
    "\<forall>t. length (keccak t) = 32" "IsAddress (toLower (trimSpace wrapped))"
    "1 < length (hd (sqRoute q))" "length (hd (sqRoute q)) < 2 ^ 64"
  shows "\<exists>ain aout limit ts fs. parseWei (sqInputAmount q) = Some ain \<and> parseWei (sqOutputAmount q) = Some aout \<and>
    ts = hopTokens (toLower (trimSpace wrapped)) (hd (sqRoute q)) \<and> fs = hopFees (hd (sqRoute q)) \<and>
    boundFor (sqTradeType q \<noteq> ''EXACT_OUTPUT'') ain aout limit \<and> 64 dvd length (drop 10 (scData c)) \<and>
    wordsFrom (take 384 (drop 10 (scData c))) = [32, 128, addrValue (scFrom c),
      (if sqTradeType q \<noteq> ''EXACT_OUTPUT'' then ain else aout), limit, 20 + 23 * int (length fs)] \<and>
    decodePath (length ts) (take (40 + 46 * length fs) (drop 394 (scData c))) =
      Some (if sqTradeType q \<noteq> ''EXACT_OUTPUT'' then (map toLower ts, fs) else (map toLower (rev ts), rev fs))"
proof -
  let ?w = "toLower (trimSpace wrapped)" and ?x = "sqTradeType q \<noteq> ''EXACT_OUTPUT''"
  obtain ain aout p where a: "parseWei (sqInputAmount q) = Some ain" "parseWei (sqOutputAmount q) = Some aout"
    "0 < ain" "0 < aout" "ain \<le> maxWord" "aout \<le> maxWord" "0 \<le> p" "p \<le> 100" "IsAddress (scFrom c)"
    "\<forall>t \<in> set (hopTokens ?w (hd (sqRoute q))). IsAddress t"
    "\<forall>f \<in> set (hopFees (hd (sqRoute q))). 0 \<le> f \<and> f < 2 ^ 24"
    "scData c = swapData keccak ?x (hopTokens ?w (hd (sqRoute q))) (hopFees (hd (sqRoute q))) (scFrom c) ain aout (Fin p)"
    using accepted_facts[OF assms(1-4)] by metis
  define ts where "ts = hopTokens ?w (hd (sqRoute q))"
  define fs where "fs = hopFees (hd (sqRoute q))"
  have n: "length ts = Suc (length fs)" "length fs = length (hd (sqRoute q))" "length fs \<noteq> 1"
    using assms(5) by (simp_all add: ts_def fs_def hopTokens_def hopFees_def)
  have f: "\<forall>t \<in> set ts. IsAddress t" "\<forall>f \<in> set fs. 0 \<le> f \<and> f < 2 ^ 24" "length fs < 2 ^ 64"
    using a(10,11) n(2) assms(6) by (simp_all add: ts_def fs_def)
  have l: "length (selector keccak sig) = 10" for sig using length_selector[of keccak] assms(3) by blast
  have p: "boundFor True ain aout (downBound aout (Fin p))" "boundFor False ain aout (upBound ain (Fin p))"
    using limits_ok[OF a(3,5,4,6,7,8)] by simp_all
  show ?thesis
  proof (cases ?x)
    case True
    let ?d = "downBound aout (Fin p)"
    have c: "drop 10 (scData c) = pathCall (encodePath ts fs) (scFrom c) ain ?d"
      using a(12) True n l by (simp add: swapData_def ts_def fs_def)
    have "0 \<le> ?d" "?d \<le> maxWord" using p(1) a(6) by (simp_all add: boundFor_def)
    then have "64 dvd length (drop 10 (scData c)) \<and>
        wordsFrom (take 384 (drop 10 (scData c))) = [32, 128, addrValue (scFrom c), ain, ?d, 20 + 23 * int (length fs)] \<and>
        decodePath (length ts) (take (40 + 46 * length fs) (drop 384 (drop 10 (scData c)))) = Some (map toLower ts, fs)"
      unfolding c using path_reads[OF f(1,2) n(1) f(3) a(9)] a(3,5) by simp
    then show ?thesis using True a(1,2) p(1) ts_def fs_def by auto
  next
    case False
    let ?u = "upBound ain (Fin p)"
    have c: "drop 10 (scData c) = pathCall (encodePath (rev ts) (rev fs)) (scFrom c) aout ?u"
      using a(12) False n l by (simp add: swapData_def ts_def fs_def)
    have "0 \<le> ?u" "?u \<le> maxWord" using p(2) a(3) by (simp_all add: boundFor_def)
    then have "64 dvd length (drop 10 (scData c)) \<and>
        wordsFrom (take 384 (drop 10 (scData c))) = [32, 128, addrValue (scFrom c), aout, ?u, 20 + 23 * int (length fs)] \<and>
        decodePath (length ts) (take (40 + 46 * length fs) (drop 384 (drop 10 (scData c)))) =
          Some (map toLower (rev ts), rev fs)"
      unfolding c using path_reads[of "rev ts" "rev fs" "scFrom c" aout ?u] f n a(4,6,9) by simp
    then show ?thesis using False a(1,2) p(2) ts_def fs_def by auto
  qed
qed

section \<open>A quote turned into a call\<close>

definition exHop :: "char \<Rightarrow> char \<Rightarrow> hop" where
  "exHop a b = \<lparr>hopType = ''v3-pool'', hopTokenIn = ''0x'' @ replicate 40 a, hopTokenOut = ''0x'' @ replicate 40 b,
     hopFee = ''3000''\<rparr>"

definition exQuote :: "hop list \<Rightarrow> swapQuote" where
  "exQuote hs =
     \<lparr>sqChainID = 1, sqSwapper = ''0x'' @ replicate 40 (CHR ''5''), sqInputToken = '''', sqInputAmount = ''1000'',
      sqOutputToken = '''', sqOutputAmount = ''900'', sqTradeType = ''EXACT_INPUT'', sqSlippage = Some (Fin 0),
      sqRoute = [hs], sqGasUseEstimate = ''''\<rparr>"

definition exSwap :: "hop list \<Rightarrow> swapCallJSON httpReply" where
  "exSwap hs = HandleSwap (\<lambda>_. replicate 32 (CHR ''k'')) 1 (''0x'' @ replicate 40 (CHR ''7''))
     (''0x'' @ replicate 40 (CHR ''8'')) (exQuote hs)"

definition accepted :: "'a httpReply \<Rightarrow> bool" where
  "accepted r = (case r of OK _ \<Rightarrow> True | _ \<Rightarrow> False)"

lemma accepted_OK: "accepted r \<Longrightarrow> \<exists>c. r = OK c"
  by (cases r) (simp_all add: accepted_def)

lemma HandleSwap_accepts:
  assumes "sqRoute q \<noteq> []" "hd (sqRoute q) \<noteq> []" "IsAddress (sqSwapper q)"
    "checksumAddress keccak (sqSwapper q) = Some sw" "checksumAddress keccak router = Some rt" "sqChainID q = chainID"
    "parseWei (sqInputAmount q) = Some ain" "parseWei (sqOutputAmount q) = Some aout" "0 < ain" "0 < aout"
    "readHops (toLower (trimSpace wrapped)) 0 (hd (sqRoute q)) [] [] = Inr r"
  shows "accepted (HandleSwap keccak chainID router wrapped q)"
  using assms by (cases r) (simp add: HandleSwap_def accepted_def Let_def)

definition isOk :: "'e + 'a \<Rightarrow> bool" where
  "isOk r = (case r of Inr _ \<Rightarrow> True | Inl _ \<Rightarrow> False)"

lemma isOk_Inr: "isOk r \<Longrightarrow> \<exists>x. r = Inr x"
  by (cases r) (simp_all add: isOk_def)

lemma exSwap_accepts:
  assumes "hs \<noteq> []" "isOk (readHops (toLower (trimSpace (''0x'' @ replicate 40 (CHR ''8'')))) 0 hs [] [])"
  shows "accepted (exSwap hs)"
proof -
  have q: "sqRoute (exQuote hs) = [hs]" "sqChainID (exQuote hs) = 1" "sqSwapper (exQuote hs) = ''0x'' @ replicate 40 (CHR ''5'')"
    "sqInputAmount (exQuote hs) = ''1000''" "sqOutputAmount (exQuote hs) = ''900''" by (simp_all add: exQuote_def)
  have a: "IsAddress (''0x'' @ replicate 40 (CHR ''5''))" by code_simp
  have m: "parseWei ''1000'' = Some 1000" "parseWei ''900'' = Some 900" by code_simp+
  let ?k = "\<lambda>_ :: string. replicate 32 (CHR ''k'')"
  have "\<not> Option.is_none (checksumAddress ?k (''0x'' @ replicate 40 (CHR ''5'')))" by code_simp
  then obtain sw where sw: "checksumAddress ?k (''0x'' @ replicate 40 (CHR ''5'')) = Some sw" by (auto simp: Option.is_none_def)
  have "\<not> Option.is_none (checksumAddress ?k (''0x'' @ replicate 40 (CHR ''7'')))" by code_simp
  then obtain rt where rt: "checksumAddress ?k (''0x'' @ replicate 40 (CHR ''7'')) = Some rt" by (auto simp: Option.is_none_def)
  obtain r where r: "readHops (toLower (trimSpace (''0x'' @ replicate 40 (CHR ''8'')))) 0 hs [] [] = Inr r"
    using isOk_Inr[OF assms(2)] by blast
  show ?thesis unfolding exSwap_def
    by (rule HandleSwap_accepts[where sw = sw and rt = rt and ain = 1000 and aout = 900 and r = r])
       (use q a m sw rt r assms(1) in \<open>simp_all only: list.sel list.discI simp_thms zero_less_numeral not_Cons_self2\<close>)
qed

lemma exSwap_facts:
  "\<forall>p. sqSlippage (exQuote hs) = Some p \<longrightarrow> \<not> isNaN p" "IsAddress (toLower (trimSpace (''0x'' @ replicate 40 (CHR ''8''))))"
  by (simp add: exQuote_def) code_simp


theorem many_pool_call_reads_back_witness:
  "\<exists>c. exSwap [exHop (CHR ''a'') (CHR ''b''), exHop (CHR ''b'') (CHR ''c'')] = OK c \<and>
     decodePath 3 (take 132 (drop 394 (scData c))) =
       Some (map (\<lambda>x. ''0x'' @ replicate 40 x) [CHR ''a'', CHR ''b'', CHR ''c''], [3000, 3000])"
proof -
  let ?hs = "[exHop (CHR ''a'') (CHR ''b''), exHop (CHR ''b'') (CHR ''c'')]" and ?w = "''0x'' @ replicate 40 (CHR ''8'')"
  have "accepted (exSwap ?hs)" by (rule exSwap_accepts) (simp, code_simp)
  then obtain c where c: "exSwap ?hs = OK c" using accepted_OK by blast
  have t: "sqTradeType (exQuote ?hs) \<noteq> ''EXACT_OUTPUT''" "hd (sqRoute (exQuote ?hs)) = ?hs" by (simp_all add: exQuote_def)
  have r: "map toLower (hopTokens (toLower (trimSpace ?w)) ?hs) =
      map (\<lambda>x. ''0x'' @ replicate 40 x) [CHR ''a'', CHR ''b'', CHR ''c'']" "hopFees ?hs = [3000, 3000]" by code_simp+
  have n: "length (hopTokens w ?hs) = 3" for w by (simp add: hopTokens_def)
  have k: "\<forall>t :: string. length (replicate 32 (CHR ''k'')) = 32" by simp
  have l: "1 < length (hd (sqRoute (exQuote ?hs)))" "length (hd (sqRoute (exQuote ?hs))) < 2 ^ 64"
    unfolding t(2) by simp_all
  obtain ts fs where w: "ts = hopTokens (toLower (trimSpace ?w)) ?hs" "fs = hopFees ?hs"
      "decodePath (length ts) (take (40 + 46 * length fs) (drop 394 (scData c))) = Some (map toLower ts, fs)"
    using many_pool_call_reads_back[OF c[unfolded exSwap_def] exSwap_facts(1) k exSwap_facts(2) l]
    unfolding t(2) if_P[OF t(1)] by blast
  have "fs = [3000, 3000]" by (rule trans[OF w(2) r(2)])
  then have e: "length ts = 3" "40 + 46 * length fs = 132" using n w(1) by simp_all
  have "decodePath 3 (take 132 (drop 394 (scData c))) = Some (map toLower ts, fs)" using w(3) unfolding e .
  then show ?thesis using c unfolding w(1,2) r by blast
qed

section \<open>Approvals\<close>

definition allowanceOf :: "string list \<Rightarrow> int" where
  "allowanceOf rs = (case rs of [] \<Rightarrow> 0 | a # _ \<Rightarrow> (case words a of [] \<Rightarrow> 0 | n # _ \<Rightarrow> n))"

lemma approve_call_reads:
  assumes "\<forall>t. length (keccak t) = 32" "IsAddress router"
  shows "words (''0x'' @ drop 10 (selector keccak sig @ addrWord router @ numWord unlimited)) = [addrValue router, maxWord]"
proof -
  have l: "length (selector keccak sig) = 10" using length_selector[of keccak] assms(1) by blast
  have "wordsFrom (numWord maxWord @ []) = [maxWord]" using maxWord_nonneg(1) by (subst wordsFrom_num) simp_all
  then show ?thesis using l assms(2) by (simp add: words_def wordsFrom_addr unlimited_def)
qed

text \<open>An approval is asked for exactly when it is needed: none for the native token or when the router's allowance
read from the chain covers the amount; otherwise one call to the token itself, from the wallet, sending no value,
that lets the router - and only the router - spend the largest amount a word holds.\<close>

theorem approval_only_when_needed:
  assumes "HandleCheckApproval keccak ask chainID router req = OK r" "\<forall>t. length (keccak t) = 32" "IsAddress router"
  shows "\<exists>amount. parseWei (arAmount req) = Some amount \<and>
    (if isNativeAddr (arToken req) then r = None
     else \<exists>tok wal res. checksumAddress keccak (arToken req) = Some tok \<and> checksumAddress keccak (arWallet req) = Some wal \<and>
       ask (tok, selector keccak ''allowance(address,address)'' @ addrWord wal @ addrWord router) = Some res \<and>
       r = (if amount \<le> allowanceOf [res] then None
            else Some \<lparr>atTo = tok, atFrom = wal,
                       atData = selector keccak ''approve(address,uint256)'' @ addrWord router @ numWord unlimited,
                       atValue = ''0'', atChainID = chainID\<rparr>) \<and>
       (\<forall>tx. r = Some tx \<longrightarrow> words (''0x'' @ drop 10 (atData tx)) = [addrValue router, maxWord]))"
proof -
  obtain amount wal where a: "parseWei (arAmount req) = Some amount" "checksumAddress keccak (arWallet req) = Some wal"
    using assms(1) by (auto simp: HandleCheckApproval_def Let_def split: if_splits option.splits)
  note reads = approve_call_reads[OF assms(2,3)]
  show ?thesis
  proof (cases "isNativeAddr (arToken req)")
    case True
    then show ?thesis using assms(1) a
      by (auto simp: HandleCheckApproval_def Let_def split: if_splits option.splits)
  next
    case False
    then obtain tok res where t: "checksumAddress keccak (arToken req) = Some tok"
        "ask (tok, selector keccak ''allowance(address,address)'' @ addrWord wal @ addrWord router) = Some res"
      using assms(1) a by (auto simp: HandleCheckApproval_def Let_def split: if_splits option.splits)
    then have "r = (if amount \<le> allowanceOf [res] then None
        else Some \<lparr>atTo = tok, atFrom = wal,
                   atData = selector keccak ''approve(address,uint256)'' @ addrWord router @ numWord unlimited,
                   atValue = ''0'', atChainID = chainID\<rparr>)"
      using assms(1) a False
      by (auto simp: HandleCheckApproval_def allowanceOf_def Let_def split: if_splits option.splits)
    then show ?thesis using a t False reads by (auto split: if_splits)
  qed
qed

lemma HandleCheckApproval_accepts:
  assumes "IsAddress (arWallet req)" "IsAddress (arToken req)" "parseWei (arAmount req) = Some n" "arChainID req = None"
    "\<not> Option.is_none (checksumAddress keccak (arWallet req))" "\<not> Option.is_none (checksumAddress keccak (arToken req))"
    "\<And>c. ask c = Some res"
  shows "accepted (HandleCheckApproval keccak ask chainID router req)"
  using assms IsAddress_not_Nil[of "arToken req"]
  by (auto simp: HandleCheckApproval_def accepted_def Let_def Option.is_none_def)

definition exRequest :: approvalRequest where
  "exRequest = \<lparr>arWallet = ''0x'' @ replicate 40 (CHR ''5''), arToken = ''0x'' @ replicate 40 (CHR ''a''),
     arAmount = ''1000'', arChainID = None\<rparr>"

theorem approval_only_when_needed_witness:
  "\<exists>tx. HandleCheckApproval (\<lambda>_. replicate 32 (CHR ''k'')) (\<lambda>_. Some ''0x'') 1 (''0x'' @ replicate 40 (CHR ''7'')) exRequest
     = OK (Some tx) \<and> atValue tx = ''0'' \<and>
     words (''0x'' @ drop 10 (atData tx)) = [addrValue (''0x'' @ replicate 40 (CHR ''7'')), maxWord]"
proof -
  let ?k = "\<lambda>_ :: string. replicate 32 (CHR ''k'')" and ?r = "''0x'' @ replicate 40 (CHR ''7'')"
  let ?h = "HandleCheckApproval ?k (\<lambda>_. Some ''0x'') 1 ?r exRequest"
  have m: "parseWei (arAmount exRequest) = Some 1000" by code_simp
  have w: "IsAddress (arWallet exRequest)" "IsAddress (arToken exRequest)"
    "\<not> Option.is_none (checksumAddress ?k (arWallet exRequest))" "\<not> Option.is_none (checksumAddress ?k (arToken exRequest))"
    by code_simp+
  have "accepted ?h"
    by (rule HandleCheckApproval_accepts[OF w(1,2) m _ w(3,4)]) (simp add: exRequest_def, rule refl)
  then obtain r where r: "?h = OK r" using accepted_OK by blast
  have k: "\<forall>t :: string. length (?k t) = 32" by simp
  have a: "IsAddress ?r" by code_simp
  have n: "\<not> isNativeAddr (arToken exRequest)" by code_simp
  have z: "allowanceOf [''0x''] = 0" by code_simp
  obtain tok wal where t: "r = Some \<lparr>atTo = tok, atFrom = wal,
      atData = selector ?k ''approve(address,uint256)'' @ addrWord ?r @ numWord unlimited, atValue = ''0'', atChainID = 1\<rparr>"
      "\<forall>tx. r = Some tx \<longrightarrow> words (''0x'' @ drop 10 (atData tx)) = [addrValue ?r, maxWord]"
    using approval_only_when_needed[OF r k a] n m z by fastforce
  show ?thesis
  proof (intro exI conjI)
    show "?h = OK (Some (the r))" using r t(1) by (simp only: option.sel)
    show "atValue (the r) = ''0''" using t(1) by simp
    show "words (''0x'' @ drop 10 (atData (the r))) = [addrValue ?r, maxWord]"
      using t(2)[rule_format, of "the r"] t(1) by (simp only: option.sel)
  qed
qed

end
