(* ===== verification/StoreQuery.thy ===== *)
theory StoreQuery
  imports Store Float64 "HOL-Library.Multiset"
begin

text \<open>
  List queries over the store: matching, ordering and cutting (src/storage/store.go) and the
  collection reads of the map backend (src/storage/store_memory.go).

  \<open>parseFloat\<close> is \<open>strconv.ParseFloat(s, 64)\<close>; None is any error, a value out of range included.
  \<open>stableSort\<close> is \<open>sort.SliceStable\<close>: insertion from the right end, which is Go's algorithm on
  blocks of up to 20 elements; on longer slices Go merges such blocks, with the same result
  whenever the comparison is a strict weak order.
\<close>

section \<open>Reading a float\<close>

record mantissa =
  mValue :: nat
  mFrac :: nat
  mDot :: bool
  mDigits :: bool
  mUnder :: bool

fun scanMantissa :: "nat \<Rightarrow> mantissa \<Rightarrow> string \<Rightarrow> mantissa \<times> string" where
  "scanMantissa base m [] = (m, [])"
| "scanMantissa base m (c # cs) =
     (if c = CHR ''_'' then scanMantissa base (m\<lparr>mUnder := True\<rparr>) cs
      else if c = CHR ''.'' then
        (if mDot m then (m, c # cs) else scanMantissa base (m\<lparr>mDot := True\<rparr>) cs)
      else case digitVal c of
        None \<Rightarrow> (m, c # cs)
      | Some d \<Rightarrow>
          if d < base then
            scanMantissa base
              (m\<lparr>mValue := mValue m * base + d, mFrac := (if mDot m then mFrac m + 1 else mFrac m),
                 mDigits := True\<rparr>) cs
          else (m, c # cs))"

fun scanExponent :: "nat \<Rightarrow> bool \<Rightarrow> string \<Rightarrow> nat \<times> bool \<times> string" where
  "scanExponent e u [] = (e, u, [])"
| "scanExponent e u (c # cs) =
     (if c = CHR ''_'' then scanExponent e True cs
      else if 48 \<le> byteOf c \<and> byteOf c \<le> 57 then
        scanExponent (if e < 10000 then e * 10 + (byteOf c - 48) else e) u cs
      else (e, u, c # cs))"

text \<open>\<open>underscoreOK\<close>: an underscore only between digits, the base prefix counting as one.  The state
  is the kind of the last byte: \<open>0\<close> a digit, \<open>_\<close> an underscore, \<open>!\<close> anything else.\<close>

fun underscoreScan :: "bool \<Rightarrow> char \<Rightarrow> string \<Rightarrow> bool" where
  "underscoreScan hex prev [] = (prev \<noteq> CHR ''_'')"
| "underscoreScan hex prev (c # cs) =
     (if (48 \<le> byteOf c \<and> byteOf c \<le> 57) \<or> (hex \<and> 97 \<le> byteOf (lowerChar c) \<and> byteOf (lowerChar c) \<le> 102)
      then underscoreScan hex (CHR ''0'') cs
      else if c = CHR ''_'' then (if prev \<noteq> CHR ''0'' then False else underscoreScan hex (CHR ''_'') cs)
      else if prev = CHR ''_'' then False
      else underscoreScan hex (CHR ''!'') cs)"

definition dropSign :: "string \<Rightarrow> string" where
  "dropSign s = (if s \<noteq> [] \<and> (hd s = CHR ''-'' \<or> hd s = CHR ''+'') then tl s else s)"

definition underscoreOK :: "string \<Rightarrow> bool" where
  "underscoreOK s =
     (let t = dropSign s in
      if length t \<ge> 2 \<and> hd t = CHR ''0'' \<and> lowerChar (t ! 1) \<in> set ''box''
      then underscoreScan (lowerChar (t ! 1) = CHR ''x'') (CHR ''0'') (drop 2 t)
      else underscoreScan False (CHR ''^'') t)"

definition readFloat :: "string \<Rightarrow> rat option" where
  "readFloat s =
     (let neg = (s \<noteq> [] \<and> hd s = CHR ''-''); t = dropSign s;
          hex = (length t > 2 \<and> hd t = CHR ''0'' \<and> lowerChar (t ! 1) = CHR ''x'');
          base = (if hex then 16 else 10);
          (m, rest) = scanMantissa base \<lparr>mValue = 0, mFrac = 0, mDot = False, mDigits = False, mUnder = False\<rparr>
                        (if hex then drop 2 t else t);
          mant = (of_nat (mValue m) / of_nat base ^ mFrac m :: rat);
          withSign = (\<lambda>x. if neg then - x else x)
      in if \<not> mDigits m then None
         else if rest \<noteq> [] \<and> lowerChar (hd rest) = (if hex then CHR ''p'' else CHR ''e'') then
           (let after = tl rest; eneg = (after \<noteq> [] \<and> hd after = CHR ''-''); ds = dropSign after in
            if ds = [] \<or> \<not> (48 \<le> byteOf (hd ds) \<and> byteOf (hd ds) \<le> 57) then None
            else case scanExponent 0 (mUnder m) ds of
              (e, u, rest') \<Rightarrow>
                if rest' \<noteq> [] \<or> (u \<and> \<not> underscoreOK s) then None
                else (let scale = (if hex then 2 else 10) ^ e in
                      Some (withSign (if eneg then mant / scale else mant * scale))))
         else if rest \<noteq> [] \<or> hex \<or> (mUnder m \<and> \<not> underscoreOK s) then None
         else Some (withSign mant))"

definition parseFloat :: "string \<Rightarrow> f64 option" where
  "parseFloat s =
     (if toLower (dropSign s) \<in> {''inf'', ''infinity''} then Some (FInf (hd s = CHR ''-''))
      else if toLower s = ''nan'' then Some FNaN
      else case readFloat s of
        None \<Rightarrow> None
      | Some x \<Rightarrow> (case toF64 x of FInf _ \<Rightarrow> None | f \<Rightarrow> Some f))"

section \<open>Comparing and matching\<close>

definition compareValues :: "val \<Rightarrow> val \<Rightarrow> int" where
  "compareValues a b =
     (let sa = sprint a; sb = sprint b;
          byText = (if sa < sb then - 1 else if sb < sa then 1 else 0)
      in case (parseFloat sa, parseFloat sb) of
           (Some fa, Some fb) \<Rightarrow> if fless fa fb then - 1 else if fless fb fa then 1 else 0
         | _ \<Rightarrow> byText)"

definition equalValues :: "val \<Rightarrow> val \<Rightarrow> bool" where
  "equalValues a b =
     (case (a, b) of
        (VStr sa, VStr sb) \<Rightarrow>
          if parseFloat sa = None then equalFold sa sb else compareValues a b = 0
      | _ \<Rightarrow> compareValues a b = 0)"

definition hasSuffix :: "string \<Rightarrow> string \<Rightarrow> bool" where
  "hasSuffix s p = (length p \<le> length s \<and> drop (length s - length p) s = p)"

datatype cmpOp = OpGte | OpLte | OpGt | OpLt | OpEq

definition splitCondition :: "string \<Rightarrow> string \<times> cmpOp" where
  "splitCondition k =
     (if hasSuffix k ''_gte'' then (take (length k - 4) k, OpGte)
      else if hasSuffix k ''_lte'' then (take (length k - 4) k, OpLte)
      else if hasSuffix k ''_gt'' then (take (length k - 3) k, OpGt)
      else if hasSuffix k ''_lt'' then (take (length k - 3) k, OpLt)
      else (k, OpEq))"

definition referenced :: "val \<Rightarrow> val" where
  "referenced v = (case v of VMap m \<Rightarrow> (case getKey m ''id'' of Some i \<Rightarrow> i | None \<Rightarrow> v) | _ \<Rightarrow> v)"

definition holdsCondition :: "val gomap \<Rightarrow> string \<times> val \<Rightarrow> bool" where
  "holdsCondition m kv =
     (case splitCondition (fst kv) of
        (fld, op) \<Rightarrow>
          (case getKey m fld of
             None \<Rightarrow> False
           | Some v0 \<Rightarrow>
               (let v = referenced v0; cmp = compareValues v (snd kv) in
                case op of
                  OpEq \<Rightarrow> equalValues v (snd kv)
                | OpGte \<Rightarrow> \<not> cmp < 0
                | OpLte \<Rightarrow> \<not> cmp > 0
                | OpGt \<Rightarrow> \<not> cmp \<le> 0
                | OpLt \<Rightarrow> \<not> cmp \<ge> 0)))"

definition matchesWhere :: "val gomap \<Rightarrow> val gomap \<Rightarrow> bool" where
  "matchesWhere m conds = list_all (holdsCondition m) conds"

definition FilterResults :: "val list \<Rightarrow> val gomap \<Rightarrow> val list" where
  "FilterResults results conds =
     (if conds = [] then results
      else filter (\<lambda>r. case r of VMap m \<Rightarrow> matchesWhere m conds | _ \<Rightarrow> False) results)"

section \<open>Ordering\<close>

fun insertFromRight :: "('a \<Rightarrow> 'a \<Rightarrow> bool) \<Rightarrow> 'a \<Rightarrow> 'a list \<Rightarrow> 'a list" where
  "insertFromRight lt x [] = [x]"
| "insertFromRight lt x (y # ys) = (if lt x y then y # insertFromRight lt x ys else x # y # ys)"

definition stableSort :: "('a \<Rightarrow> 'a \<Rightarrow> bool) \<Rightarrow> 'a list \<Rightarrow> 'a list" where
  "stableSort lt xs = rev (foldl (\<lambda>acc x. insertFromRight lt x acc) [] xs)"

definition fieldOf :: "string \<Rightarrow> val \<Rightarrow> val" where
  "fieldOf k r = (case r of VMap m \<Rightarrow> (case getKey m k of Some v \<Rightarrow> v | None \<Rightarrow> VNil) | _ \<Rightarrow> VNil)"

definition isMap :: "val \<Rightarrow> bool" where
  "isMap r = (case r of VMap _ \<Rightarrow> True | _ \<Rightarrow> False)"

definition orderLess :: "string \<Rightarrow> bool \<Rightarrow> val \<Rightarrow> val \<Rightarrow> bool" where
  "orderLess orderBy desc a b =
     (if \<not> isMap a \<or> \<not> isMap b then False
      else let cmp = compareValues (fieldOf orderBy a) (fieldOf orderBy b) in
           if desc then cmp > 0 else cmp < 0)"

definition sortResults :: "val list \<Rightarrow> string \<Rightarrow> string \<Rightarrow> val list" where
  "sortResults results orderBy orderDirection =
     (if orderBy = '''' \<or> results = [] then results
      else stableSort (orderLess orderBy (equalFold orderDirection ''desc'')) results)"

definition page :: "val list \<Rightarrow> int \<Rightarrow> string \<Rightarrow> string \<Rightarrow> val gomap \<Rightarrow> val list" where
  "page results limit orderBy orderDirection conds =
     (let rs = sortResults (FilterResults results conds) orderBy orderDirection in
      if int (length rs) > limit then take (nat limit) rs else rs)"

section \<open>Collection reads\<close>

definition Entities :: "store \<Rightarrow> string \<Rightarrow> int \<Rightarrow> string \<Rightarrow> string \<Rightarrow> val gomap \<Rightarrow> val" where
  "Entities s entityType limit orderBy orderDirection conds =
     VList (page (map snd (filter (\<lambda>(k, _). hasPrefix k (entityType @ '':'')) (dbGeneric s)))
                 limit orderBy orderDirection conds)"

definition GetTokens :: "store \<Rightarrow> int \<Rightarrow> string \<Rightarrow> string \<Rightarrow> val gomap \<Rightarrow> val" where
  "GetTokens s limit orderBy orderDirection conds =
     VList (page (map (\<lambda>(a, t). tokenToMap a t) (dbTokens s)) limit orderBy orderDirection conds)"

definition GetPools :: "store \<Rightarrow> int \<Rightarrow> string \<Rightarrow> string \<Rightarrow> val gomap \<Rightarrow> val" where
  "GetPools s limit orderBy orderDirection conds =
     VList (page (map (\<lambda>(i, p). poolToMap s i p) (dbPools s)) limit orderBy orderDirection conds)"

definition GetSwaps :: "store \<Rightarrow> int \<Rightarrow> string \<Rightarrow> string \<Rightarrow> val gomap \<Rightarrow> val" where
  "GetSwaps s limit orderBy orderDirection conds =
     VList (page (map (\<lambda>(i, sw). swapToMap s i sw) (dbSwaps s)) limit
        (if orderBy = '''' then ''timestamp'' else orderBy)
        (if orderDirection = '''' then ''desc'' else orderDirection) conds)"

definition TokenDay :: string where "TokenDay = ''TokenDayData''"
definition PoolDay :: string where "PoolDay = ''PoolDayData''"
definition FactoryDay :: string where "FactoryDay = ''FactoryDayData''"

section \<open>Sorting and paging\<close>

lemma mset_insertFromRight [simp]: "mset (insertFromRight lt x ys) = add_mset x (mset ys)"
  by (induction lt x ys rule: insertFromRight.induct) auto

lemma set_insertFromRight [simp]: "set (insertFromRight lt x ys) = insert x (set ys)"
  by (metis mset_insertFromRight set_mset_add_mset_insert set_mset_mset)

definition weakOrder :: "('a \<Rightarrow> 'a \<Rightarrow> bool) \<Rightarrow> 'a set \<Rightarrow> bool" where
  "weakOrder lt A \<longleftrightarrow>
     (\<forall>a \<in> A. \<forall>b \<in> A. lt a b \<longrightarrow> \<not> lt b a) \<and>
     (\<forall>a \<in> A. \<forall>b \<in> A. \<forall>c \<in> A. \<not> lt a b \<longrightarrow> \<not> lt b c \<longrightarrow> \<not> lt a c)"

lemma weakOrder_asym: "weakOrder lt A \<Longrightarrow> a \<in> A \<Longrightarrow> b \<in> A \<Longrightarrow> lt a b \<Longrightarrow> \<not> lt b a"
  unfolding weakOrder_def by blast

lemma weakOrder_negtrans:
  "weakOrder lt A \<Longrightarrow> a \<in> A \<Longrightarrow> b \<in> A \<Longrightarrow> c \<in> A \<Longrightarrow> \<not> lt a b \<Longrightarrow> \<not> lt b c \<Longrightarrow> \<not> lt a c"
  unfolding weakOrder_def by blast

lemma weakOrder_subset: "weakOrder lt A \<Longrightarrow> B \<subseteq> A \<Longrightarrow> weakOrder lt B"
  unfolding weakOrder_def by blast

lemma insertFromRight_sorted:
  "weakOrder lt (insert x (set ys)) \<Longrightarrow> sorted_wrt (\<lambda>a b. \<not> lt a b) ys \<Longrightarrow>
   sorted_wrt (\<lambda>a b. \<not> lt a b) (insertFromRight lt x ys)"
proof (induction lt x ys rule: insertFromRight.induct)
  case (2 lt x y ys)
  have tl: "sorted_wrt (\<lambda>a b. \<not> lt a b) ys" "\<forall>z \<in> set ys. \<not> lt y z" using 2(3) by simp_all
  show ?case
  proof (cases "lt x y")
    case True
    have "weakOrder lt (insert x (set ys))" by (rule weakOrder_subset[OF 2(2)]) auto
    then have "sorted_wrt (\<lambda>a b. \<not> lt a b) (insertFromRight lt x ys)" using 2(1) True tl by simp
    moreover have "\<not> lt y x" by (rule weakOrder_asym[OF 2(2)]) (use True in auto)
    ultimately show ?thesis using True tl by simp
  next
    case False
    have "\<forall>z \<in> set ys. \<not> lt x z"
      using tl(2) False weakOrder_negtrans[OF 2(2), of x y] by simp
    then show ?thesis using False tl by simp
  qed
qed simp

lemma foldl_insert_mset: "mset (foldl (\<lambda>acc x. insertFromRight lt x acc) acc xs) = mset acc + mset xs"
  by (induction xs arbitrary: acc) auto

lemma mset_stableSort [simp]: "mset (stableSort lt xs) = mset xs"
  by (simp add: stableSort_def foldl_insert_mset)

lemma set_stableSort [simp]: "set (stableSort lt xs) = set xs"
  by (metis mset_stableSort set_mset_mset)

lemma foldl_insert_sorted:
  "weakOrder lt (set acc \<union> set xs) \<Longrightarrow> sorted_wrt (\<lambda>a b. \<not> lt a b) acc \<Longrightarrow>
   sorted_wrt (\<lambda>a b. \<not> lt a b) (foldl (\<lambda>acc x. insertFromRight lt x acc) acc xs)"
proof (induction xs arbitrary: acc)
  case (Cons x xs)
  have "weakOrder lt (insert x (set acc))" by (rule weakOrder_subset[OF Cons.prems(1)]) auto
  then have "sorted_wrt (\<lambda>a b. \<not> lt a b) (insertFromRight lt x acc)"
    using Cons.prems(2) by (rule insertFromRight_sorted)
  then show ?case using Cons by simp
qed simp

lemma stableSort_sorted:
  "weakOrder lt (set xs) \<Longrightarrow> sorted_wrt (\<lambda>a b. \<not> lt b a) (stableSort lt xs)"
  using foldl_insert_sorted[of lt "[]" xs] by (simp add: stableSort_def sorted_wrt_rev)

lemma set_sortResults [simp]: "set (sortResults rs k d) = set rs"
  by (simp add: sortResults_def)

lemma mset_sortResults [simp]: "mset (sortResults rs k d) = mset rs"
  by (simp add: sortResults_def)

definition numericRow :: "string \<Rightarrow> val \<Rightarrow> bool" where
  "numericRow k r \<longleftrightarrow> isMap r \<and> (\<exists>x. parseFloat (sprint (fieldOf k r)) = Some (Fin x))"

definition rowNumber :: "string \<Rightarrow> val \<Rightarrow> rat" where
  "rowNumber k r = (case parseFloat (sprint (fieldOf k r)) of Some (Fin x) \<Rightarrow> x | _ \<Rightarrow> 0)"

lemma orderLess_numeric:
  "numericRow k a \<Longrightarrow> numericRow k b \<Longrightarrow>
   orderLess k desc a b \<longleftrightarrow> (if desc then rowNumber k a > rowNumber k b else rowNumber k a < rowNumber k b)"
proof -
  assume "numericRow k a" "numericRow k b"
  then obtain x y where "isMap a" "isMap b" "parseFloat (sprint (fieldOf k a)) = Some (Fin x)"
      "parseFloat (sprint (fieldOf k b)) = Some (Fin y)" by (auto simp: numericRow_def)
  moreover from this have "compareValues (fieldOf k a) (fieldOf k b) = (if x < y then - 1 else if y < x then 1 else 0)"
    by (simp add: compareValues_def Let_def del: sprint.simps)
  ultimately show ?thesis by (simp add: orderLess_def rowNumber_def)
qed

lemma weakOrder_numeric: "\<forall>r \<in> A. numericRow k r \<Longrightarrow> weakOrder (orderLess k desc) A"
  by (auto simp: weakOrder_def orderLess_numeric)

lemma length_page: "0 \<le> limit \<Longrightarrow> int (length (page rs limit k d conds)) \<le> limit"
  by (simp add: page_def Let_def)

lemma set_page: "set (page rs limit k d conds) \<subseteq> set (FilterResults rs conds)"
  by (auto simp: page_def Let_def dest: in_set_takeD)

lemma page_match: "r \<in> set (page rs limit k d conds) \<Longrightarrow> conds \<noteq> [] \<Longrightarrow> \<exists>m. r = VMap m \<and> matchesWhere m conds"
proof -
  assume a: "r \<in> set (page rs limit k d conds)" "conds \<noteq> []"
  then have "r \<in> set (FilterResults rs conds)" using set_page by blast
  then show ?thesis using a(2) by (auto simp: FilterResults_def split: val.split_asm)
qed

text \<open>A page holds the best matches: with an order over a numeric field, the page and the rows it leaves out are
together exactly the matching rows, sorted in the order asked for, and rows are left out only when the page
is full.\<close>

theorem page_keeps_the_best:
  assumes "\<forall>r \<in> set (FilterResults rs conds). numericRow k r" "k \<noteq> ''''" "0 \<le> limit"
  shows "\<exists>rest. mset (page rs limit k d conds) + mset rest = mset (FilterResults rs conds) \<and>
    sorted_wrt (\<lambda>a b. if equalFold d ''desc'' then rowNumber k a \<ge> rowNumber k b
                      else rowNumber k a \<le> rowNumber k b) (page rs limit k d conds @ rest) \<and>
    (rest \<noteq> [] \<longrightarrow> int (length (page rs limit k d conds)) = limit)"
proof -
  let ?desc = "equalFold d ''desc''" and ?pg = "page rs limit k d conds"
  define fs where "fs = FilterResults rs conds"
  define ss where "ss = sortResults fs k d"
  define rest where "rest = (if int (length ss) > limit then drop (nat limit) ss else [])"
  have split: "?pg @ rest = ss" by (simp add: page_def rest_def ss_def fs_def Let_def)
  have perm: "mset ?pg + mset rest = mset fs" by (simp flip: mset_append add: split ss_def)
  have nl: "sorted_wrt (\<lambda>a b. \<not> orderLess k ?desc b a) ss"
    using assms(2) stableSort_sorted[OF weakOrder_numeric[OF assms(1)]]
    by (cases "fs = []") (simp_all add: sortResults_def ss_def fs_def)
  have num: "\<forall>r \<in> set ss. numericRow k r" using assms(1) by (simp add: ss_def fs_def)
  have "sorted_wrt (\<lambda>a b. if ?desc then rowNumber k a \<ge> rowNumber k b else rowNumber k a \<le> rowNumber k b) ss"
    using nl by (rule sorted_wrt_mono_rel[rotated]) (use num in \<open>simp add: orderLess_numeric split: if_splits\<close>)
  moreover have "rest \<noteq> [] \<longrightarrow> int (length ?pg) = limit"
    using assms(3) by (auto simp: page_def rest_def ss_def fs_def Let_def split: if_splits)
  ultimately show ?thesis using perm unfolding fs_def split[symmetric] by (intro exI[of _ rest] conjI)
qed

definition exRows :: "val list" where
  "exRows = map (\<lambda>n. VMap [(''n'', VInt n)]) [3, 1, 2]"

theorem page_keeps_the_best_witness:
  "\<exists>rest. mset (page exRows 2 ''n'' ''desc'' []) + mset rest = mset exRows \<and> (rest \<noteq> [] \<longrightarrow> length (page exRows 2 ''n'' ''desc'' []) = 2)"
proof -
  have small: "\<exists>y. toF64 x = Fin y" if "0 \<le> x" "x \<le> 2 ^ 20" for x
    using toF64_small[OF that] by blast
  have t: "sprint (VInt 3) = ''3''" "sprint (VInt 1) = ''1''" "sprint (VInt 2) = ''2''" by code_simp+
  have r: "readFloat ''3'' = Some 3" "readFloat ''1'' = Some 1" "readFloat ''2'' = Some 2" by code_simp+
  have w: "toLower (dropSign [c]) \<notin> {''inf'', ''infinity''}" "toLower [c] \<noteq> ''nan''" for c
    by (auto simp: toLower_def dropSign_def)
  have "\<exists>x. parseFloat ''3'' = Some (Fin x)" "\<exists>x. parseFloat ''1'' = Some (Fin x)" "\<exists>x. parseFloat ''2'' = Some (Fin x)"
    using small[of 3] small[of 1] small[of 2] w by (auto simp: parseFloat_def r)
  then have "\<forall>r \<in> set (FilterResults exRows []). numericRow ''n'' r"
    using t by (simp add: FilterResults_def exRows_def numericRow_def isMap_def fieldOf_def getKey_def)
  from page_keeps_the_best[OF this, of 2 "''desc''"] show ?thesis by (auto simp: FilterResults_def)
qed

end
