(* ===== verification/Resolvers.thy ===== *)
theory Resolvers
  imports Store
begin

text \<open>
  The chain resolver packages, src/resolvers/*/*.go.  Each package is one table: the names its
  \<open>Register\<close> binds, in order, each with the resolver function it binds there.  The functions have
  three shapes, and a package spells each of them out per entity type: read one entity by an
  argument (\<open>byArg\<close>), list a type up to the clamped limit (\<open>listOf\<close>), read the singleton entity with
  id 1 (\<open>single\<close>).  \<open>pl\<close> is the limit reader every package repeats.

  A resolver error is the left summand; the context argument is unused by every resolver.
\<close>

type_synonym resolver = "store \<Rightarrow> val gomap \<Rightarrow> string + val"

definition pl :: "val gomap \<Rightarrow> int" where
  "pl args = (let limit = readFirst args 100 in min (if limit < 1 then 100 else limit) 1000)"

definition byArg :: "string \<Rightarrow> string \<Rightarrow> string \<Rightarrow> resolver" where
  "byArg arg entityType err s args =
     (case getKey args arg of
        Some i \<Rightarrow> Inr (GetByType s entityType (sprint i))
      | None \<Rightarrow> Inl err)"

definition listOf :: "string \<Rightarrow> resolver" where
  "listOf entityType s args = Inr (ListByType s entityType (pl args))"

definition single :: "string \<Rightarrow> resolver" where
  "single entityType s args = Inr (GetByType s entityType ''1'')"

definition byId :: "string \<Rightarrow> string \<Rightarrow> resolver" where
  "byId entityType name = byArg ''id'' entityType (name @ '' requires id'')"

definition aiRegister :: "(string \<times> resolver) list" where
  "aiRegister =
     [(''inferenceProof'', byId ''InferenceProof'' ''inferenceProof''),
      (''inferenceProofs'', listOf ''InferenceProof''),
      (''modelHash'', byId ''ModelHash'' ''modelHash''),
      (''modelHashes'', listOf ''ModelHash''),
      (''computeAttestation'', byId ''ComputeAttestation'' ''computeAttestation''),
      (''computeAttestations'', listOf ''ComputeAttestation''),
      (''aiJob'', byId ''AIJob'' ''aiJob''),
      (''aiJobs'', listOf ''AIJob''),
      (''trainingRun'', byId ''TrainingRun'' ''trainingRun''),
      (''trainingRuns'', listOf ''TrainingRun''),
      (''aiStats'', single ''AIStats'')]"

definition bridgeRegister :: "(string \<times> resolver) list" where
  "bridgeRegister =
     [(''bridgeTransfer'', byId ''BridgeTransfer'' ''bridgeTransfer''),
      (''bridgeTransfers'', listOf ''BridgeTransfer''),
      (''mpcSignature'', byId ''MPCSignature'' ''mpcSignature''),
      (''mpcSignatures'', listOf ''MPCSignature''),
      (''wrappedAsset'', byId ''WrappedAsset'' ''wrappedAsset''),
      (''wrappedAssets'', listOf ''WrappedAsset''),
      (''bridgeRequest'', byId ''BridgeRequest'' ''bridgeRequest''),
      (''bridgeRequests'', listOf ''BridgeRequest''),
      (''bridgeStats'', single ''BridgeStats'')]"

definition daoRegister :: "(string \<times> resolver) list" where
  "daoRegister =
     [(''daoProposal'', byId ''DAOProposal'' ''daoProposal''),
      (''daoProposals'', listOf ''DAOProposal''),
      (''daoMember'', byId ''DAOMember'' ''daoMember''),
      (''daoMembers'', listOf ''DAOMember''),
      (''daoTreasury'', byId ''DAOTreasury'' ''daoTreasury''),
      (''daoTreasuries'', listOf ''DAOTreasury''),
      (''daoStats'', single ''DAOStats'')]"

definition derivativesRegister :: "(string \<times> resolver) list" where
  "derivativesRegister =
     [(''derivativeContract'', byId ''DerivativeContract'' ''derivativeContract''),
      (''derivativeContracts'', listOf ''DerivativeContract''),
      (''derivativeSettlement'', byId ''DerivativeSettlement'' ''derivativeSettlement''),
      (''derivativeSettlements'', listOf ''DerivativeSettlement''),
      (''derivativeExercise'', byId ''DerivativeExercise'' ''derivativeExercise''),
      (''derivativeExercises'', listOf ''DerivativeExercise''),
      (''derivativeStats'', single ''DerivativeStats'')]"

definition dexRegister :: "(string \<times> resolver) list" where
  "dexRegister =
     [(''order'', byId ''Order'' ''order''),
      (''orders'', listOf ''Order''),
      (''fill'', byId ''Fill'' ''fill''),
      (''fills'', listOf ''Fill''),
      (''market'', byId ''Market'' ''market''),
      (''markets'', listOf ''Market''),
      (''perpPosition'', byId ''PerpPosition'' ''perpPosition''),
      (''perpPositions'', listOf ''PerpPosition''),
      (''fundingRate'', byId ''FundingRate'' ''fundingRate''),
      (''fundingRates'', listOf ''FundingRate''),
      (''liquidation'', byId ''Liquidation'' ''liquidation''),
      (''liquidations'', listOf ''Liquidation''),
      (''orderbook'', byArg ''id'' ''Orderbook'' ''orderbook requires market id''),
      (''marketDayDatas'', listOf ''MarketDayData'')]"

definition didRegister :: "(string \<times> resolver) list" where
  "didRegister =
     [(''didDocument'', byId ''DIDDocument'' ''didDocument''),
      (''didDocuments'', listOf ''DIDDocument''),
      (''didDelegate'', byId ''DIDDelegate'' ''didDelegate''),
      (''didDelegates'', listOf ''DIDDelegate''),
      (''didAttribute'', byId ''DIDAttribute'' ''didAttribute''),
      (''didAttributes'', listOf ''DIDAttribute''),
      (''didStats'', single ''DIDStats'')]"

definition exchangeRegister :: "(string \<times> resolver) list" where
  "exchangeRegister =
     [(''asset'', byId ''Asset'' ''asset''),
      (''assets'', listOf ''Asset''),
      (''utxo'', byId ''UTXO'' ''utxo''),
      (''utxos'', listOf ''UTXO''),
      (''xTransfer'', byId ''XTransfer'' ''xTransfer''),
      (''xTransfers'', listOf ''XTransfer''),
      (''assetCreation'', byId ''AssetCreation'' ''assetCreation''),
      (''assetCreations'', listOf ''AssetCreation''),
      (''importTx'', byId ''ImportTx'' ''importTx''),
      (''importTxs'', listOf ''ImportTx''),
      (''exportTx'', byId ''ExportTx'' ''exportTx''),
      (''exportTxs'', listOf ''ExportTx'')]"

definition fheRegister :: "(string \<times> resolver) list" where
  "fheRegister =
     [(''dkgCeremony'', byId ''DKGCeremony'' ''dkgCeremony''),
      (''dkgCeremonies'', listOf ''DKGCeremony''),
      (''decryptionRequest'', byId ''DecryptionRequest'' ''decryptionRequest''),
      (''decryptionRequests'', listOf ''DecryptionRequest''),
      (''computeJob'', byId ''ComputeJob'' ''computeJob''),
      (''computeJobs'', listOf ''ComputeJob''),
      (''ciphertext'', byId ''Ciphertext'' ''ciphertext''),
      (''ciphertexts'', listOf ''Ciphertext''),
      (''keyShare'', byId ''KeyShare'' ''keyShare''),
      (''keyShares'', listOf ''KeyShare''),
      (''fheStats'', single ''FHEStats''),
      (''fhePolicy'', byId ''FHEPolicy'' ''fhePolicy''),
      (''fhePolicies'', listOf ''FHEPolicy''),
      (''fhePolicyBinding'', byId ''FHEPolicyBinding'' ''fhePolicyBinding''),
      (''fhePolicyBindings'', listOf ''FHEPolicyBinding'')]"

definition governanceRegister :: "(string \<times> resolver) list" where
  "governanceRegister =
     [(''proposal'', byId ''Proposal'' ''proposal''),
      (''proposals'', listOf ''Proposal''),
      (''vote'', byId ''Vote'' ''vote''),
      (''votes'', listOf ''Vote''),
      (''delegation'', byId ''Delegation'' ''delegation''),
      (''delegations'', listOf ''Delegation''),
      (''governanceStats'', single ''GovernanceStats'')]"

definition identityRegister :: "(string \<times> resolver) list" where
  "identityRegister =
     [(''did'', byId ''DID'' ''did''),
      (''dids'', listOf ''DID''),
      (''verifiableCredential'', byId ''VerifiableCredential'' ''verifiableCredential''),
      (''verifiableCredentials'', listOf ''VerifiableCredential''),
      (''attestation'', byId ''Attestation'' ''attestation''),
      (''attestations'', listOf ''Attestation''),
      (''identityRegistry'', byId ''IdentityRegistry'' ''identityRegistry''),
      (''identityRegistries'', listOf ''IdentityRegistry''),
      (''credentialSchema'', byId ''CredentialSchema'' ''credentialSchema''),
      (''credentialSchemas'', listOf ''CredentialSchema''),
      (''identityStats'', single ''IdentityStats'')]"

definition keyRegister :: "(string \<times> resolver) list" where
  "keyRegister =
     [(''managedKey'', byId ''ManagedKey'' ''managedKey''),
      (''managedKeys'', listOf ''ManagedKey''),
      (''keyRotation'', byId ''KeyRotation'' ''keyRotation''),
      (''keyRotations'', listOf ''KeyRotation''),
      (''keyShare'', byId ''KeyShare'' ''keyShare''),
      (''keyShares'', listOf ''KeyShare''),
      (''keyCeremony'', byId ''KeyCeremony'' ''keyCeremony''),
      (''keyCeremonies'', listOf ''KeyCeremony''),
      (''keyAttestation'', byId ''KeyAttestation'' ''keyAttestation''),
      (''keyAttestations'', listOf ''KeyAttestation''),
      (''keyStats'', single ''KeyStats'')]"

definition liquidRegister :: "(string \<times> resolver) list" where
  "liquidRegister =
     [(''liquidStake'', byId ''LiquidStake'' ''liquidStake''),
      (''liquidStakes'', listOf ''LiquidStake''),
      (''liquidUnstake'', byId ''LiquidUnstake'' ''liquidUnstake''),
      (''liquidUnstakes'', listOf ''LiquidUnstake''),
      (''liquidReward'', byId ''LiquidReward'' ''liquidReward''),
      (''liquidRewards'', listOf ''LiquidReward''),
      (''liquidValidator'', byId ''LiquidValidator'' ''liquidValidator''),
      (''liquidValidators'', listOf ''LiquidValidator''),
      (''liquidStats'', single ''LiquidStats'')]"

definition liquidityRegister :: "(string \<times> resolver) list" where
  "liquidityRegister =
     [(''crossChainSwap'', byId ''CrossChainSwap'' ''CrossChainSwap''),
      (''crossChainSwaps'', listOf ''CrossChainSwap''),
      (''limitOrder'', byId ''LimitOrder'' ''LimitOrder''),
      (''limitOrders'', listOf ''LimitOrder''),
      (''arbitrage'', byId ''Arbitrage'' ''Arbitrage''),
      (''arbitrages'', listOf ''Arbitrage''),
      (''omaPool'', byId ''OMAPool'' ''OMAPool''),
      (''omaPools'', listOf ''OMAPool''),
      (''omaSwap'', byId ''OMASwap'' ''OMASwap''),
      (''omaSwaps'', listOf ''OMASwap''),
      (''priceUpdate'', byId ''PriceUpdate'' ''PriceUpdate''),
      (''priceUpdates'', listOf ''PriceUpdate''),
      (''strategyOrder'', byId ''StrategyOrder'' ''StrategyOrder''),
      (''strategyOrders'', listOf ''StrategyOrder''),
      (''marketMaker'', byId ''MarketMaker'' ''MarketMaker''),
      (''marketMakers'', listOf ''MarketMaker''),
      (''bridgeTransfer'', byId ''BridgeTransfer'' ''BridgeTransfer''),
      (''bridgeTransfers'', listOf ''BridgeTransfer''),
      (''liquidityStats'', single ''LiquidityStats'')]"

definition liquidprotocolRegister :: "(string \<times> resolver) list" where
  "liquidprotocolRegister =
     [(''liquidFee'', byId ''LiquidFee'' ''LiquidFee''),
      (''liquidFees'', listOf ''LiquidFee''),
      (''validatorReward'', byId ''ValidatorReward'' ''ValidatorReward''),
      (''validatorRewards'', listOf ''ValidatorReward''),
      (''slashingEvent'', byId ''SlashingEvent'' ''SlashingEvent''),
      (''slashingEvents'', listOf ''SlashingEvent''),
      (''depositMint'', byId ''DepositMint'' ''DepositMint''),
      (''depositMints'', listOf ''DepositMint''),
      (''yieldMint'', byId ''YieldMint'' ''YieldMint''),
      (''yieldMints'', listOf ''YieldMint''),
      (''withdrawBurn'', byId ''WithdrawBurn'' ''WithdrawBurn''),
      (''withdrawBurns'', listOf ''WithdrawBurn''),
      (''backingUpdate'', byId ''BackingUpdate'' ''BackingUpdate''),
      (''backingUpdates'', listOf ''BackingUpdate''),
      (''vaultStrategy'', byId ''VaultStrategy'' ''VaultStrategy''),
      (''vaultStrategies'', listOf ''VaultStrategy''),
      (''yieldHarvest'', byId ''YieldHarvest'' ''YieldHarvest''),
      (''yieldHarvests'', listOf ''YieldHarvest''),
      (''liquidProtocolStats'', single ''LiquidProtocolStats'')]"

definition mpcRegister :: "(string \<times> resolver) list" where
  "mpcRegister =
     [(''signingSession'', byId ''SigningSession'' ''signingSession''),
      (''signingSessions'', listOf ''SigningSession''),
      (''keygenSession'', byId ''KeygenSession'' ''keygenSession''),
      (''keygenSessions'', listOf ''KeygenSession''),
      (''signerSet'', byId ''SignerSet'' ''signerSet''),
      (''signerSets'', listOf ''SignerSet''),
      (''presignature'', byId ''Presignature'' ''presignature''),
      (''presignatures'', listOf ''Presignature''),
      (''signRequest'', byId ''SignRequest'' ''signRequest''),
      (''signRequests'', listOf ''SignRequest''),
      (''mpcStats'', single ''MPCStats'')]"

definition oracleRegister :: "(string \<times> resolver) list" where
  "oracleRegister =
     [(''priceFeed'', byId ''PriceFeed'' ''priceFeed''),
      (''priceFeeds'', listOf ''PriceFeed''),
      (''dataRequest'', byId ''DataRequest'' ''dataRequest''),
      (''dataRequests'', listOf ''DataRequest''),
      (''oracleReport'', byId ''OracleReport'' ''oracleReport''),
      (''oracleReports'', listOf ''OracleReport''),
      (''oracleNode'', byId ''OracleNode'' ''oracleNode''),
      (''oracleNodes'', listOf ''OracleNode''),
      (''dataAttestation'', byId ''DataAttestation'' ''dataAttestation''),
      (''dataAttestations'', listOf ''DataAttestation''),
      (''oracleStats'', single ''OracleStats'')]"

definition platformRegister :: "(string \<times> resolver) list" where
  "platformRegister =
     [(''validator'', byArg ''id'' ''Validator'' ''validator requires id (NodeID)''),
      (''validators'', listOf ''Validator''),
      (''delegator'', byId ''Delegator'' ''delegator''),
      (''delegators'', listOf ''Delegator''),
      (''subnet'', byId ''Subnet'' ''subnet''),
      (''subnets'', listOf ''Subnet''),
      (''blockchain'', byId ''Blockchain'' ''blockchain''),
      (''blockchains'', listOf ''Blockchain''),
      (''stakingReward'', byId ''StakingReward'' ''stakingReward''),
      (''stakingRewards'', listOf ''StakingReward''),
      (''networkStats'', single ''NetworkStats'')]"

definition precompileRegister :: "(string \<times> resolver) list" where
  "precompileRegister =
     [(''precompileCall'', byId ''PrecompileCall'' ''precompileCall''),
      (''precompileCalls'', listOf ''PrecompileCall''),
      (''aiWorkProof'', byId ''AIWorkProof'' ''AIWorkProof''),
      (''aiWorkProofs'', listOf ''AIWorkProof''),
      (''fheOperation'', byId ''FHEOperation'' ''FHEOperation''),
      (''fheOperations'', listOf ''FHEOperation''),
      (''fheACLGrant'', byId ''FHEACLGrant'' ''FHEACLGrant''),
      (''fheACLGrants'', listOf ''FHEACLGrant''),
      (''fheGatewayRequest'', byId ''FHEGatewayRequest'' ''FHEGatewayRequest''),
      (''fheGatewayRequests'', listOf ''FHEGatewayRequest''),
      (''cryptoOp'', byId ''CryptoOp'' ''CryptoOp''),
      (''cryptoOps'', listOf ''CryptoOp''),
      (''zkVerification'', byId ''ZKVerification'' ''ZKVerification''),
      (''zkVerifications'', listOf ''ZKVerification''),
      (''privacyPoolOp'', byId ''PrivacyPoolOp'' ''PrivacyPoolOp''),
      (''privacyPoolOps'', listOf ''PrivacyPoolOp''),
      (''rollupVerification'', byId ''RollupVerification'' ''RollupVerification''),
      (''rollupVerifications'', listOf ''RollupVerification''),
      (''warpCall'', byId ''WarpCall'' ''WarpCall''),
      (''warpCalls'', listOf ''WarpCall''),
      (''dexPrecompileOrder'', byId ''DEXPrecompileOrder'' ''DEXPrecompileOrder''),
      (''dexPrecompileOrders'', listOf ''DEXPrecompileOrder''),
      (''ringSignature'', byId ''RingSignature'' ''RingSignature''),
      (''ringSignatures'', listOf ''RingSignature''),
      (''graphSchemaUpdate'', byId ''GraphSchemaUpdate'' ''GraphSchemaUpdate''),
      (''graphSchemaUpdates'', listOf ''GraphSchemaUpdate''),
      (''pqCryptoOp'', byId ''PQCryptoOp'' ''PQCryptoOp''),
      (''pqCryptoOps'', listOf ''PQCryptoOp''),
      (''thresholdOp'', byId ''ThresholdOp'' ''ThresholdOp''),
      (''thresholdOps'', listOf ''ThresholdOp''),
      (''precompileStats'', single ''PrecompileStats'')]"

text \<open>The known precompiles, a table for readers of the package.\<close>

definition Addresses :: "string gomap" where
  "Addresses =
     [(''warp'', ''0x0200000000000000000000000000000000000007''),
      (''aiMining'', ''0x0300000000000000000000000000000000000000''),
      (''poseidon2'', ''0x0500000000000000000000000000000000000001''),
      (''pedersen'', ''0x0500000000000000000000000000000000000003''),
      (''ed25519'', ''0x0500000000000000000000000000000000000004''),
      (''fhe'', ''0x0700000000000000000000000000000000000000''),
      (''fheACL'', ''0x0700000000000000000000000000000000000001''),
      (''fheGateway'', ''0x0700000000000000000000000000000000000003''),
      (''zkVerify'', ''0x0900000000000000000000000000000000000000''),
      (''groth16'', ''0x0900000000000000000000000000000000000001''),
      (''plonk'', ''0x0900000000000000000000000000000000000002''),
      (''fflonk'', ''0x0900000000000000000000000000000000000003''),
      (''halo2'', ''0x0900000000000000000000000000000000000004''),
      (''kzg'', ''0x0900000000000000000000000000000000000010''),
      (''ipa'', ''0x0900000000000000000000000000000000000012''),
      (''privacyPool'', ''0x0900000000000000000000000000000000000020''),
      (''nullifier'', ''0x0900000000000000000000000000000000000021''),
      (''commitment'', ''0x0900000000000000000000000000000000000022''),
      (''rangeProof'', ''0x0900000000000000000000000000000000000023''),
      (''rollupVerify'', ''0x0900000000000000000000000000000000000030''),
      (''stateRoot'', ''0x0900000000000000000000000000000000000031''),
      (''batchProof'', ''0x0900000000000000000000000000000000000032''),
      (''graph'', ''0x0A00000000000000000000000000000000000001''),
      (''blake3'', ''0x9003''),
      (''dexLimit'', ''0x9200''),
      (''dexMarket'', ''0x9201''),
      (''dexCancel'', ''0x9202''),
      (''corona'', ''0xB002'')]"

lemma precompiles_told_apart: "distinct (map fst Addresses) \<and> distinct (map (toLower \<circ> snd) Addresses)"
  by code_simp

definition predictionRegister :: "(string \<times> resolver) list" where
  "predictionRegister =
     [(''predictionMarket'', byId ''PredictionMarket'' ''predictionMarket''),
      (''predictionMarkets'', listOf ''PredictionMarket''),
      (''predictionPosition'', byId ''PredictionPosition'' ''predictionPosition''),
      (''predictionPositions'', listOf ''PredictionPosition''),
      (''predictionResolution'', byId ''PredictionResolution'' ''predictionResolution''),
      (''predictionResolutions'', listOf ''PredictionResolution''),
      (''predictionStats'', single ''PredictionStats'')]"

definition privacyRegister :: "(string \<times> resolver) list" where
  "privacyRegister =
     [(''shieldedTransfer'', byId ''ShieldedTransfer'' ''shieldedTransfer''),
      (''shieldedTransfers'', listOf ''ShieldedTransfer''),
      (''zkProof'', byId ''ZKProof'' ''zkProof''),
      (''zkProofs'', listOf ''ZKProof''),
      (''nullifier'', byId ''Nullifier'' ''nullifier''),
      (''nullifiers'', listOf ''Nullifier''),
      (''commitment'', byId ''Commitment'' ''commitment''),
      (''commitments'', listOf ''Commitment''),
      (''privacyPool'', byId ''PrivacyPool'' ''privacyPool''),
      (''privacyPools'', listOf ''PrivacyPool'')]"

definition quantumRegister :: "(string \<times> resolver) list" where
  "quantumRegister =
     [(''coronaSignature'', byId ''CoronaSignature'' ''coronaSignature''),
      (''coronaSignatures'', listOf ''CoronaSignature''),
      (''quantumProof'', byId ''QuantumProof'' ''quantumProof''),
      (''quantumProofs'', listOf ''QuantumProof''),
      (''pqKeyPair'', byId ''PQKeyPair'' ''pqKeyPair''),
      (''pqKeyPairs'', listOf ''PQKeyPair''),
      (''quantumFinality'', byId ''QuantumFinality'' ''quantumFinality''),
      (''quantumFinalitys'', listOf ''QuantumFinality''),
      (''quantumAttestation'', byId ''QuantumAttestation'' ''quantumAttestation''),
      (''quantumAttestations'', listOf ''QuantumAttestation''),
      (''quantumStats'', single ''QuantumStats'')]"

definition relayRegister :: "(string \<times> resolver) list" where
  "relayRegister =
     [(''warpMessage'', byId ''WarpMessage'' ''warpMessage''),
      (''warpMessages'', listOf ''WarpMessage''),
      (''relayRequest'', byId ''RelayRequest'' ''relayRequest''),
      (''relayRequests'', listOf ''RelayRequest''),
      (''relayProof'', byId ''RelayProof'' ''relayProof''),
      (''relayProofs'', listOf ''RelayProof''),
      (''relayRoute'', byId ''RelayRoute'' ''relayRoute''),
      (''relayRoutes'', listOf ''RelayRoute''),
      (''messageReceipt'', byId ''MessageReceipt'' ''messageReceipt''),
      (''messageReceipts'', listOf ''MessageReceipt''),
      (''relayStats'', single ''RelayStats'')]"

definition securitiesRegister :: "(string \<times> resolver) list" where
  "securitiesRegister =
     [(''securityIssuance'', byId ''SecurityIssuance'' ''securityIssuance''),
      (''securityIssuances'', listOf ''SecurityIssuance''),
      (''securityTransfer'', byId ''SecurityTransfer'' ''securityTransfer''),
      (''securityTransfers'', listOf ''SecurityTransfer''),
      (''securityDividend'', byId ''SecurityDividend'' ''securityDividend''),
      (''securityDividends'', listOf ''SecurityDividend''),
      (''securityCompliance'', byId ''SecurityCompliance'' ''securityCompliance''),
      (''securityCompliances'', listOf ''SecurityCompliance''),
      (''securityStats'', single ''SecurityStats''),
      (''onchainIdClaim'', byId ''OnchainIdClaim'' ''onchainIdClaim''),
      (''onchainIdClaims'', listOf ''OnchainIdClaim''),
      (''transferAgentAction'', byId ''TransferAgentAction'' ''transferAgentAction''),
      (''transferAgentActions'', listOf ''TransferAgentAction''),
      (''frozenAccount'', byId ''FrozenAccount'' ''frozenAccount''),
      (''frozenAccounts'', listOf ''FrozenAccount''),
      (''frozenTokens'', byId ''FrozenTokens'' ''frozenTokens''),
      (''frozenTokensList'', listOf ''FrozenTokens''),
      (''identityRegistryAction'', byId ''IdentityRegistryAction'' ''identityRegistryAction''),
      (''identityRegistryActions'', listOf ''IdentityRegistryAction'')]"

definition servicenodeRegister :: "(string \<times> resolver) list" where
  "servicenodeRegister =
     [(''serviceNode'', byId ''ServiceNode'' ''serviceNode''),
      (''serviceNodes'', listOf ''ServiceNode''),
      (''serviceRegistration'', byId ''ServiceRegistration'' ''serviceRegistration''),
      (''serviceRegistrations'', listOf ''ServiceRegistration''),
      (''slaRecord'', byId ''SLARecord'' ''slaRecord''),
      (''slaRecords'', listOf ''SLARecord''),
      (''uptimeProof'', byId ''UptimeProof'' ''uptimeProof''),
      (''uptimeProofs'', listOf ''UptimeProof''),
      (''serviceEndpoint'', byId ''ServiceEndpoint'' ''serviceEndpoint''),
      (''serviceEndpoints'', listOf ''ServiceEndpoint''),
      (''serviceStats'', single ''ServiceStats'')]"

definition treasuryRegister :: "(string \<times> resolver) list" where
  "treasuryRegister =
     [(''treasuryDeposit'', byId ''TreasuryDeposit'' ''treasuryDeposit''),
      (''treasuryDeposits'', listOf ''TreasuryDeposit''),
      (''treasuryWithdrawal'', byId ''TreasuryWithdrawal'' ''treasuryWithdrawal''),
      (''treasuryWithdrawals'', listOf ''TreasuryWithdrawal''),
      (''treasuryAllocation'', byId ''TreasuryAllocation'' ''treasuryAllocation''),
      (''treasuryAllocations'', listOf ''TreasuryAllocation''),
      (''treasuryBudget'', byId ''TreasuryBudget'' ''treasuryBudget''),
      (''treasuryBudgets'', listOf ''TreasuryBudget''),
      (''treasuryStats'', single ''TreasuryStats'')]"

definition utxoRegister :: "(string \<times> resolver) list" where
  "utxoRegister =
     [(''utxo'', byId ''UTXO'' ''utxo''),
      (''utxos'', listOf ''UTXO''),
      (''asset'', byId ''Asset'' ''asset''),
      (''assets'', listOf ''Asset''),
      (''assetCreateTx'', byId ''AssetCreateTx'' ''assetCreateTx''),
      (''assetCreateTxs'', listOf ''AssetCreateTx''),
      (''utxoBalance'', byArg ''address'' ''UTXOBalance'' ''utxoBalance requires address''),
      (''utxoStats'', single ''UTXOStats'')]"

definition zkRegister :: "(string \<times> resolver) list" where
  "zkRegister =
     [(''zkProof'', byId ''ZKProof'' ''zkProof''),
      (''zkProofs'', listOf ''ZKProof''),
      (''zkVerifier'', byId ''Verifier'' ''zkVerifier''),
      (''zkVerifiers'', listOf ''Verifier''),
      (''circuitHash'', byId ''CircuitHash'' ''circuitHash''),
      (''circuitHashes'', listOf ''CircuitHash''),
      (''proofBatch'', byId ''ProofBatch'' ''proofBatch''),
      (''proofBatches'', listOf ''ProofBatch''),
      (''zkSession'', byId ''ZKSession'' ''zkSession''),
      (''zkStats'', single ''ZKStats'')]"

lemmas register_defs =
  aiRegister_def bridgeRegister_def daoRegister_def derivativesRegister_def
  dexRegister_def didRegister_def exchangeRegister_def fheRegister_def
  governanceRegister_def identityRegister_def keyRegister_def liquidRegister_def
  liquidityRegister_def liquidprotocolRegister_def mpcRegister_def oracleRegister_def
  platformRegister_def precompileRegister_def predictionRegister_def privacyRegister_def
  quantumRegister_def relayRegister_def securitiesRegister_def servicenodeRegister_def
  treasuryRegister_def utxoRegister_def zkRegister_def

end
