(* ===== verification/AmmResolvers.thy ===== *)
theory AmmResolvers
  imports Resolvers StoreQuery
begin

text \<open>
  The built-in resolvers of package \<open>engine\<close>: the Uniswap-compatible ones (src/engine/amm.go and
  src/engine/v4.go), the core chain ones (src/engine/resolvers.go), and the collections of the map
  backend that hold nothing (src/storage/store_memory.go).  \<open>requireId\<close> and \<open>listWith\<close> are the two
  bodies the files repeat: read by the \<open>id\<close> argument or fail, and list with the four list
  arguments.
\<close>

section \<open>Collections the map backend does not keep\<close>

definition noRow :: "store \<Rightarrow> string \<Rightarrow> val" where
  "noRow s i = VNil"

definition noRows :: "store \<Rightarrow> int \<Rightarrow> string \<Rightarrow> string \<Rightarrow> val gomap \<Rightarrow> val" where
  "noRows s limit orderBy orderDirection conds = VList []"

definition GetMint :: "store \<Rightarrow> string \<Rightarrow> val" where "GetMint = noRow"
definition GetBurn :: "store \<Rightarrow> string \<Rightarrow> val" where "GetBurn = noRow"
definition GetTick :: "store \<Rightarrow> string \<Rightarrow> val" where "GetTick = noRow"
definition GetPosition :: "store \<Rightarrow> string \<Rightarrow> val" where "GetPosition = noRow"
definition GetCollect :: "store \<Rightarrow> string \<Rightarrow> val" where "GetCollect = noRow"
definition GetFlash :: "store \<Rightarrow> string \<Rightarrow> val" where "GetFlash = noRow"
definition GetTransfer :: "store \<Rightarrow> string \<Rightarrow> val" where "GetTransfer = noRow"
definition GetNFT :: "store \<Rightarrow> string \<Rightarrow> val" where "GetNFT = noRow"
definition GetModifyLiquidity :: "store \<Rightarrow> string \<Rightarrow> val" where "GetModifyLiquidity = noRow"
definition GetSubscribe :: "store \<Rightarrow> string \<Rightarrow> val" where "GetSubscribe = noRow"
definition GetUnsubscribe :: "store \<Rightarrow> string \<Rightarrow> val" where "GetUnsubscribe = noRow"
definition GetBlock :: "store \<Rightarrow> string \<Rightarrow> val" where "GetBlock = noRow"
definition GetBlockByNumber :: "store \<Rightarrow> string \<Rightarrow> val" where "GetBlockByNumber = noRow"
definition GetTransaction :: "store \<Rightarrow> string \<Rightarrow> val" where "GetTransaction = noRow"
definition GetMints :: "store \<Rightarrow> int \<Rightarrow> string \<Rightarrow> string \<Rightarrow> val gomap \<Rightarrow> val" where "GetMints = noRows"
definition GetBurns :: "store \<Rightarrow> int \<Rightarrow> string \<Rightarrow> string \<Rightarrow> val gomap \<Rightarrow> val" where "GetBurns = noRows"
definition GetTicks :: "store \<Rightarrow> int \<Rightarrow> string \<Rightarrow> string \<Rightarrow> val gomap \<Rightarrow> val" where "GetTicks = noRows"
definition GetPositions :: "store \<Rightarrow> int \<Rightarrow> string \<Rightarrow> string \<Rightarrow> val gomap \<Rightarrow> val" where "GetPositions = noRows"
definition GetCollects :: "store \<Rightarrow> int \<Rightarrow> string \<Rightarrow> string \<Rightarrow> val gomap \<Rightarrow> val" where "GetCollects = noRows"
definition GetFlashes :: "store \<Rightarrow> int \<Rightarrow> string \<Rightarrow> string \<Rightarrow> val gomap \<Rightarrow> val" where "GetFlashes = noRows"
definition GetPairDayDatas :: "store \<Rightarrow> int \<Rightarrow> string \<Rightarrow> string \<Rightarrow> val gomap \<Rightarrow> val" where "GetPairDayDatas = noRows"
definition GetPairHourDatas :: "store \<Rightarrow> int \<Rightarrow> string \<Rightarrow> string \<Rightarrow> val gomap \<Rightarrow> val" where "GetPairHourDatas = noRows"
definition GetTransfers :: "store \<Rightarrow> int \<Rightarrow> string \<Rightarrow> string \<Rightarrow> val gomap \<Rightarrow> val" where "GetTransfers = noRows"
definition GetNFTs :: "store \<Rightarrow> int \<Rightarrow> string \<Rightarrow> string \<Rightarrow> val gomap \<Rightarrow> val" where "GetNFTs = noRows"
definition GetModifyLiquiditys :: "store \<Rightarrow> int \<Rightarrow> string \<Rightarrow> string \<Rightarrow> val gomap \<Rightarrow> val" where "GetModifyLiquiditys = noRows"
definition GetSubscribes :: "store \<Rightarrow> int \<Rightarrow> string \<Rightarrow> string \<Rightarrow> val gomap \<Rightarrow> val" where "GetSubscribes = noRows"
definition GetUnsubscribes :: "store \<Rightarrow> int \<Rightarrow> string \<Rightarrow> string \<Rightarrow> val gomap \<Rightarrow> val" where "GetUnsubscribes = noRows"
definition GetPoolHourDatas :: "store \<Rightarrow> int \<Rightarrow> string \<Rightarrow> string \<Rightarrow> val gomap \<Rightarrow> val" where "GetPoolHourDatas = noRows"
definition GetTokenHourDatas :: "store \<Rightarrow> int \<Rightarrow> string \<Rightarrow> string \<Rightarrow> val gomap \<Rightarrow> val" where "GetTokenHourDatas = noRows"

definition GetLatestBlock :: "store \<Rightarrow> val" where "GetLatestBlock s = VNil"
definition GetBlocks :: "store \<Rightarrow> int \<Rightarrow> val" where "GetBlocks s limit = VList []"
definition GetTransactions :: "store \<Rightarrow> int \<Rightarrow> val" where "GetTransactions s limit = VList []"

definition GetPair :: "store \<Rightarrow> string \<Rightarrow> val" where "GetPair = GetPool"
definition GetPairs :: "store \<Rightarrow> int \<Rightarrow> string \<Rightarrow> string \<Rightarrow> val gomap \<Rightarrow> val" where "GetPairs = GetPools"

definition GetTokenDayDatas :: "store \<Rightarrow> int \<Rightarrow> string \<Rightarrow> string \<Rightarrow> val gomap \<Rightarrow> val" where
  "GetTokenDayDatas s = Entities s TokenDay"
definition GetPoolDayDatas :: "store \<Rightarrow> int \<Rightarrow> string \<Rightarrow> string \<Rightarrow> val gomap \<Rightarrow> val" where
  "GetPoolDayDatas s = Entities s PoolDay"
definition GetFactoryDayDatas :: "store \<Rightarrow> int \<Rightarrow> string \<Rightarrow> string \<Rightarrow> val gomap \<Rightarrow> val" where
  "GetFactoryDayDatas s = Entities s FactoryDay"

section \<open>Arguments\<close>

definition argText :: "val gomap \<Rightarrow> string \<Rightarrow> string" where
  "argText args k = (case getKey args k of Some v \<Rightarrow> sprint v | None \<Rightarrow> '''')"

definition parseListArgs :: "val gomap \<Rightarrow> int \<Rightarrow> int \<times> string \<times> string \<times> val gomap" where
  "parseListArgs args defaultLimit =
     (let l = readFirst args defaultLimit;
          l1 = (if l < 1 then 1 else l);
          limit = (if l1 > 1000 then 1000 else l1);
          conds = (case getKey args ''where'' of Some (VMap m) \<Rightarrow> m | _ \<Rightarrow> [])
      in (limit, argText args ''orderBy'', argText args ''orderDirection'', conds))"

definition requireId :: "string \<Rightarrow> (string \<Rightarrow> val) \<Rightarrow> val gomap \<Rightarrow> string + val" where
  "requireId err get args =
     (case getKey args ''id'' of Some i \<Rightarrow> Inr (get (sprint i)) | None \<Rightarrow> Inl err)"

definition listWith ::
  "int \<Rightarrow> (int \<Rightarrow> string \<Rightarrow> string \<Rightarrow> val gomap \<Rightarrow> val) \<Rightarrow> val gomap \<Rightarrow> string + val" where
  "listWith defaultLimit get args =
     (case parseListArgs args defaultLimit of
        (limit, orderBy, orderDir, conds) \<Rightarrow> Inr (get limit orderBy orderDir conds))"

definition idOr :: "string \<Rightarrow> val gomap \<Rightarrow> string" where
  "idOr dflt args = (case getKey args ''id'' of Some v \<Rightarrow> sprint v | None \<Rightarrow> dflt)"

section \<open>Resolvers\<close>

definition resolveFactory :: resolver where
  "resolveFactory s args = Inr (GetFactory s (idOr ''1'' args))"

definition resolveFactories :: resolver where
  "resolveFactories s args = Inr (GetFactories s)"

definition resolveBundle :: resolver where
  "resolveBundle s args = Inr (GetBundle s ''1'')"

definition resolveBundles :: resolver where
  "resolveBundles s args =
     (let b = GetBundle s ''1'' in Inr (if b = VNil then VList [] else VList [b]))"

definition resolvePoolManager :: resolver where
  "resolvePoolManager s args = Inr (GetFactory s (idOr ''1'' args))"

definition resolvePoolManagers :: resolver where
  "resolvePoolManagers s args = Inr (GetFactories s)"

definition resolveBlock :: resolver where
  "resolveBlock s args =
     (case getKey args ''id'' of
        Some i \<Rightarrow> Inr (GetBlock s (sprint i))
      | None \<Rightarrow>
          (case getKey args ''number'' of
             Some n \<Rightarrow> Inr (GetBlockByNumber s (sprint n))
           | None \<Rightarrow> Inr (GetLatestBlock s)))"

definition resolveBlocks :: resolver where
  "resolveBlocks s args = Inr (GetBlocks s (min (readFirst args 25) 1000))"

definition resolveTransaction :: resolver where
  "resolveTransaction s args = requireId ''transaction requires id argument'' (GetTransaction s) args"

definition resolveTransactions :: resolver where
  "resolveTransactions s args = Inr (GetTransactions s (readFirst args 25))"

definition resolveToken :: resolver where
  "resolveToken s args = requireId ''token requires id argument'' (GetToken s) args"

definition resolvePool :: resolver where
  "resolvePool s args = requireId ''pool requires id'' (GetPool s) args"

definition resolvePools :: resolver where
  "resolvePools s args = listWith 100 (GetPools s) args"

definition resolvePair :: resolver where
  "resolvePair s args = requireId ''pair requires id'' (GetPair s) args"

definition resolvePairs :: resolver where
  "resolvePairs s args = listWith 100 (GetPairs s) args"

definition resolveSwap :: resolver where
  "resolveSwap s args = requireId ''swap requires id'' (GetSwap s) args"

definition resolveSwaps :: resolver where
  "resolveSwaps s args = listWith 100 (GetSwaps s) args"

definition resolveMint :: resolver where
  "resolveMint s args = requireId ''mint requires id'' (GetMint s) args"

definition resolveMints :: resolver where
  "resolveMints s args = listWith 100 (GetMints s) args"

definition resolveBurn :: resolver where
  "resolveBurn s args = requireId ''burn requires id'' (GetBurn s) args"

definition resolveBurns :: resolver where
  "resolveBurns s args = listWith 100 (GetBurns s) args"

definition resolveTick :: resolver where
  "resolveTick s args = requireId ''tick requires id'' (GetTick s) args"

definition resolveTicks :: resolver where
  "resolveTicks s args = listWith 100 (GetTicks s) args"

definition resolvePosition :: resolver where
  "resolvePosition s args = requireId ''position requires id'' (GetPosition s) args"

definition resolvePositions :: resolver where
  "resolvePositions s args = listWith 100 (GetPositions s) args"

definition resolveTokenDayDatas :: resolver where
  "resolveTokenDayDatas s args = listWith 30 (GetTokenDayDatas s) args"

definition resolvePairDayDatas :: resolver where
  "resolvePairDayDatas s args = listWith 30 (GetPairDayDatas s) args"

definition resolvePoolDayDatas :: resolver where
  "resolvePoolDayDatas s args = listWith 30 (GetPoolDayDatas s) args"

definition resolveFactoryDayDatas :: resolver where
  "resolveFactoryDayDatas s args = listWith 30 (GetFactoryDayDatas s) args"

definition resolveTransfer :: resolver where
  "resolveTransfer s args = requireId ''transfer requires id'' (GetTransfer s) args"

definition resolveTransfers :: resolver where
  "resolveTransfers s args = listWith 100 (GetTransfers s) args"

definition resolveNFT :: resolver where
  "resolveNFT s args = requireId ''nft requires id'' (GetNFT s) args"

definition resolveNFTs :: resolver where
  "resolveNFTs s args = listWith 100 (GetNFTs s) args"

definition resolveCollect :: resolver where
  "resolveCollect s args = requireId ''collect requires id'' (GetCollect s) args"

definition resolveCollects :: resolver where
  "resolveCollects s args = listWith 100 (GetCollects s) args"

definition resolveFlash :: resolver where
  "resolveFlash s args = requireId ''flash requires id'' (GetFlash s) args"

definition resolveFlashes :: resolver where
  "resolveFlashes s args = listWith 100 (GetFlashes s) args"

definition resolvePairHourDatas :: resolver where
  "resolvePairHourDatas s args = listWith 24 (GetPairHourDatas s) args"

definition resolveModifyLiquidity :: resolver where
  "resolveModifyLiquidity s args = requireId ''modifyLiquidity requires id'' (GetModifyLiquidity s) args"

definition resolveModifyLiquiditys :: resolver where
  "resolveModifyLiquiditys s args = listWith 100 (GetModifyLiquiditys s) args"

definition resolveSubscribe :: resolver where
  "resolveSubscribe s args = requireId ''subscribe requires id'' (GetSubscribe s) args"

definition resolveSubscribes :: resolver where
  "resolveSubscribes s args = listWith 100 (GetSubscribes s) args"

definition resolveUnsubscribe :: resolver where
  "resolveUnsubscribe s args = requireId ''unsubscribe requires id'' (GetUnsubscribe s) args"

definition resolveUnsubscribes :: resolver where
  "resolveUnsubscribes s args = listWith 100 (GetUnsubscribes s) args"

definition resolvePoolHourDatas :: resolver where
  "resolvePoolHourDatas s args = listWith 24 (GetPoolHourDatas s) args"

definition resolveTokenHourDatas :: resolver where
  "resolveTokenHourDatas s args = listWith 24 (GetTokenHourDatas s) args"

definition resolveUniswapDayDatas :: resolver where
  "resolveUniswapDayDatas s args = listWith 30 (GetFactoryDayDatas s) args"

definition resolveTokens :: resolver where
  "resolveTokens s args = listWith 100 (GetTokens s) args"

end
