(* ===== verification/QueryParser.thy ===== *)
theory QueryParser
  imports Value
begin

text \<open>
  The query scanner of src/engine/engine.go: \<open>parseTopFields\<close>, \<open>parseField\<close>, \<open>parseArgs\<close>, the two
  bracket matchers and \<open>queryDepth\<close>.

  A scanner position is an index into the document, as in the code, and a loop is a recursive
  function whose measure is the rest of the document, so every scan ends.  A Go slice
  expression that is out of range panics; the result of a parse is then \<open>Panics\<close>.  The result
  \<open>-1\<close> of a matcher is None.
\<close>

datatype 'a outcome = Panics | Fails string | Gives 'a

definition isSpaceByte :: "char \<Rightarrow> bool" where
  "isSpaceByte c = (c = CHR '' '' \<or> byteOf c = 9 \<or> byteOf c = 10 \<or> byteOf c = 13)"

function scanName :: "string \<Rightarrow> nat \<Rightarrow> nat" where
  "scanName s i =
     (if i < length s \<and> \<not> isSpaceByte (s ! i) \<and> s ! i \<noteq> CHR ''('' \<and> s ! i \<noteq> CHR ''{''
         \<and> s ! i \<noteq> CHR '':'' \<and> s ! i \<noteq> CHR '',''
      then scanName s (i + 1) else i)"
  by auto
termination by (relation "measure (\<lambda>(s, i). length s - i)") auto

function skipSpace :: "string \<Rightarrow> nat \<Rightarrow> nat" where
  "skipSpace s i = (if i < length s \<and> isSpaceByte (s ! i) then skipSpace s (i + 1) else i)"
  by auto
termination by (relation "measure (\<lambda>(s, i). length s - i)") auto

declare scanName.simps [simp del] skipSpace.simps [simp del]

definition quoteFlips :: "string \<Rightarrow> nat \<Rightarrow> bool" where
  "quoteFlips s i = (s ! i = CHR 0x22 \<and> (i = 0 \<or> s ! (i - 1) \<noteq> CHR 0x5C))"

function matchBrace :: "string \<Rightarrow> nat \<Rightarrow> int \<Rightarrow> bool \<Rightarrow> nat option" where
  "matchBrace s i depth inQuote =
     (if i \<ge> length s then None
      else if quoteFlips s i then matchBrace s (i + 1) depth (\<not> inQuote)
      else if inQuote then matchBrace s (i + 1) depth inQuote
      else if s ! i = CHR ''{'' then matchBrace s (i + 1) (depth + 1) inQuote
      else if s ! i = CHR ''}'' then
        (if depth - 1 = 0 then Some i else matchBrace s (i + 1) (depth - 1) inQuote)
      else matchBrace s (i + 1) depth inQuote)"
  by auto
termination by (relation "measure (\<lambda>(s, i, _). length s - i)") auto

declare matchBrace.simps [simp del]

definition findMatchingBrace :: "string \<Rightarrow> nat \<Rightarrow> nat option" where
  "findMatchingBrace s pos = matchBrace s pos 0 False"

function matchParen :: "string \<Rightarrow> nat \<Rightarrow> int \<Rightarrow> bool \<Rightarrow> nat option" where
  "matchParen s i depth inQuote =
     (if i \<ge> length s then None
      else if quoteFlips s i then matchParen s (i + 1) depth (\<not> inQuote)
      else if inQuote then matchParen s (i + 1) depth inQuote
      else if s ! i = CHR ''('' \<or> s ! i = CHR ''{'' then matchParen s (i + 1) (depth + 1) inQuote
      else if s ! i = CHR '')'' then
        (if depth - 1 = 0 then Some i else matchParen s (i + 1) (depth - 1) inQuote)
      else if s ! i = CHR ''}'' then matchParen s (i + 1) (depth - 1) inQuote
      else matchParen s (i + 1) depth inQuote)"
  by auto
termination by (relation "measure (\<lambda>(s, i, _). length s - i)") auto

declare matchParen.simps [simp del]

definition findMatchingParen :: "string \<Rightarrow> nat \<Rightarrow> nat option" where
  "findMatchingParen s pos = matchParen s pos 0 False"

section \<open>Arguments\<close>

function closeQuote :: "string \<Rightarrow> nat \<Rightarrow> nat" where
  "closeQuote s e =
     (if e < length s \<and> \<not> (s ! e = CHR 0x22 \<and> s ! (e - 1) \<noteq> CHR 0x5C) then closeQuote s (e + 1) else e)"
  by auto
termination by (relation "measure (\<lambda>(s, e). length s - e)") auto

declare closeQuote.simps [simp del]

text \<open>The brace matcher inside \<open>parseArgs\<close>: it does not look at quotes, and falls back to the last
  byte when nothing closes.\<close>

fun closeBrace :: "string \<Rightarrow> nat \<Rightarrow> int \<Rightarrow> nat option" where
  "closeBrace [] i depth = None"
| "closeBrace (c # cs) i depth =
     (if c = CHR ''{'' then closeBrace cs (i + 1) (depth + 1)
      else if c = CHR ''}'' then
        (if depth - 1 = 0 then Some i else closeBrace cs (i + 1) (depth - 1))
      else closeBrace cs (i + 1) depth)"

definition objectEnd :: "string \<Rightarrow> nat" where
  "objectEnd s = (case closeBrace s 0 0 of Some e \<Rightarrow> e | None \<Rightarrow> length s - 1)"

definition dropComma :: "string \<Rightarrow> string" where
  "dropComma s = (if s \<noteq> [] \<and> hd s = CHR '','' then trimSpace (tl s) else s)"

definition quotedValue :: "string \<Rightarrow> string \<times> string" where
  "quotedValue s =
     (let e = closeQuote s 1 in
      if e < length s then (substr s 1 e, trimSpace (drop (e + 1) s)) else (drop 1 s, ''''))"

definition bareValue :: "string \<Rightarrow> string \<times> string" where
  "bareValue s =
     (let e = (case indexByte s (CHR '','') of Some i \<Rightarrow> i | None \<Rightarrow> length s) in
      (trimSpace (take e s), trimSpace (drop e s)))"

lemma length_dropComma: "length (dropComma s) \<le> length s"
  by (cases s) (auto simp: dropComma_def intro: le_SucI order_trans[OF length_trimSpace])

lemma length_quotedValue: "length (snd (quotedValue s)) \<le> length s"
  by (auto simp: quotedValue_def Let_def intro!: order_trans[OF length_trimSpace])

lemma length_bareValue: "length (snd (bareValue s)) \<le> length s"
  by (auto simp: bareValue_def Let_def intro!: order_trans[OF length_trimSpace])

lemma length_after_colon:
  "s \<noteq> [] \<Longrightarrow> length (trimSpace (drop (Suc colon) s)) < length s"
  using length_trimSpace[of "drop (Suc colon) s"] by (cases s) auto

text \<open>\<open>argsLoop s args\<close> is the loop of \<open>parseArgs\<close> at the trimmed rest \<open>s\<close>; None is the panic of
  \<open>s[1:end]\<close> with \<open>end\<close> zero.\<close>

function argsLoop :: "string \<Rightarrow> val gomap \<Rightarrow> val gomap option" where
  "argsLoop s args =
     (if s = [] then Some args
      else case indexByte s (CHR '':'') of
        None \<Rightarrow> Some args
      | Some colon \<Rightarrow>
          (let key = trimSpace (take colon s); t = trimSpace (drop (colon + 1) s) in
           if t = [] then Some args
           else if hd t = CHR 0x22 then
             argsLoop (dropComma (snd (quotedValue t))) (putKey key (VStr (fst (quotedValue t))) args)
           else if hd t = CHR ''{'' then
             (let e = objectEnd t in
              if e = 0 then None
              else case argsLoop (trimSpace (trimSpace (substr t 1 e))) [] of
                     None \<Rightarrow> None
                   | Some m \<Rightarrow>
                       argsLoop (dropComma (trimSpace (drop (e + 1) t))) (putKey key (VMap m) args))
           else
             argsLoop (dropComma (snd (bareValue t))) (putKey key (VStr (fst (bareValue t))) args)))"
  by auto

termination
proof (relation "measure (\<lambda>(s, _). length s)", goal_cases)
  case (2 s args colon key t)
  then show ?case
    using length_after_colon[of s colon] length_dropComma length_quotedValue[of t] le_trans
    by (fastforce intro: le_less_trans)
next
  case (3 s args colon key t e)
  have "length (trimSpace (trimSpace (substr t 1 e))) \<le> length t"
    by (rule order_trans[OF length_trimSpace], rule order_trans[OF length_trimSpace])
      (simp add: substr_def)
  then show ?case using 3 length_after_colon[of s colon] by simp
next
  case (4 s args colon key t e m)
  have "length (dropComma (trimSpace (drop (e + 1) t))) \<le> length t"
    using length_dropComma[of "trimSpace (drop (e + 1) t)"] length_trimSpace[of "drop (e + 1) t"] by simp
  then show ?case using 4 length_after_colon[of s colon] by simp
next
  case (5 s args colon key t)
  then show ?case
    using length_after_colon[of s colon] length_dropComma[of "snd (bareValue t)"] length_bareValue[of t]
    by simp
qed simp

declare argsLoop.simps [simp del]

definition parseArgs :: "string \<Rightarrow> val gomap option" where
  "parseArgs s = argsLoop (trimSpace s) []"

section \<open>Fields\<close>

record field =
  fieldName :: string
  fieldAlias :: string
  fieldArgs :: "val gomap"

definition splitAlias :: "string \<Rightarrow> string \<times> string" where
  "splitAlias s =
     (case indexByte s (CHR '':'') of
        Some idx \<Rightarrow>
          if idx > 0 \<and> CHR ''('' \<notin> set (take idx s) \<and> CHR ''{'' \<notin> set (take idx s)
          then (trimSpace (take idx s), trimSpace (drop (idx + 1) s)) else ('''', s)
      | None \<Rightarrow> ('''', s))"

definition nameEnds :: "char \<Rightarrow> bool" where
  "nameEnds c = (c = CHR ''('' \<or> c = CHR ''{'' \<or> c = CHR '' '')"

definition parseField :: "string \<Rightarrow> field outcome" where
  "parseField s0 =
     (let s1 = trimSpace s0 in
      if s1 = [] then Fails ''empty field''
      else
        let (alias, s) = splitAlias s1;
            name = takeWhile (\<lambda>c. \<not> nameEnds c) s
        in case indexByte s (CHR ''('') of
             None \<Rightarrow> Gives \<lparr>fieldName = name, fieldAlias = alias, fieldArgs = []\<rparr>
           | Some start \<Rightarrow>
               (case findMatchingParen s start of
                  None \<Rightarrow> Gives \<lparr>fieldName = name, fieldAlias = alias, fieldArgs = []\<rparr>
                | Some e \<Rightarrow>
                    if e \<le> start then Gives \<lparr>fieldName = name, fieldAlias = alias, fieldArgs = []\<rparr>
                    else (case parseArgs (substr s (start + 1) e) of
                            None \<Rightarrow> Panics
                          | Some args \<Rightarrow> Gives \<lparr>fieldName = name, fieldAlias = alias, fieldArgs = args\<rparr>)))"

definition afterName :: "string \<Rightarrow> nat \<Rightarrow> nat" where
  "afterName body i =
     (let j = skipSpace body (scanName body i) in
      if j < length body \<and> body ! j = CHR '':''
      then skipSpace body (scanName body (skipSpace body (j + 1))) else j)"

definition afterArgs :: "string \<Rightarrow> nat \<Rightarrow> nat option" where
  "afterArgs body i =
     (if i < length body \<and> body ! i = CHR ''('' then
        (case findMatchingParen body i of
           Some closed \<Rightarrow> if closed \<le> i then None else Some (skipSpace body (closed + 1))
         | None \<Rightarrow> None)
      else Some i)"

definition afterSelection :: "string \<Rightarrow> nat \<Rightarrow> nat option" where
  "afterSelection body i =
     (if i < length body \<and> body ! i = CHR ''{'' then
        (case findMatchingBrace body i of
           Some closed \<Rightarrow> if closed \<le> i then None else Some (closed + 1)
         | None \<Rightarrow> None)
      else Some i)"

lemma scanName_le: "i \<le> scanName s i"
  by (induction s i rule: scanName.induct) (subst scanName.simps, auto)

lemma skipSpace_le: "i \<le> skipSpace s i"
  by (induction s i rule: skipSpace.induct) (subst skipSpace.simps, auto)

lemma afterName_le: "i \<le> afterName body i"
proof -
  let ?j = "skipSpace body (scanName body i)"
  have "i \<le> ?j" using scanName_le[of i body] skipSpace_le[of "scanName body i" body] by linarith
  moreover have "?j \<le> skipSpace body (scanName body (skipSpace body (?j + 1)))"
    using skipSpace_le[of "?j + 1" body] scanName_le[of "skipSpace body (?j + 1)" body]
      skipSpace_le[of "scanName body (skipSpace body (?j + 1))" body] by linarith
  ultimately show ?thesis by (simp add: afterName_def Let_def)
qed

lemma afterArgs_le: "afterArgs body i = Some j \<Longrightarrow> i \<le> j"
  using skipSpace_le by (auto simp: afterArgs_def split: if_splits option.splits) (meson Suc_leD less_imp_le_nat not_le order_trans skipSpace_le)

lemma afterSelection_le: "afterSelection body i = Some j \<Longrightarrow> i \<le> j"
  by (auto simp: afterSelection_def split: if_splits option.splits)

lemma field_end_le:
  "afterArgs body (afterName body i) = Some j \<Longrightarrow> afterSelection body j = Some k \<Longrightarrow> i \<le> k"
  using afterName_le[of i body] afterArgs_le[of body "afterName body i" j] afterSelection_le[of body j k]
  by linarith

function fieldsLoop :: "string \<Rightarrow> nat \<Rightarrow> field list \<Rightarrow> field list outcome" where
  "fieldsLoop body i acc =
     (if i \<ge> length body then Gives acc
      else if isSpaceByte (body ! i) \<or> body ! i = CHR '','' then fieldsLoop body (i + 1) acc
      else case afterArgs body (afterName body i) of
        None \<Rightarrow> Fails ''unclosed arguments''
      | Some j \<Rightarrow>
          (case afterSelection body j of
             None \<Rightarrow> Fails ''unclosed selection set''
           | Some k \<Rightarrow>
               if k = i then Fails (''cannot parse field at offset '' @ natText 10 i)
               else (case parseField (substr body i k) of
                       Panics \<Rightarrow> Panics
                     | Fails _ \<Rightarrow> fieldsLoop body k acc
                     | Gives f \<Rightarrow> fieldsLoop body k (if fieldName f \<noteq> '''' then acc @ [f] else acc))))"
  by auto

termination
  by (relation "measure (\<lambda>(body, i, _). length body - i)")
    (auto dest!: field_end_le)

declare fieldsLoop.simps [simp del]

definition parseTopFields :: "string \<Rightarrow> field list outcome" where
  "parseTopFields query =
     (case (indexByte query (CHR ''{''), lastIndexByte query (CHR ''}'')) of
        (Some start, Some e) \<Rightarrow>
          if e \<le> start then Fails ''invalid query: missing braces''
          else let body = trimSpace (substr query (start + 1) e) in
               if body = [] then Fails ''empty selection set''
               else (case fieldsLoop body 0 [] of
                       Gives [] \<Rightarrow> Fails ''no fields in query''
                     | r \<Rightarrow> r)
      | _ \<Rightarrow> Fails ''invalid query: missing braces'')"

section \<open>Depth\<close>

function depthFrom :: "string \<Rightarrow> nat \<Rightarrow> int \<Rightarrow> int \<Rightarrow> bool \<Rightarrow> int" where
  "depthFrom q i depth maxDepth inQuote =
     (if i \<ge> length q then maxDepth
      else if quoteFlips q i then depthFrom q (i + 1) depth maxDepth (\<not> inQuote)
      else if inQuote then depthFrom q (i + 1) depth maxDepth inQuote
      else if q ! i = CHR ''{'' then depthFrom q (i + 1) (depth + 1) (max (depth + 1) maxDepth) inQuote
      else if q ! i = CHR ''}'' then depthFrom q (i + 1) (depth - 1) maxDepth inQuote
      else depthFrom q (i + 1) depth maxDepth inQuote)"
  by auto
termination by (relation "measure (\<lambda>(q, i, _). length q - i)") auto

declare depthFrom.simps [simp del]

definition queryDepth :: "string \<Rightarrow> int" where
  "queryDepth query = depthFrom query 0 0 0 False"

section \<open>What the matchers find\<close>

lemma matchBrace_found:
  "matchBrace s i depth q = Some p \<Longrightarrow> i \<le> p \<and> p < length s \<and> s ! p = CHR ''}''"
proof (induction "length s - i" arbitrary: i depth q)
  case 0
  then show ?case by (subst (asm) matchBrace.simps) simp
next
  case (Suc n)
  have ih: "Suc i \<le> p \<and> p < length s \<and> s ! p = CHR ''}''" if "matchBrace s (Suc i) d k = Some p" for d k
    using Suc(1)[of "Suc i" d k] Suc(2) that by simp
  show ?case using Suc(2,3) ih by (subst (asm) matchBrace.simps) (auto split: if_splits dest!: ih)
qed

lemma matchParen_found:
  "matchParen s i depth q = Some p \<Longrightarrow> i \<le> p \<and> p < length s \<and> s ! p = CHR '')''"
proof (induction "length s - i" arbitrary: i depth q)
  case 0
  then show ?case by (subst (asm) matchParen.simps) simp
next
  case (Suc n)
  have ih: "Suc i \<le> p \<and> p < length s \<and> s ! p = CHR '')''" if "matchParen s (Suc i) d k = Some p" for d k
    using Suc(1)[of "Suc i" d k] Suc(2) that by simp
  show ?case using Suc(2,3) ih by (subst (asm) matchParen.simps) (auto split: if_splits dest!: ih)
qed

section \<open>Depth as a maximum over prefixes\<close>

text \<open>Quote state and brace balance after the first \<open>k\<close> bytes.\<close>

fun quotedAfter :: "string \<Rightarrow> nat \<Rightarrow> bool" where
  "quotedAfter q 0 = False"
| "quotedAfter q (Suc k) = (quotedAfter q k \<noteq> quoteFlips q k)"

fun balance :: "string \<Rightarrow> nat \<Rightarrow> int" where
  "balance q 0 = 0"
| "balance q (Suc k) =
     balance q k
       + (if quoteFlips q k \<or> quotedAfter q k then 0
          else if q ! k = CHR ''{'' then 1 else if q ! k = CHR ''}'' then - 1 else 0)"

definition maxBalance :: "string \<Rightarrow> nat \<Rightarrow> int" where
  "maxBalance q k = Max (balance q ` {0..k})"

lemma maxBalance_Suc: "maxBalance q (Suc k) = max (balance q (Suc k)) (maxBalance q k)"
proof -
  have "balance q ` {0..Suc k} = insert (balance q (Suc k)) (balance q ` {0..k})"
    by (simp add: atLeast0_atMost_Suc)
  then show ?thesis by (simp only: maxBalance_def Max_insert finite_imageI finite_atLeastAtMost) simp
qed

lemma balance_le_max: "balance q k \<le> maxBalance q k"
  by (simp add: maxBalance_def)

lemma depthFrom_max:
  "i \<le> length q \<Longrightarrow>
   depthFrom q i (balance q i) (maxBalance q i) (quotedAfter q i) = maxBalance q (length q)"
proof (induction "length q - i" arbitrary: i)
  case 0
  then show ?case by (subst depthFrom.simps) simp
next
  case (Suc n)
  have lt: "i < length q" and ih: "depthFrom q (Suc i) (balance q (Suc i)) (maxBalance q (Suc i))
      (quotedAfter q (Suc i)) = maxBalance q (length q)"
    using Suc(2) Suc(1)[of "Suc i"] by (simp_all del: balance.simps quotedAfter.simps)
  have le: "balance q i \<le> maxBalance q i" by (rule balance_le_max)
  have step: "depthFrom q i (balance q i) (maxBalance q i) (quotedAfter q i)
      = depthFrom q (Suc i) (balance q (Suc i)) (maxBalance q (Suc i)) (quotedAfter q (Suc i))"
    using lt le by (subst depthFrom.simps) (auto simp: maxBalance_Suc max_def)
  show ?case using step ih by simp
qed

text \<open>C34: The depth a query is refused by is the greatest brace balance of any of its prefixes, braces inside quoted
text not counted: the running counter of the code computes that maximum.\<close>

theorem depth_is_greatest_balance: "queryDepth q = Max (balance q ` {0..length q})"
  using depthFrom_max[of 0 q] by (simp add: queryDepth_def maxBalance_def)

section \<open>Fields separated by white space\<close>

definition plainByte :: "char \<Rightarrow> bool" where
  "plainByte c \<longleftrightarrow> \<not> isSpaceByte c \<and> solid c \<and> c \<noteq> CHR ''('' \<and> c \<noteq> CHR ''{'' \<and> c \<noteq> CHR '':''
     \<and> c \<noteq> CHR '','' \<and> c \<noteq> CHR ''}''"

definition plainName :: "string \<Rightarrow> bool" where
  "plainName s \<longleftrightarrow> s \<noteq> [] \<and> list_all plainByte s"

definition separator :: "string \<Rightarrow> bool" where
  "separator s \<longleftrightarrow> s \<noteq> [] \<and> list_all (\<lambda>c. isSpaceByte c \<or> c = CHR '','') s"

lemma scanName_plain:
  "list_all plainByte n \<Longrightarrow> (rest = [] \<or> isSpaceByte (hd rest) \<or> hd rest = CHR '','') \<Longrightarrow>
   scanName (pre @ n @ rest) (length pre) = length pre + length n"
proof (induction n arbitrary: pre)
  case Nil
  then show ?case by (subst scanName.simps) (auto simp: nth_append hd_conv_nth)
next
  case (Cons c n)
  have "scanName ((pre @ [c]) @ n @ rest) (length (pre @ [c])) = length (pre @ [c]) + length n"
    using Cons by (intro Cons.IH) auto
  then show ?case using Cons.prems(1)
    by (subst scanName.simps) (auto simp: nth_append plainByte_def)
qed

lemma skipSpace_run:
  "list_all isSpaceByte n \<Longrightarrow> (rest = [] \<or> \<not> isSpaceByte (hd rest)) \<Longrightarrow>
   skipSpace (pre @ n @ rest) (length pre) = length pre + length n"
proof (induction n arbitrary: pre)
  case Nil
  then show ?case by (subst skipSpace.simps) (auto simp: nth_append hd_conv_nth)
next
  case (Cons c n)
  have "skipSpace ((pre @ [c]) @ n @ rest) (length (pre @ [c])) = length (pre @ [c]) + length n"
    using Cons by (intro Cons.IH) auto
  then show ?case using Cons.prems(1) by (subst skipSpace.simps) (auto simp: nth_append)
qed

definition plainField :: "string \<Rightarrow> field" where
  "plainField n = \<lparr>fieldName = n, fieldAlias = '''', fieldArgs = []\<rparr>"

lemma plainName_ends: "plainName n \<Longrightarrow> solid (hd n) \<and> solid (last n) \<and> n \<noteq> []"
  by (auto simp: plainName_def plainByte_def list_all_iff)

lemma isSpaceByte_ascii: "isSpaceByte c \<Longrightarrow> asciiSpace c"
  by (auto simp: isSpaceByte_def asciiSpace_def byteOf_def)

lemma parseField_plain:
  assumes "plainName n" "list_all isSpaceByte w"
  shows "parseField (n @ w) = Gives (plainField n)"
proof -
  have t: "trimSpace (n @ w) = n"
    using plainName_ends[OF assms(1)] assms(2)
    by (intro trimSpace_right) (auto simp: list_all_iff isSpaceByte_ascii)
  have p: "list_all plainByte n" "n \<noteq> []" using assms(1) by (auto simp: plainName_def)
  have "indexByte n (CHR '':'') = None" "indexByte n (CHR ''('') = None"
    using p by (auto simp: indexByte_None list_all_iff plainByte_def)
  moreover have "takeWhile (\<lambda>c. \<not> nameEnds c) n = n"
    using p by (auto simp: takeWhile_eq_all_conv list_all_iff plainByte_def nameEnds_def isSpaceByte_def)
  ultimately show ?thesis using p t by (simp add: parseField_def splitAlias_def plainField_def Let_def)
qed

lemma fieldsLoop_separator:
  "list_all (\<lambda>c. isSpaceByte c \<or> c = CHR '','') w \<Longrightarrow>
   fieldsLoop (pre @ w @ rest) (length pre) acc = fieldsLoop (pre @ w @ rest) (length pre + length w) acc"
proof (induction w arbitrary: pre)
  case (Cons c w)
  have "fieldsLoop ((pre @ [c]) @ w @ rest) (length (pre @ [c])) acc
      = fieldsLoop ((pre @ [c]) @ w @ rest) (length (pre @ [c]) + length w) acc"
    using Cons by (intro Cons.IH) auto
  moreover have "fieldsLoop (pre @ (c # w) @ rest) (length pre) acc
      = fieldsLoop (pre @ (c # w) @ rest) (length pre + 1) acc"
    using Cons.prems by (subst fieldsLoop.simps) (auto simp: nth_append)
  ultimately show ?case by simp
qed simp

text \<open>What may follow a plain field: the end, a comma or the next plain field, after any white space.\<close>

definition fieldBreak :: "string \<Rightarrow> bool" where
  "fieldBreak s \<longleftrightarrow> s = [] \<or> hd s = CHR '','' \<or> plainByte (hd s)"

lemma fieldsLoop_plain:
  assumes "plainName n" "list_all isSpaceByte w" "fieldBreak rest"
    "w = [] \<longrightarrow> rest = [] \<or> hd rest = CHR '',''"
  shows "fieldsLoop (pre @ n @ w @ rest) (length pre) acc =
    fieldsLoop (pre @ n @ w @ rest) (length pre + length n + length w) (acc @ [plainField n])"
proof -
  let ?b = "pre @ n @ w @ rest" and ?i = "length pre" and ?j = "length pre + length n + length w"
  have n: "list_all plainByte n" "n \<noteq> []" using assms(1) by (auto simp: plainName_def)
  have "scanName ?b ?i = ?i + length n"
    using scanName_plain[OF n(1), of "w @ rest" pre] assms(2,4) by (cases w) auto
  moreover have "skipSpace ?b (?i + length n) = ?j"
    using skipSpace_run[OF assms(2), of rest "pre @ n"] assms(3)
    by (auto simp: fieldBreak_def plainByte_def isSpaceByte_def byteOf_def)
  ultimately have skip: "skipSpace ?b (scanName ?b ?i) = ?j" by simp
  have at: "?j < length ?b \<Longrightarrow> ?b ! ?j = hd rest" "?j < length ?b \<longleftrightarrow> rest \<noteq> []"
    by (auto simp: nth_append hd_conv_nth)
  have nb: "?j < length ?b \<Longrightarrow> ?b ! ?j \<noteq> CHR '':'' \<and> ?b ! ?j \<noteq> CHR ''('' \<and> ?b ! ?j \<noteq> CHR ''{''"
    using assms(3) at by (auto simp: fieldBreak_def plainByte_def)
  have a: "afterName ?b ?i = ?j" using skip nb by (auto simp: afterName_def Let_def)
  have b: "afterArgs ?b ?j = Some ?j" "afterSelection ?b ?j = Some ?j"
    using nb by (auto simp: afterArgs_def afterSelection_def)
  have sub: "substr ?b ?i ?j = n @ w" by (simp add: substr_def)
  have head: "?b ! ?i = hd n" "?i < length ?b" using n by (auto simp: nth_append hd_conv_nth)
  have "\<not> (isSpaceByte (hd n) \<or> hd n = CHR '','')" using n by (auto simp: plainByte_def list_all_iff)
  then show ?thesis
    using a b sub head n(2) parseField_plain[OF assms(1,2)] assms(1)
    by (subst fieldsLoop.simps) (simp add: plainField_def)
qed

definition docText :: "(string \<times> string) list \<Rightarrow> string" where
  "docText ps = concat (map (\<lambda>(n, w). n @ w) ps)"

lemma docText_tail:
  assumes "\<forall>(n, w) \<in> set ps. plainName n \<and> separator w" "plainName z"
  shows "docText ps @ z \<noteq> []" "plainByte (hd (docText ps @ z))"
proof -
  have hd: "plainByte (hd n) \<and> n \<noteq> []" if "plainName n" for n
    using that by (auto simp: plainName_def list_all_iff)
  show "docText ps @ z \<noteq> []" using hd[OF assms(2)] by simp
  show "plainByte (hd (docText ps @ z))"
    using hd assms by (cases ps) (auto simp: docText_def hd_append)
qed

lemma separator_split:
  assumes "separator w"
  obtains w1 w2 where "w = w1 @ w2" "list_all isSpaceByte w1"
    "list_all (\<lambda>c. isSpaceByte c \<or> c = CHR '','') w2" "w2 = [] \<or> hd w2 = CHR '',''"
    "w1 = [] \<Longrightarrow> w2 \<noteq> []"
proof -
  let ?w1 = "takeWhile isSpaceByte w" and ?w2 = "dropWhile isSpaceByte w"
  have a: "w = ?w1 @ ?w2" by simp
  have b: "list_all isSpaceByte ?w1" by (auto simp: list_all_iff dest: set_takeWhileD)
  have c: "list_all (\<lambda>c. isSpaceByte c \<or> c = CHR '','') ?w2"
    using assms by (auto simp: separator_def list_all_iff dest: set_dropWhileD)
  have d: "?w2 = [] \<or> hd ?w2 = CHR '',''"
    using c hd_dropWhile[of isSpaceByte w] by (cases ?w2) auto
  have "?w1 = [] \<Longrightarrow> ?w2 \<noteq> []" using assms a by (auto simp: separator_def)
  with a b c d show ?thesis using that[of ?w1 ?w2] by blast
qed

lemma fieldsLoop_doc:
  assumes "\<forall>(n, w) \<in> set ps. plainName n \<and> separator w" "plainName z"
  shows "fieldsLoop (pre @ docText ps @ z) (length pre) acc =
    Gives (acc @ map (plainField \<circ> fst) ps @ [plainField z])"
  using assms
proof (induction ps arbitrary: pre acc)
  case Nil
  have "fieldsLoop (pre @ z @ [] @ []) (length pre) acc =
      fieldsLoop (pre @ z @ [] @ []) (length pre + length z + 0) (acc @ [plainField z])"
    using fieldsLoop_plain[OF Nil(2), of "[]" "[]" pre acc] by (simp add: fieldBreak_def)
  then show ?case by (simp add: docText_def fieldsLoop.simps[of _ "length pre + length z"])
next
  case (Cons p ps)
  obtain n w where p: "p = (n, w)" "plainName n" "separator w" using Cons.prems by auto
  let ?tail = "docText ps @ z"
  obtain w1 w2 where w: "w = w1 @ w2" "list_all isSpaceByte w1"
      "list_all (\<lambda>c. isSpaceByte c \<or> c = CHR '','') w2" "w2 = [] \<or> hd w2 = CHR '',''" "w1 = [] \<Longrightarrow> w2 \<noteq> []"
    using separator_split[OF p(3)] by blast
  have tl: "?tail \<noteq> []" "plainByte (hd ?tail)" using docText_tail[of ps z] Cons.prems by simp_all
  have brk: "fieldBreak (w2 @ ?tail)" using w(4) tl by (cases w2) (auto simp: fieldBreak_def)
  have "w1 = [] \<longrightarrow> w2 @ ?tail = [] \<or> hd (w2 @ ?tail) = CHR '',''" using w(4,5) by (cases w2) auto
  then have "fieldsLoop (pre @ n @ w1 @ (w2 @ ?tail)) (length pre) acc =
      fieldsLoop (pre @ n @ w1 @ (w2 @ ?tail)) (length pre + length n + length w1) (acc @ [plainField n])"
    by (rule fieldsLoop_plain[OF p(2) w(2) brk])
  also have "\<dots> = fieldsLoop (pre @ n @ w1 @ (w2 @ ?tail)) (length pre + length n + length w1 + length w2)
      (acc @ [plainField n])"
    using fieldsLoop_separator[OF w(3), of "pre @ n @ w1" ?tail] by (simp add: add.assoc)
  also have "\<dots> = Gives ((acc @ [plainField n]) @ map (plainField \<circ> fst) ps @ [plainField z])"
    using Cons.IH[of "pre @ n @ w" "acc @ [plainField n]"] Cons.prems w(1) by (simp add: add.assoc)
  finally show ?case using p w(1) by (simp add: docText_def)
qed

lemma lastIndexByte_end: "c \<notin> set [] \<Longrightarrow> lastIndexByte (s @ [c]) c = Some (length s)"
  by (simp add: lastIndexByte_def)

lemma indexByte_skip: "c \<notin> set s \<Longrightarrow> indexByte (s @ [c] @ t) c = Some (length s)"
  by (induction s) auto

text \<open>A query of plain field names separated by white space and commas, whatever stands before the opening brace, is
parsed into exactly those fields in that order, with no alias and no arguments.\<close>

theorem plain_queries_parse:
  assumes "\<forall>(n, w) \<in> set ps. plainName n \<and> separator w" "plainName z" "CHR ''{'' \<notin> set op"
    "list_all asciiSpace w0" "list_all asciiSpace w1"
  shows "parseTopFields (op @ ''{'' @ w0 @ docText ps @ z @ w1 @ ''}'') =
    Gives (map (plainField \<circ> fst) ps @ [plainField z])"
proof -
  let ?doc = "docText ps @ z"
  let ?q = "op @ ''{'' @ w0 @ docText ps @ z @ w1 @ ''}''"
  have i: "indexByte ?q (CHR ''{'') = Some (length op)"
    using indexByte_skip[OF assms(3), of "w0 @ docText ps @ z @ w1 @ ''}''"] by simp
  have l: "lastIndexByte ?q (CHR ''}'') = Some (length op + 1 + length w0 + length ?doc + length w1)"
    using lastIndexByte_end[of "CHR ''}''" "op @ ''{'' @ w0 @ ?doc @ w1"] by simp
  have z: "z \<noteq> []" "solid (last z)" using plainName_ends[OF assms(2)] by auto
  have h: "?doc \<noteq> []" "solid (hd ?doc)" "solid (last ?doc)"
    using docText_tail[OF assms(1,2)] z by (auto simp: plainByte_def last_append)
  have "substr ?q (length op + 1) (length op + 1 + length w0 + length ?doc + length w1) = w0 @ ?doc @ w1"
    by (simp add: substr_def)
  moreover have "trimSpace (w0 @ ?doc @ w1) = ?doc"
    using h assms(4,5) by (rule trimSpace_both)
  moreover have "fieldsLoop ?doc 0 [] = Gives (map (plainField \<circ> fst) ps @ [plainField z])"
    using fieldsLoop_doc[OF assms(1,2), of "[]" "[]"] by simp
  ultimately show ?thesis using i l h(1)
    by (auto simp: parseTopFields_def Let_def split: list.splits)
qed

theorem plain_queries_parse_witness:
  "parseTopFields (''query Q '' @ ''{'' @ '' '' @ docText [(''pools'', '', '')] @ ''tokens'' @ '' '' @ ''}'') =
     Gives [plainField ''pools'', plainField ''tokens'']"
  using plain_queries_parse[of "[(''pools'', '', '')]" "''tokens''" "''query Q ''" "'' ''" "'' ''"]
  by (simp add: plainName_def plainByte_def separator_def isSpaceByte_def asciiSpace_def byteOf_def solid_def)


end
