(* ===== verification/Engine.thy ===== *)
theory Engine
  imports AmmResolvers QueryParser
begin

text \<open>
  The query engine, src/engine/engine.go: its limits, the resolver table and how schemas are
  registered into it (\<open>LoadBuiltin\<close>), and \<open>Execute\<close>.

  The resolver table is a Go map from field name to resolver.  \<open>registerChain\<close> fills a shim map
  from a package's \<open>Register\<close> and copies it into the table.  The query timeout reaches the
  resolvers through the context, which none of them reads, and is not modelled.  A panic of the
  parser is the outcome \<open>Panics\<close>.
\<close>

record config =
  MaxQueryDepth :: int
  MaxTopFields :: int
  MaxResultSize :: int
  QueryTimeoutMs :: int

definition defaultMaxTopFields :: int where
  "defaultMaxTopFields = 64"

definition defaultConfig :: config where
  "defaultConfig =
     \<lparr>MaxQueryDepth = 10, MaxTopFields = defaultMaxTopFields, MaxResultSize = 2 ^ 20, QueryTimeoutMs = 30000\<rparr>"

definition maxTopFields :: "config \<Rightarrow> int" where
  "maxTopFields cfg = (if MaxTopFields cfg \<le> 0 then defaultMaxTopFields else MaxTopFields cfg)"

record engine =
  engStore :: store
  engConfig :: config
  engResolvers :: "resolver gomap"

definition RegisterResolver :: "string \<Rightarrow> resolver \<Rightarrow> engine \<Rightarrow> engine" where
  "RegisterResolver name fn e = e\<lparr>engResolvers := putKey name fn (engResolvers e)\<rparr>"

definition putAllKeys :: "(string \<times> 'v) list \<Rightarrow> 'v gomap \<Rightarrow> 'v gomap" where
  "putAllKeys rows m = foldl (\<lambda>m (k, v). putKey k v m) m rows"

definition registerOwn :: "(string \<times> resolver) list \<Rightarrow> engine \<Rightarrow> engine" where
  "registerOwn rows e = e\<lparr>engResolvers := putAllKeys rows (engResolvers e)\<rparr>"

definition registerChain :: "(string \<times> resolver) list \<Rightarrow> engine \<Rightarrow> engine" where
  "registerChain register e =
     (let shim = putAllKeys register [] in e\<lparr>engResolvers := putAllKeys shim (engResolvers e)\<rparr>)"

section \<open>The schema tables\<close>

definition registerAMMResolvers :: "(string \<times> resolver) list" where
  "registerAMMResolvers =
     [(''factory'', resolveFactory),
      (''factories'', resolveFactories),
      (''uniswapFactory'', resolveFactory),
      (''uniswapFactories'', resolveFactories),
      (''bundle'', resolveBundle),
      (''bundles'', resolveBundles),
      (''pool'', resolvePool),
      (''pools'', resolvePools),
      (''pair'', resolvePair),
      (''pairs'', resolvePairs),
      (''swap'', resolveSwap),
      (''swaps'', resolveSwaps),
      (''mint'', resolveMint),
      (''mints'', resolveMints),
      (''burn'', resolveBurn),
      (''burns'', resolveBurns),
      (''tick'', resolveTick),
      (''ticks'', resolveTicks),
      (''position'', resolvePosition),
      (''positions'', resolvePositions),
      (''collect'', resolveCollect),
      (''collects'', resolveCollects),
      (''flash'', resolveFlash),
      (''flashes'', resolveFlashes),
      (''tokenDayDatas'', resolveTokenDayDatas),
      (''pairDayDatas'', resolvePairDayDatas),
      (''poolDayDatas'', resolvePoolDayDatas),
      (''pairHourDatas'', resolvePairHourDatas),
      (''uniswapDayDatas'', resolveFactoryDayDatas)]"

definition registerERC20Resolvers :: "(string \<times> resolver) list" where
  "registerERC20Resolvers =
     [(''token'', resolveToken),
      (''tokens'', resolveTokens),
      (''transfer'', resolveTransfer),
      (''transfers'', resolveTransfers)]"

definition registerERC721Resolvers :: "(string \<times> resolver) list" where
  "registerERC721Resolvers =
     [(''nft'', resolveNFT),
      (''nfts'', resolveNFTs)]"

definition registerV4Resolvers :: "(string \<times> resolver) list" where
  "registerV4Resolvers =
     [(''poolManager'', resolvePoolManager),
      (''poolManagers'', resolvePoolManagers),
      (''modifyLiquidity'', resolveModifyLiquidity),
      (''modifyLiquiditys'', resolveModifyLiquiditys),
      (''position'', resolvePosition),
      (''positions'', resolvePositions),
      (''subscribe'', resolveSubscribe),
      (''subscribes'', resolveSubscribes),
      (''unsubscribe'', resolveUnsubscribe),
      (''unsubscribes'', resolveUnsubscribes),
      (''poolHourDatas'', resolvePoolHourDatas),
      (''tokenHourDatas'', resolveTokenHourDatas),
      (''uniswapDayDatas'', resolveUniswapDayDatas)]"

definition registerBuiltinResolvers :: "(string \<times> resolver) list" where
  "registerBuiltinResolvers =
     [(''block'', resolveBlock),
      (''blocks'', resolveBlocks),
      (''transaction'', resolveTransaction),
      (''transactions'', resolveTransactions),
      (''token'', resolveToken),
      (''tokens'', resolveTokens)]"

definition NewEngine :: "store \<Rightarrow> config option \<Rightarrow> engine" where
  "NewEngine s cfg =
     registerOwn registerBuiltinResolvers
       \<lparr>engStore = s, engConfig = (case cfg of Some c \<Rightarrow> c | None \<Rightarrow> defaultConfig), engResolvers = []\<rparr>"

definition LoadBuiltin :: "string \<Rightarrow> engine \<Rightarrow> string + engine" where
  "LoadBuiltin name e =
     (if name = ''amm'' \<or> name = ''amm-v2'' \<or> name = ''uniswap-v2'' then Inr (registerOwn registerAMMResolvers e)
      else if name = ''amm-v3'' \<or> name = ''uniswap-v3'' then Inr (registerOwn registerAMMResolvers e)
      else if name = ''amm-v4'' \<or> name = ''uniswap-v4'' \<or> name = ''v4'' then Inr (registerOwn registerV4Resolvers (registerOwn registerAMMResolvers e))
      else if name = ''dex'' then Inr (registerChain dexRegister e)
      else if name = ''fhe'' \<or> name = ''threshold'' then Inr (registerChain fheRegister e)
      else if name = ''platform'' \<or> name = ''pchain'' then Inr (registerChain platformRegister e)
      else if name = ''exchange'' \<or> name = ''xchain'' then Inr (registerChain exchangeRegister e)
      else if name = ''utxo'' then Inr (registerChain utxoRegister e)
      else if name = ''zk'' \<or> name = ''zchain'' then Inr (registerChain zkRegister e)
      else if name = ''mpc'' \<or> name = ''mchain'' then Inr (registerChain mpcRegister e)
      else if name = ''bridge'' \<or> name = ''bchain'' then Inr (registerChain bridgeRegister e)
      else if name = ''privacy'' then Inr (registerChain privacyRegister e)
      else if name = ''quantum'' \<or> name = ''qchain'' then Inr (registerChain quantumRegister e)
      else if name = ''key'' \<or> name = ''kchain'' then Inr (registerChain keyRegister e)
      else if name = ''ai'' \<or> name = ''achain'' then Inr (registerChain aiRegister e)
      else if name = ''identity'' \<or> name = ''ichain'' then Inr (registerChain identityRegister e)
      else if name = ''oracle'' \<or> name = ''ochain'' then Inr (registerChain oracleRegister e)
      else if name = ''relay'' \<or> name = ''rchain'' then Inr (registerChain relayRegister e)
      else if name = ''servicenode'' \<or> name = ''schain'' then Inr (registerChain servicenodeRegister e)
      else if name = ''precompile'' \<or> name = ''precompiles'' then Inr (registerChain precompileRegister e)
      else if name = ''governance'' then Inr (registerChain governanceRegister e)
      else if name = ''dao'' then Inr (registerChain daoRegister e)
      else if name = ''treasury'' then Inr (registerChain treasuryRegister e)
      else if name = ''liquid'' \<or> name = ''liquid-staking'' then Inr (registerChain liquidRegister e)
      else if name = ''liquidity'' \<or> name = ''liquidity-protocol'' \<or> name = ''omnichain'' then Inr (registerChain liquidityRegister e)
      else if name = ''liquid-protocol'' \<or> name = ''teleport'' \<or> name = ''liquid-vault'' then Inr (registerChain liquidprotocolRegister e)
      else if name = ''did'' \<or> name = ''did-registry'' then Inr (registerChain didRegister e)
      else if name = ''prediction'' \<or> name = ''prediction-market'' then Inr (registerChain predictionRegister e)
      else if name = ''securities'' \<or> name = ''security-token'' then Inr (registerChain securitiesRegister e)
      else if name = ''derivatives'' \<or> name = ''futures'' \<or> name = ''options'' then Inr (registerChain derivativesRegister e)
      else if name = ''all'' then
        Inr (foldl (\<lambda>e f. f e) e
          [registerOwn registerAMMResolvers,
           registerOwn registerV4Resolvers,
           registerOwn registerERC20Resolvers,
           registerOwn registerERC721Resolvers,
           registerChain dexRegister,
           registerChain fheRegister,
           registerChain platformRegister,
           registerChain exchangeRegister,
           registerChain utxoRegister,
           registerChain bridgeRegister,
           registerChain privacyRegister,
           registerChain quantumRegister,
           registerChain keyRegister,
           registerChain mpcRegister,
           registerChain aiRegister,
           registerChain identityRegister,
           registerChain oracleRegister,
           registerChain relayRegister,
           registerChain zkRegister,
           registerChain servicenodeRegister,
           registerChain precompileRegister,
           registerChain governanceRegister,
           registerChain daoRegister,
           registerChain treasuryRegister,
           registerChain liquidRegister,
           registerChain didRegister,
           registerChain predictionRegister,
           registerChain securitiesRegister,
           registerChain derivativesRegister,
           registerChain liquidityRegister,
           registerChain liquidprotocolRegister])
      else if name = ''erc20'' then Inr (registerOwn registerERC20Resolvers e)
      else if name = ''erc721'' then Inr (registerOwn registerERC721Resolvers e)
      else Inl (''unknown built-in schema: '' @ name))"

definition LoadConfig :: "string \<Rightarrow> engine \<Rightarrow> string + engine" where
  "LoadConfig path e = Inl (''config loading not yet implemented: '' @ path)"

section \<open>Execution\<close>

datatype response = Data "val gomap" | Errors "string list"

definition readOnlyMessage :: string where
  "readOnlyMessage =
     ''mutations not allowed '' @ map char_of [226 :: nat, 128, 148] @ '' g-node is read-only''"

fun runFields :: "engine \<Rightarrow> field list \<Rightarrow> val gomap \<Rightarrow> response" where
  "runFields e [] data =
     (if int (length (jsonText (VMap data))) > MaxResultSize (engConfig e)
      then Errors [''result exceeds maximum size''] else Data data)"
| "runFields e (f # fs) data =
     (case getKey (engResolvers e) (fieldName f) of
        None \<Rightarrow> Errors [''unknown field: '' @ fieldName f]
      | Some resolver \<Rightarrow>
          (case resolver (engStore e) (fieldArgs f) of
             Inl err \<Rightarrow> Errors [err]
           | Inr result \<Rightarrow>
               runFields e fs
                 (putKey (if fieldAlias f \<noteq> '''' then fieldAlias f else fieldName f) result data)))"

definition Execute :: "engine \<Rightarrow> string \<Rightarrow> response outcome" where
  "Execute e query0 =
     (let query = trimSpace query0; depth = queryDepth query in
      if query = '''' then Gives (Errors [''empty query''])
      else if length query > 100000 then Gives (Errors [''query too large''])
      else if hasPrefix (lowerText query) ''mutation'' then Gives (Errors [readOnlyMessage])
      else if depth > MaxQueryDepth (engConfig e) then
        Gives (Errors [''query depth '' @ intText 10 depth @ '' exceeds maximum ''
                       @ intText 10 (MaxQueryDepth (engConfig e))])
      else case parseTopFields query of
        Panics \<Rightarrow> Panics
      | Fails err \<Rightarrow> Gives (Errors [err])
      | Gives fs \<Rightarrow>
          (let mx = maxTopFields (engConfig e) in
           if int (length fs) > mx then
             Gives (Errors [''too many top-level fields ('' @ intText 10 (int (length fs))
                            @ ''), maximum '' @ intText 10 mx])
           else Gives (runFields e fs [])))"

section \<open>What a response promises\<close>

lemma getKey_putAllKeys:
  "getKey (putAllKeys rows m) k = (case getKey (rev rows) k of Some v \<Rightarrow> Some v | None \<Rightarrow> getKey m k)"
proof (induction rows arbitrary: m)
  case Nil
  then show ?case by (simp add: putAllKeys_def getKey_def)
next
  case (Cons r rows)
  obtain a v where r: "r = (a, v)" by force
  have "putAllKeys (r # rows) m = putAllKeys rows (putKey a v m)" by (simp add: r putAllKeys_def)
  then show ?case using Cons[of "putKey a v m"] getKey_putKey[of a v m k]
    by (auto simp: r getKey_def map_add_def split: option.splits if_splits)
qed

text \<open>The rows a response is built from: response key and the value its resolver gave.\<close>

definition responseKey :: "field \<Rightarrow> string" where
  "responseKey f = (if fieldAlias f \<noteq> '''' then fieldAlias f else fieldName f)"

definition resolved :: "engine \<Rightarrow> field \<Rightarrow> val \<Rightarrow> bool" where
  "resolved e f v \<longleftrightarrow>
     (\<exists>r. getKey (engResolvers e) (fieldName f) = Some r \<and> r (engStore e) (fieldArgs f) = Inr v)"

lemma runFields_Data:
  assumes "runFields e fs data = Data d"
  shows "\<exists>vs. list_all2 (resolved e) fs vs \<and> d = putAllKeys (zip (map responseKey fs) vs) data \<and>
    int (length (jsonText (VMap d))) \<le> MaxResultSize (engConfig e)"
  using assms
proof (induction fs arbitrary: data)
  case Nil
  then show ?case by (auto simp: putAllKeys_def split: if_splits)
next
  case (Cons f fs)
  from Cons.prems obtain r v where rv: "getKey (engResolvers e) (fieldName f) = Some r"
      "r (engStore e) (fieldArgs f) = Inr v" "runFields e fs (putKey (responseKey f) v data) = Data d"
    by (auto simp: responseKey_def split: option.splits sum.splits)
  obtain vs where vs: "list_all2 (resolved e) fs vs"
      "d = putAllKeys (zip (map responseKey fs) vs) (putKey (responseKey f) v data)"
      "int (length (jsonText (VMap d))) \<le> MaxResultSize (engConfig e)"
    using Cons.IH[OF rv(3)] by blast
  have "list_all2 (resolved e) (f # fs) (v # vs)" using vs(1) rv by (auto simp: resolved_def)
  moreover have "d = putAllKeys (zip (map responseKey (f # fs)) (v # vs)) data"
    using vs(2) by (simp add: putAllKeys_def)
  ultimately show ?case using vs(3) by blast
qed

text \<open>C32: A query is answered with data only inside the limits: it is not empty, not longer than 100000 bytes, not a
mutation, not deeper than the configured depth, has no more top-level fields than allowed, every field was
answered by the resolver registered under its name with the field's own arguments, the data holds exactly
those answers under their aliases, and its JSON text fits the configured size.\<close>

theorem answers_stay_within_limits:
  assumes "Execute e query = Gives (Data d)"
  shows "trimSpace query \<noteq> '''' \<and> length (trimSpace query) \<le> 100000 \<and>
    \<not> hasPrefix (lowerText (trimSpace query)) ''mutation'' \<and>
    queryDepth (trimSpace query) \<le> MaxQueryDepth (engConfig e) \<and>
    (\<exists>fs vs. parseTopFields (trimSpace query) = Gives fs \<and>
       int (length fs) \<le> maxTopFields (engConfig e) \<and>
       list_all2 (resolved e) fs vs \<and> d = putAllKeys (zip (map responseKey fs) vs) []) \<and>
    int (length (jsonText (VMap d))) \<le> MaxResultSize (engConfig e)"
proof -
  let ?q = "trimSpace query"
  have guards: "?q \<noteq> ''''" "length ?q \<le> 100000" "\<not> hasPrefix (lowerText ?q) ''mutation''"
      "queryDepth ?q \<le> MaxQueryDepth (engConfig e)"
    using assms by (auto simp: Execute_def Let_def split: if_splits)
  with assms obtain fs where fs: "parseTopFields ?q = Gives fs"
      "int (length fs) \<le> maxTopFields (engConfig e)" "runFields e fs [] = Data d"
    by (auto simp: Execute_def Let_def split: outcome.splits if_splits)
  show ?thesis using guards fs(1,2) runFields_Data[OF fs(3)] by blast
qed

theorem answers_stay_within_limits_witness:
  "Execute (NewEngine NewStore None) ''{ b: block }'' = Gives (Data [(''b'', VNil)]) \<and>
   queryDepth (trimSpace ''{ b: block }'') \<le> 10"
proof -
  have x: "Execute (NewEngine NewStore None) ''{ b: block }'' = Gives (Data [(''b'', VNil)])" by code_simp
  have "MaxQueryDepth (engConfig (NewEngine NewStore None)) = 10" by code_simp
  then show ?thesis using answers_stay_within_limits[OF x] x by simp
qed

section \<open>What a schema registers\<close>

definition serves :: "engine \<Rightarrow> string \<Rightarrow> bool" where
  "serves e k \<longleftrightarrow> getKey (engResolvers e) k \<noteq> None"

text \<open>A registration step: the store and the limits stay, no served field is lost, every name of its
  table is served, and a field is served by the table or as before.\<close>

definition registers :: "(engine \<Rightarrow> engine) \<Rightarrow> (string \<times> resolver) list \<Rightarrow> bool" where
  "registers f rows \<longleftrightarrow> (\<forall>e. engStore (f e) = engStore e \<and> engConfig (f e) = engConfig e \<and>
     (\<forall>k. serves (f e) k \<longleftrightarrow> serves e k \<or> k \<in> fst ` set rows) \<and>
     (\<forall>k r. getKey (engResolvers (f e)) k = Some r \<longrightarrow> (k, r) \<in> set rows \<or> getKey (engResolvers e) k = Some r))"

lemma getKey_rev_None: "getKey (rev rows) k = None \<longleftrightarrow> k \<notin> fst ` set rows"
  by (simp add: getKey_def map_of_eq_None_iff)

lemma getKey_None: "getKey rows k = None \<longleftrightarrow> k \<notin> fst ` set rows"
  by (simp add: getKey_def map_of_eq_None_iff)

lemma dom_putAllKeys: "fst ` set (putAllKeys rows m) = fst ` set rows \<union> fst ` set m"
  by (induction rows arbitrary: m) (auto simp: putAllKeys_def case_prod_beta)

lemma getKey_putAllKeys_Some: "getKey (putAllKeys rows m) k = Some v \<Longrightarrow> (k, v) \<in> set rows \<or> getKey m k = Some v"
  using map_of_SomeD[of "rev rows" k v] by (auto simp: getKey_putAllKeys getKey_def[of "rev rows"] split: option.splits)

lemma registerOwn_registers: "registers (registerOwn rows) rows"
  by (auto simp: registers_def serves_def registerOwn_def getKey_None dom_putAllKeys dest: getKey_putAllKeys_Some)

lemma putAllKeys_sub: "set (putAllKeys rows []) \<subseteq> set rows"
proof -
  have "set (putAllKeys rows m) \<subseteq> set rows \<union> set m" for m :: "'a gomap"
  proof (induction rows arbitrary: m)
    case (Cons r rows)
    obtain a v where r: "r = (a, v)" by force
    have "set (putKey a v m) \<subseteq> insert (a, v) (set m)" by (rule set_putKey)
    then show ?case using Cons[of "putKey a v m"] by (auto simp: putAllKeys_def r)
  qed (simp add: putAllKeys_def)
  then show ?thesis by force
qed

lemma registerChain_registers: "registers (registerChain rows) rows"
proof -
  have "(k, r) \<in> set rows \<or> getKey (engResolvers e) k = Some r"
    if "getKey (putAllKeys (putAllKeys rows []) (engResolvers e)) k = Some r" for e k r
    using getKey_putAllKeys_Some[OF that] putAllKeys_sub[of rows] by auto
  then show ?thesis
    by (auto simp: registers_def serves_def registerChain_def getKey_None dom_putAllKeys Let_def)
qed

lemma registersD:
  assumes "registers f rows"
  shows "engStore (f e) = engStore e" "engConfig (f e) = engConfig e"
    "serves (f e) k \<longleftrightarrow> serves e k \<or> k \<in> fst ` set rows"
    "getKey (engResolvers (f e)) k = Some r \<Longrightarrow> (k, r) \<in> set rows \<or> getKey (engResolvers e) k = Some r"
  using assms by (simp_all add: registers_def)

lemma registersI:
  assumes "\<And>e. engStore (f e) = engStore e" "\<And>e. engConfig (f e) = engConfig e"
    "\<And>e k. serves (f e) k \<longleftrightarrow> serves e k \<or> k \<in> fst ` set rows"
    "\<And>e k r. getKey (engResolvers (f e)) k = Some r \<Longrightarrow> (k, r) \<in> set rows \<or> getKey (engResolvers e) k = Some r"
  shows "registers f rows"
  using assms by (simp add: registers_def)

lemma registers_comp: "registers f ns \<Longrightarrow> registers g ms \<Longrightarrow> registers (\<lambda>e. g (f e)) (ns @ ms)"
  by (rule registersI) (auto simp: registersD(1-3) image_Un dest!: registersD(4))

lemma registers_fold:
  "list_all2 registers fs ns \<Longrightarrow> registers (\<lambda>e. foldl (\<lambda>e f. f e) e fs) (concat ns)"
proof (induction fs ns rule: list_all2_induct)
  case Nil
  then show ?case by (simp add: registers_def)
next
  case (Cons f fs n ns)
  then show ?case using registers_comp[of f n "\<lambda>e. foldl (\<lambda>e f. f e) e fs" "concat ns"] by simp
qed

text \<open>Every table the schema \<open>all\<close> registers, in its order.\<close>

definition allTables :: "(string \<times> resolver) list list" where
  "allTables =
     [registerAMMResolvers, registerV4Resolvers, registerERC20Resolvers, registerERC721Resolvers,
      dexRegister, fheRegister, platformRegister, exchangeRegister, utxoRegister, bridgeRegister,
      privacyRegister, quantumRegister, keyRegister, mpcRegister, aiRegister, identityRegister,
      oracleRegister, relayRegister, zkRegister, servicenodeRegister, precompileRegister,
      governanceRegister, daoRegister, treasuryRegister, liquidRegister, didRegister,
      predictionRegister, securitiesRegister, derivativesRegister, liquidityRegister,
      liquidprotocolRegister]"

definition allRows :: "(string \<times> resolver) list" where
  "allRows = concat allTables"

lemma rows_in_all: "t \<in> set allTables \<Longrightarrow> set t \<subseteq> set allRows"
  by (auto simp: allRows_def)

text \<open>A schema step is one of the engine's registrations of tables that \<open>all\<close> also registers.\<close>

definition schemaStep :: "(engine \<Rightarrow> engine) \<Rightarrow> bool" where
  "schemaStep f \<longleftrightarrow> (\<exists>ns. registers f ns \<and> set ns \<subseteq> set allRows)"

lemma schemaStep_own: "t \<in> set allTables \<Longrightarrow> schemaStep (registerOwn t)"
  unfolding schemaStep_def using registerOwn_registers rows_in_all by blast

lemma schemaStep_chain: "t \<in> set allTables \<Longrightarrow> schemaStep (registerChain t)"
  unfolding schemaStep_def using registerChain_registers rows_in_all by blast

lemma schemaStep_comp: "schemaStep f \<Longrightarrow> schemaStep g \<Longrightarrow> schemaStep (\<lambda>e. g (f e))"
  unfolding schemaStep_def by (metis Un_least registers_comp set_append)

lemma LoadBuiltin_all:
  "\<exists>f. registers f allRows \<and> (\<forall>e. LoadBuiltin ''all'' e = Inr (f e))"
proof -
  let ?own = "map registerOwn (take 4 allTables)" and ?chain = "map registerChain (drop 4 allTables)"
  have "list_all2 registers (?own @ ?chain) allTables"
    using list_all2_appendI[of registers ?own "take 4 allTables" ?chain "drop 4 allTables"]
    by (simp add: list_all2_map1 list_all2_same registerOwn_registers registerChain_registers)
  then have "registers (\<lambda>e. foldl (\<lambda>e f. f e) e (?own @ ?chain)) allRows"
    unfolding allRows_def by (rule registers_fold)
  moreover have "LoadBuiltin ''all'' e = Inr (foldl (\<lambda>e f. f e) e (?own @ ?chain))" for e
    by (simp add: LoadBuiltin_def allTables_def)
  ultimately show ?thesis by blast
qed

definition schemaOk :: "engine \<Rightarrow> string + engine \<Rightarrow> bool" where
  "schemaOk e r \<longleftrightarrow> (\<forall>e'. r = Inr e' \<longrightarrow> (\<exists>f. schemaStep f \<and> e' = f e))"

lemma schemaOk_if: "schemaOk e a \<Longrightarrow> schemaOk e b \<Longrightarrow> schemaOk e (if c then a else b)"
  by simp

lemma schemaOk_step: "schemaStep f \<Longrightarrow> schemaOk e (Inr (f e))"
  by (auto simp: schemaOk_def)

lemma schemaOk_two: "schemaStep f \<Longrightarrow> schemaStep g \<Longrightarrow> schemaOk e (Inr (g (f e)))"
  using schemaStep_comp by (auto simp: schemaOk_def)

lemma schemaStep_fold: "list_all schemaStep fs \<Longrightarrow> schemaStep (\<lambda>e. foldl (\<lambda>e f. f e) e fs)"
proof (induction fs)
  case Nil
  then show ?case by (auto simp: schemaStep_def registers_def intro: exI[of _ "[]"])
next
  case (Cons f fs)
  then show ?case using schemaStep_comp[of f "\<lambda>e. foldl (\<lambda>e f. f e) e fs"] by simp
qed

lemma schemaOk_fold: "list_all schemaStep fs \<Longrightarrow> schemaOk e (Inr (foldl (\<lambda>e f. f e) e fs))"
  using schemaStep_fold by (auto simp: schemaOk_def)

lemma schemaOk_Inl: "schemaOk e (Inl m)"
  by (simp add: schemaOk_def)

lemma in_allTables:
  "registerAMMResolvers \<in> set allTables" "registerV4Resolvers \<in> set allTables"
  "registerERC20Resolvers \<in> set allTables" "registerERC721Resolvers \<in> set allTables"
  "dexRegister \<in> set allTables" "fheRegister \<in> set allTables" "platformRegister \<in> set allTables"
  "exchangeRegister \<in> set allTables" "utxoRegister \<in> set allTables" "bridgeRegister \<in> set allTables"
  "privacyRegister \<in> set allTables" "quantumRegister \<in> set allTables" "keyRegister \<in> set allTables"
  "mpcRegister \<in> set allTables" "aiRegister \<in> set allTables" "identityRegister \<in> set allTables"
  "oracleRegister \<in> set allTables" "relayRegister \<in> set allTables" "zkRegister \<in> set allTables"
  "servicenodeRegister \<in> set allTables" "precompileRegister \<in> set allTables"
  "governanceRegister \<in> set allTables" "daoRegister \<in> set allTables" "treasuryRegister \<in> set allTables"
  "liquidRegister \<in> set allTables" "didRegister \<in> set allTables" "predictionRegister \<in> set allTables"
  "securitiesRegister \<in> set allTables" "derivativesRegister \<in> set allTables"
  "liquidityRegister \<in> set allTables" "liquidprotocolRegister \<in> set allTables"
  by (simp_all add: allTables_def)

lemmas schema_intros =
  schemaOk_if schemaOk_two[OF schemaStep_own schemaStep_own] schemaOk_step[OF schemaStep_own]
  schemaOk_step[OF schemaStep_chain] schemaOk_fold schemaOk_Inl in_allTables

lemma LoadBuiltin_schemaOk: "schemaOk e (LoadBuiltin name e)"
  unfolding LoadBuiltin_def
  by (intro schema_intros; simp only: list.pred_inject schemaStep_own schemaStep_chain in_allTables simp_thms)

lemma LoadBuiltin_step:
  assumes "LoadBuiltin name e = Inr e1"
  obtains f rows where "registers f rows" "set rows \<subseteq> set allRows" "e1 = f e"
  using LoadBuiltin_schemaOk[of e name] assms by (auto simp: schemaOk_def schemaStep_def)

text \<open>Loading a schema keeps the store, the limits and every field already served, and whatever any schema name
serves is also served after loading the schema named all: the catch-all schema misses no other one.\<close>

theorem schemas_covered_by_all:
  assumes "LoadBuiltin name e = Inr e1"
  shows "engStore e1 = engStore e \<and> engConfig e1 = engConfig e \<and>
    (\<forall>k. serves e k \<longrightarrow> serves e1 k) \<and>
    (\<exists>e2. LoadBuiltin ''all'' e = Inr e2 \<and> (\<forall>k. serves e1 k \<longrightarrow> serves e2 k))"
proof -
  obtain g where g: "registers g allRows" "\<And>e. LoadBuiltin ''all'' e = Inr (g e)"
    using LoadBuiltin_all by blast
  obtain f rows where "registers f rows" "set rows \<subseteq> set allRows" "e1 = f e"
    using LoadBuiltin_step[OF assms] .
  then show ?thesis using g by (simp add: registers_def) blast
qed

theorem schemas_covered_by_all_witness:
  "\<exists>e1 e2. LoadBuiltin ''zk'' (NewEngine NewStore None) = Inr e1 \<and> LoadBuiltin ''all'' (NewEngine NewStore None) = Inr e2 \<and>
     serves e1 ''zkProofs'' \<and> serves e2 ''zkProofs''"
proof -
  obtain e1 where e1: "LoadBuiltin ''zk'' (NewEngine NewStore None) = Inr e1" "e1 = registerChain zkRegister (NewEngine NewStore None)"
    by (simp add: LoadBuiltin_def)
  have "serves e1 ''zkProofs''"
    using registerChain_registers[of zkRegister] e1(2) by (auto simp: registers_def zkRegister_def)
  then show ?thesis using schemas_covered_by_all[OF e1(1)] e1(1) by blast
qed

end
