(* ===== verification/QueryLimits.thy ===== *)
theory QueryLimits
  imports Engine
begin

text \<open>
  How much one query may fetch.  A field that lists rows goes through \<open>parseListArgs\<close> (src/engine/amm.go)
  or the \<open>pl\<close> of its chain package (src/resolvers), which clamp the limit it asks for; here that clamp
  is carried through the store's collection reads to every resolver of every schema.
\<close>

text \<open>A resolver answers at most 1000 rows over a store whose entities are not lists themselves.\<close>

definition rowsOnly :: "store \<Rightarrow> bool" where
  "rowsOnly s \<longleftrightarrow> (\<forall>kv \<in> set (dbGeneric s). \<forall>vs. snd kv \<noteq> VList vs)"

definition atMost1000 :: "resolver \<Rightarrow> bool" where
  "atMost1000 r \<longleftrightarrow> (\<forall>s args vs. rowsOnly s \<longrightarrow> r s args = Inr (VList vs) \<longrightarrow> length vs \<le> 1000)"

lemma getByType_row: "rowsOnly s \<Longrightarrow> GetByType s t i \<noteq> VList vs"
  by (auto simp: GetByType_def rowsOnly_def getKey_def dest!: map_of_SomeD split: option.splits)

lemma pl_range: "1 \<le> pl args \<and> pl args \<le> 1000"
  by (simp add: pl_def Let_def)

lemma atMost_listOf: "atMost1000 (listOf t)"
proof -
  have "int (length (listLoop p (pl args) m [])) \<le> 1000" for p args m
    using listLoop_length[of "pl args" "[]" p m] pl_range[of args] by simp
  then have "length (listLoop p (pl args) m []) \<le> 1000" for p args m
    by (metis of_nat_le_iff of_nat_numeral)
  then show ?thesis by (auto simp: atMost1000_def listOf_def ListByType_def)
qed

lemma atMost_byArg: "atMost1000 (byArg a t e)"
  by (auto simp: atMost1000_def byArg_def getByType_row split: option.splits)

lemma atMost_single: "atMost1000 (single t)"
  by (auto simp: atMost1000_def single_def getByType_row)

lemma parseListArgs_range: "1 \<le> fst (parseListArgs args d) \<and> fst (parseListArgs args d) \<le> 1000"
  by (simp add: parseListArgs_def Let_def)

text \<open>The collection reads: a list no longer than a positive limit.\<close>

definition pagedRead :: "(store \<Rightarrow> int \<Rightarrow> string \<Rightarrow> string \<Rightarrow> val gomap \<Rightarrow> val) \<Rightarrow> bool" where
  "pagedRead g \<longleftrightarrow> (\<forall>s l o1 d w vs. 0 \<le> l \<longrightarrow> g s l o1 d w = VList vs \<longrightarrow> int (length vs) \<le> l)"

lemma atMost_listWith: "pagedRead g \<Longrightarrow> atMost1000 (\<lambda>s. listWith n (g s))"
proof -
  assume g: "pagedRead g"
  have "length vs \<le> 1000" if "g s (fst (parseListArgs args n)) o1 d w = VList vs" for s args o1 d w vs
  proof -
    have "int (length vs) \<le> fst (parseListArgs args n)"
      using g that parseListArgs_range[of args n] by (auto simp: pagedRead_def)
    then show ?thesis using parseListArgs_range[of args n] by linarith
  qed
  then show ?thesis by (auto simp: atMost1000_def listWith_def split: prod.splits) (metis fst_conv)
qed

lemma paged_reads:
  "pagedRead GetPools" "pagedRead GetPairs" "pagedRead GetSwaps" "pagedRead GetTokens"
  "pagedRead GetTokenDayDatas" "pagedRead GetPoolDayDatas" "pagedRead GetFactoryDayDatas"
  by (auto simp: pagedRead_def GetPools_def GetPairs_def GetSwaps_def GetTokens_def GetTokenDayDatas_def
      GetPoolDayDatas_def GetFactoryDayDatas_def Entities_def length_page)

lemma paged_empty:
  "pagedRead GetMints" "pagedRead GetBurns" "pagedRead GetTicks" "pagedRead GetPositions" "pagedRead GetCollects"
  "pagedRead GetFlashes" "pagedRead GetPairDayDatas" "pagedRead GetPairHourDatas" "pagedRead GetTransfers"
  "pagedRead GetNFTs" "pagedRead GetModifyLiquiditys" "pagedRead GetSubscribes" "pagedRead GetUnsubscribes"
  "pagedRead GetPoolHourDatas" "pagedRead GetTokenHourDatas"
  by (simp_all add: pagedRead_def GetMints_def GetBurns_def GetTicks_def GetPositions_def GetCollects_def GetFlashes_def
      GetPairDayDatas_def GetPairHourDatas_def GetTransfers_def GetNFTs_def GetModifyLiquiditys_def GetSubscribes_def
      GetUnsubscribes_def GetPoolHourDatas_def GetTokenHourDatas_def noRows_def)

section \<open>Every resolver of every schema\<close>

definition uncapped :: "string set" where
  "uncapped = {''factories'', ''uniswapFactories'', ''poolManagers''}"

definition capped :: "(string \<times> resolver) list \<Rightarrow> bool" where
  "capped rows \<longleftrightarrow> (\<forall>(k, r) \<in> set rows. k \<in> uncapped \<or> atMost1000 r)"

lemma capped_Nil: "capped []"
  by (simp add: capped_def)

lemma capped_Cons: "atMost1000 r \<Longrightarrow> capped rows \<Longrightarrow> capped ((k, r) # rows)"
  by (simp add: capped_def)

lemma capped_skip: "k \<in> uncapped \<Longrightarrow> capped rows \<Longrightarrow> capped ((k, r) # rows)"
  by (simp add: capped_def)

lemma atMost_byId: "atMost1000 (byId t n)"
  unfolding byId_def by (rule atMost_byArg)

lemmas chain_capped = capped_Nil capped_Cons atMost_byArg atMost_byId atMost_listOf atMost_single

lemma chain_tables_capped:
  "capped aiRegister" "capped bridgeRegister" "capped daoRegister" "capped derivativesRegister"
  "capped dexRegister" "capped didRegister" "capped exchangeRegister" "capped fheRegister"
  "capped governanceRegister" "capped identityRegister" "capped keyRegister" "capped liquidRegister"
  "capped liquidityRegister" "capped liquidprotocolRegister" "capped mpcRegister" "capped oracleRegister"
  "capped platformRegister" "capped precompileRegister" "capped predictionRegister" "capped privacyRegister"
  "capped quantumRegister" "capped relayRegister" "capped securitiesRegister" "capped servicenodeRegister"
  "capped treasuryRegister" "capped utxoRegister" "capped zkRegister"
  unfolding register_defs by (intro chain_capped)+

lemma row_reads:
  "GetToken s i \<noteq> VList vs" "GetPool s i \<noteq> VList vs" "GetSwap s i \<noteq> VList vs" "GetBundle s i \<noteq> VList vs"
  "GetFactory s i \<noteq> VList vs"
  by (simp_all add: GetToken_def tokenToMap_def GetPool_def poolToMap_def GetSwap_def swapToMap_def GetBundle_def
      GetFactory_def factoryToMap_def split: option.splits)

lemma atMost_requireId: "(\<And>s i vs. g s i \<noteq> VList vs) \<Longrightarrow> atMost1000 (\<lambda>s. requireId e (g s))"
  by (auto simp: atMost1000_def requireId_def split: option.splits)

lemma own_rows_capped:
  "atMost1000 resolveFactory" "atMost1000 resolveBundle" "atMost1000 resolveBundles" "atMost1000 resolvePool"
  "atMost1000 resolvePair" "atMost1000 resolveSwap" "atMost1000 resolveMint" "atMost1000 resolveBurn"
  "atMost1000 resolveTick" "atMost1000 resolvePosition" "atMost1000 resolveCollect" "atMost1000 resolveFlash"
  "atMost1000 resolveToken" "atMost1000 resolveTransfer" "atMost1000 resolveNFT" "atMost1000 resolvePoolManager"
  "atMost1000 resolveModifyLiquidity" "atMost1000 resolveSubscribe" "atMost1000 resolveUnsubscribe"
  "atMost1000 resolveBlock" "atMost1000 resolveBlocks" "atMost1000 resolveTransaction" "atMost1000 resolveTransactions"
  by (auto simp: atMost1000_def resolveFactory_def resolveBundle_def resolveBundles_def resolvePool_def resolvePair_def
      resolveSwap_def resolveMint_def resolveBurn_def resolveTick_def resolvePosition_def resolveCollect_def
      resolveFlash_def resolveToken_def resolveTransfer_def resolveNFT_def resolvePoolManager_def
      resolveModifyLiquidity_def resolveSubscribe_def resolveUnsubscribe_def resolveBlock_def resolveBlocks_def
      resolveTransaction_def resolveTransactions_def requireId_def row_reads noRow_def GetPair_def GetMint_def
      GetBurn_def GetTick_def GetPosition_def GetCollect_def GetFlash_def GetTransfer_def GetNFT_def
      GetModifyLiquidity_def GetSubscribe_def GetUnsubscribe_def GetBlock_def GetBlockByNumber_def GetLatestBlock_def
      GetBlocks_def GetTransaction_def GetTransactions_def Let_def split: option.splits if_splits)

lemma own_lists_capped:
  "atMost1000 resolvePools" "atMost1000 resolvePairs" "atMost1000 resolveSwaps" "atMost1000 resolveMints"
  "atMost1000 resolveBurns" "atMost1000 resolveTicks" "atMost1000 resolvePositions" "atMost1000 resolveCollects"
  "atMost1000 resolveFlashes" "atMost1000 resolveTokenDayDatas" "atMost1000 resolvePairDayDatas"
  "atMost1000 resolvePoolDayDatas" "atMost1000 resolvePairHourDatas" "atMost1000 resolveFactoryDayDatas"
  "atMost1000 resolveTokens" "atMost1000 resolveTransfers" "atMost1000 resolveNFTs" "atMost1000 resolveModifyLiquiditys"
  "atMost1000 resolveSubscribes" "atMost1000 resolveUnsubscribes" "atMost1000 resolvePoolHourDatas"
  "atMost1000 resolveTokenHourDatas" "atMost1000 resolveUniswapDayDatas"
  using atMost_listWith[OF paged_reads(1)] atMost_listWith[OF paged_reads(2)] atMost_listWith[OF paged_reads(3)]
    atMost_listWith[OF paged_reads(4)] atMost_listWith[OF paged_reads(5)] atMost_listWith[OF paged_reads(6)]
    atMost_listWith[OF paged_reads(7)] paged_empty[THEN atMost_listWith]
  by (simp_all only: atMost1000_def resolvePools_def resolvePairs_def resolveSwaps_def resolveMints_def resolveBurns_def
      resolveTicks_def resolvePositions_def resolveCollects_def resolveFlashes_def resolveTokenDayDatas_def
      resolvePairDayDatas_def resolvePoolDayDatas_def resolvePairHourDatas_def resolveFactoryDayDatas_def
      resolveTokens_def resolveTransfers_def resolveNFTs_def resolveModifyLiquiditys_def resolveSubscribes_def
      resolveUnsubscribes_def resolvePoolHourDatas_def resolveTokenHourDatas_def resolveUniswapDayDatas_def) blast+

lemma own_tables_capped:
  "capped registerAMMResolvers" "capped registerV4Resolvers" "capped registerERC20Resolvers"
  "capped registerERC721Resolvers" "capped registerBuiltinResolvers"
  by (simp_all add: capped_def uncapped_def registerAMMResolvers_def registerV4Resolvers_def registerERC20Resolvers_def
      registerERC721Resolvers_def registerBuiltinResolvers_def own_rows_capped own_lists_capped)

lemma allRows_capped: "capped allRows"
  using chain_tables_capped own_tables_capped by (simp add: capped_def allRows_def allTables_def ball_Un)

definition exRow :: seedPool where
  "exRow =
     \<lparr>spToken0 = ''a'', spToken1 = ''b'', spFeeTier = 3000, spTotalValueLockedUSD = ''0'', spVolumeUSD = ''0'',
      spToken0Price = ''0'', spToken1Price = ''0'', spTxCount = 0\<rparr>"

text \<open>C33: No field of any schema fetches more than 1000 rows, however large the first argument: this holds for every
resolver an engine can serve after loading any schema, except the three that list every factory.\<close>

theorem lists_are_capped:
  assumes "LoadBuiltin name (NewEngine s0 cfg) = Inr e" "getKey (engResolvers e) k = Some r"
    "k \<notin> {''factories'', ''uniswapFactories'', ''poolManagers''}" "rowsOnly s" "r s args = Inr (VList vs)"
  shows "length vs \<le> 1000"
proof -
  obtain f rows where f: "registers f rows" "set rows \<subseteq> set allRows" "e = f (NewEngine s0 cfg)"
    using LoadBuiltin_step[OF assms(1)] .
  have "(k, r) \<in> set allRows \<or> (k, r) \<in> set registerBuiltinResolvers"
  proof (cases "(k, r) \<in> set rows")
    case False
    then have "getKey (putAllKeys registerBuiltinResolvers []) k = Some r"
      using registersD(4)[OF f(1), of "NewEngine s0 cfg" k r] assms(2) f(3) by (simp add: NewEngine_def registerOwn_def)
    then show ?thesis using getKey_putAllKeys_Some[of registerBuiltinResolvers "[]" k r] by (simp add: getKey_def)
  qed (use f(2) in auto)
  then have "atMost1000 r"
    using allRows_capped own_tables_capped(5) assms(3) by (auto simp: capped_def uncapped_def)
  then show ?thesis using assms(4,5) by (auto simp: atMost1000_def)
qed

theorem lists_are_capped_witness:
  "\<exists>vs. resolvePools (SeedPool ''p'' exRow NewStore) [(''first'', VStr ''5000'')] = Inr (VList vs) \<and> length vs \<le> 1000"
proof -
  let ?s = "SeedPool ''p'' exRow NewStore" and ?e = "NewEngine NewStore None"
  have l: "LoadBuiltin ''amm'' ?e = Inr (registerOwn registerAMMResolvers ?e)" by (simp add: LoadBuiltin_def)
  have g: "getKey (engResolvers (registerOwn registerAMMResolvers ?e)) ''pools'' = Some resolvePools"
    by (simp add: registerOwn_def getKey_putAllKeys) (simp add: registerAMMResolvers_def getKey_def)
  obtain vs where v: "resolvePools ?s [(''first'', VStr ''5000'')] = Inr (VList vs)"
    by (cases "parseListArgs [(''first'', VStr ''5000'')] 100") (simp add: resolvePools_def listWith_def GetPools_def)
  have "rowsOnly ?s" by (simp add: rowsOnly_def SeedPool_def NewStore_def)
  then show ?thesis using lists_are_capped[OF l g _ _ v] v by simp
qed

end
