(* ===== verification/Erc20.thy ===== *)
theory Erc20
  imports Store Abi "HOL-Library.Signed_Division"
begin

unbundle bit_operations_syntax

text \<open>
  Token identity, src/indexer/erc20.go: what a token contract answers, how a fresh answer is folded
  over the stored row, and the memo that asks the chain at most once per address.

  Bytes are a \<open>string\<close>.  The chain is the parameter \<open>call\<close>: the text \<open>eth_call\<close> answers for an
  address and a selector, or None when the call fails.  A Go run-time panic is None; it propagates
  through \<open>readERC20\<close> and \<open>token\<close> as it does through the calls of the source.

  The store and the cache hold the row itself, not a pointer shared by the two.
\<close>

definition selSymbol :: string where "selSymbol = ''0x95d89b41''"
definition selName :: string where "selName = ''0x06fdde03''"
definition selDecimals :: string where "selDecimals = ''0x313ce567''"
definition selTotalSupply :: string where "selTotalSupply = ''0x18160ddd''"

definition defaultDecimals :: int where "defaultDecimals = 18"
definition unread :: int where "unread = -1"

section \<open>Bytes\<close>

definition hexNibble :: "char \<Rightarrow> nat option" where
  "hexNibble c =
     (let b = byteOf c in
      if 48 \<le> b \<and> b \<le> 57 then Some (b - 48)
      else if 97 \<le> b \<and> b \<le> 102 then Some (b - 97 + 10)
      else if 65 \<le> b \<and> b \<le> 70 then Some (b - 65 + 10)
      else None)"

text \<open>The loop over the digit pairs; None is the early \<open>return nil\<close>.\<close>

fun nibblePairs :: "string \<Rightarrow> string option" where
  "nibblePairs (h # l # cs) =
     (case (hexNibble h, hexNibble l) of
        (Some hi, Some lo) \<Rightarrow> map_option (\<lambda>r. char_of (hi * 16 + lo) # r) (nibblePairs cs)
      | _ \<Rightarrow> None)"
| "nibblePairs _ = Some []"

definition hexToBytes :: "string \<Rightarrow> string" where
  "hexToBytes s0 =
     (let s = trimPrefix (trimSpace s0) ''0x'' in
      if s = [] \<or> length s mod 2 \<noteq> 0 then []
      else case nibblePairs s of None \<Rightarrow> [] | Some out \<Rightarrow> out)"

definition bigEndian :: "string \<Rightarrow> nat" where
  "bigEndian bs = foldl (\<lambda>n c. n * 256 + byteOf c) 0 bs"

text \<open>\<open>beUint\<close> keeps the low 8 bytes and converts the \<open>uint64\<close> to \<open>int\<close>.\<close>

definition beUint :: "string \<Rightarrow> 64 word" where
  "beUint w = foldl (\<lambda>n c. (push_bit 8 n) OR (of_nat (byteOf c))) 0
     (if length w > 8 then drop (length w - 8) w else w)"

definition sanitizeUTF8 :: "string \<Rightarrow> string" where
  "sanitizeUTF8 s = trimSpace (filter (\<lambda>c. byteOf c \<noteq> 0) s)"

definition trimRightNul :: "string \<Rightarrow> string" where
  "trimRightNul s = rev (dropWhile (\<lambda>c. byteOf c = 0) (rev s))"

section \<open>Decoding an answer\<close>

text \<open>\<open>64+int(length)\<close> is 64-bit signed arithmetic, and the slice \<open>b[64:64+length]\<close> panics when its
  upper bound is below its lower one.\<close>

definition bytes32Text :: "string \<Rightarrow> string" where
  "bytes32Text b = (if length b = 32 then sanitizeUTF8 (trimRightNul b) else '''')"

definition decodeERC20String :: "string \<Rightarrow> string option" where
  "decodeERC20String hexStr =
     (let b = hexToBytes hexStr in
      if b = [] then Some ''''
      else if 64 \<le> length b \<and> beUint (take 32 b) = 32 then
        (let n = beUint (substr b 32 64); high = sint (64 + n) in
         if 0 < sint n \<and> high \<le> int (length b) then
           (if high < 64 then None else Some (sanitizeUTF8 (substr b 64 (nat high))))
         else if n = 0 then Some ''''
         else Some (bytes32Text b))
      else Some (bytes32Text b))"

definition decodeERC20Decimals :: "string \<Rightarrow> int option" where
  "decodeERC20Decimals hexStr =
     (let b = hexToBytes hexStr in
      if length b < 32 then None
      else if \<exists>x \<in> set (take 31 b). byteOf x \<noteq> 0 then None
      else Some (int (byteOf (b ! 31))))"

definition decodeERC20Uint :: "string \<Rightarrow> int option" where
  "decodeERC20Uint hexStr =
     (let b = hexToBytes hexStr in
      if length b < 32 then None else Some (int (bigEndian (take 32 b))))"

text \<open>\<open>QuoRem\<close> truncates towards zero.  The padding count is never negative for the amounts read
  here, which are not negative.\<close>

definition trimRightZeros :: "string \<Rightarrow> string" where
  "trimRightZeros s = rev (dropWhile (\<lambda>c. c = CHR ''0'') (rev s))"

definition wholeUnits :: "int option \<Rightarrow> int \<Rightarrow> string" where
  "wholeUnits amount decimals =
     (case amount of
        None \<Rightarrow> ''''
      | Some n \<Rightarrow>
          if decimals \<le> 0 then intText 10 n
          else (let pow = 10 ^ nat decimals; q = n sdiv pow; r = n smod pow in
                if r = 0 then intText 10 q
                else (let digits = intText 10 r;
                          frac = replicate (nat decimals - length digits) (CHR ''0'') @ digits
                      in intText 10 q @ ''.'' @ trimRightZeros frac)))"

section \<open>Reading, folding, remembering\<close>

definition shortAddr :: "string \<Rightarrow> string" where
  "shortAddr addr = (if length addr \<ge> 8 then take 8 addr else addr)"

definition isPlaceholderSymbol :: "string \<Rightarrow> string \<Rightarrow> bool" where
  "isPlaceholderSymbol symbol addr = (symbol = '''' \<or> equalFold symbol (shortAddr addr))"

definition settled :: "seedToken option \<Rightarrow> string \<Rightarrow> bool" where
  "settled t addr =
     (case t of None \<Rightarrow> False
      | Some t \<Rightarrow> \<not> isPlaceholderSymbol (stSymbol t) addr \<and> stTotalSupply t \<noteq> '''')"

definition emptyToken :: seedToken where
  "emptyToken =
     \<lparr>stSymbol = '''', stName = '''', stDecimals = unread, stTotalSupply = '''', stStaked = '''',
      stVolumeUSD = '''', stTotalValueLockedUSD = '''', stDerivedETH = '''', stTxCount = 0\<rparr>"

definition foldRead :: "seedToken option \<Rightarrow> seedToken \<Rightarrow> seedToken" where
  "foldRead read out =
     (case read of
        None \<Rightarrow> out
      | Some r \<Rightarrow>
          out\<lparr>stSymbol := (if stSymbol r \<noteq> '''' then stSymbol r else stSymbol out),
              stName := (if stName r \<noteq> '''' then stName r else stName out),
              stDecimals := (if stDecimals r \<noteq> unread then stDecimals r else stDecimals out),
              stTotalSupply := (if stTotalSupply r \<noteq> '''' then stTotalSupply r else stTotalSupply out)\<rparr>)"

definition resolve :: "seedToken option \<Rightarrow> seedToken option \<Rightarrow> string \<Rightarrow> seedToken" where
  "resolve stored read addr =
     (let out = foldRead read (case stored of Some t \<Rightarrow> t | None \<Rightarrow> emptyToken) in
      out\<lparr>stSymbol := (if stSymbol out = '''' then shortAddr addr else stSymbol out),
          stName := (if stName out = '''' then addr else stName out),
          stDecimals := (if stDecimals out = unread then defaultDecimals else stDecimals out)\<rparr>)"

type_synonym ethCalls = "string \<Rightarrow> string \<Rightarrow> string option"

definition readText :: "ethCalls \<Rightarrow> string \<Rightarrow> string \<Rightarrow> string option" where
  "readText call addr sel =
     (case call addr sel of None \<Rightarrow> Some '''' | Some raw \<Rightarrow> decodeERC20String raw)"

definition readSupply :: "ethCalls \<Rightarrow> string \<Rightarrow> int \<Rightarrow> string" where
  "readSupply call addr decimals =
     (case Option.bind (call addr selTotalSupply) decodeERC20Uint of
        None \<Rightarrow> ''''
      | Some n \<Rightarrow> wholeUnits (Some n) (if decimals = unread then defaultDecimals else decimals))"

definition readERC20 :: "ethCalls \<Rightarrow> string \<Rightarrow> seedToken option" where
  "readERC20 call addr =
     Option.bind (readText call addr selSymbol) (\<lambda>symbol.
     Option.bind (readText call addr selName) (\<lambda>name.
       let decimals = (case Option.bind (call addr selDecimals) decodeERC20Decimals of
                         Some d \<Rightarrow> d | None \<Rightarrow> unread)
       in Some (emptyToken\<lparr>stSymbol := symbol, stName := name, stDecimals := decimals,
                           stTotalSupply := readSupply call addr decimals\<rparr>)))"

definition asString :: "val \<Rightarrow> string" where
  "asString v = (case v of VNil \<Rightarrow> '''' | VStr s \<Rightarrow> s | _ \<Rightarrow> sprint v)"

definition asInt64 :: "val \<Rightarrow> int" where
  "asInt64 v = (case v of VInt n \<Rightarrow> n | _ \<Rightarrow> (case sscanfD (sprint v) of Some n \<Rightarrow> n | None \<Rightarrow> 0))"

text \<open>A read of a Go map of an absent key gives nil.\<close>

definition getVal :: "val gomap \<Rightarrow> string \<Rightarrow> val" where
  "getVal m k = (case getKey m k of Some v \<Rightarrow> v | None \<Rightarrow> VNil)"

definition storedToken :: "store \<Rightarrow> string \<Rightarrow> seedToken option" where
  "storedToken s addr =
     (case GetToken s addr of
        VMap m \<Rightarrow> Some
          \<lparr>stSymbol = asString (getVal m ''symbol''), stName = asString (getVal m ''name''),
           stDecimals = asInt64 (getVal m ''decimals''),
           stTotalSupply = asString (getVal m ''totalSupply''), stStaked = asString (getVal m ''staked''),
           stVolumeUSD = asString (getVal m ''volumeUSD''),
           stTotalValueLockedUSD = asString (getVal m ''totalValueLockedUSD''),
           stDerivedETH = asString (getVal m ''derivedETH''), stTxCount = asInt64 (getVal m ''txCount'')\<rparr>
      | _ \<Rightarrow> None)"

type_synonym tokenCache = "seedToken gomap"

definition token :: "ethCalls \<Rightarrow> string \<Rightarrow> store \<times> tokenCache \<Rightarrow> (seedToken \<times> store \<times> tokenCache) option" where
  "token call addr st =
     (let s = fst st; cache = snd st; key = toLower addr in
      case getKey cache key of
        Some v \<Rightarrow> Some (v, s, cache)
      | None \<Rightarrow>
          (let stored = storedToken s addr in
           if settled stored addr then Some (the stored, s, putKey key (the stored) cache)
           else map_option (\<lambda>r. let t = resolve stored (Some r) addr in (t, SeedToken addr t s, putKey key t cache))
                  (readERC20 call addr)))"

section \<open>The byte helpers are exact\<close>

lemma nat_below_16: "d < (16::nat) \<Longrightarrow> d \<in> set [0..<16]"
  by simp

lemma hexNibble_digitChar [simp]: "d < 16 \<Longrightarrow> hexNibble (digitChar d) = Some d"
  by (auto simp: hexNibble_def digitChar_def Let_def)

definition hexOf :: "string \<Rightarrow> string" where
  "hexOf bs = concat (map (\<lambda>c. [digitChar (byteOf c div 16), digitChar (byteOf c mod 16)]) bs)"

lemma hexOf_simps [simp]:
  "hexOf [] = []"
  "hexOf (c # bs) = digitChar (byteOf c div 16) # digitChar (byteOf c mod 16) # hexOf bs"
  by (simp_all add: hexOf_def)

lemma length_hexOf [simp]: "length (hexOf bs) = 2 * length bs"
  by (induction bs) auto

lemma char_of_byteOf [simp]: "char_of (byteOf c) = c"
  by (simp add: byteOf_def)

lemma nibblePairs_hexOf: "nibblePairs (hexOf bs) = Some bs"
proof (induction bs)
  case (Cons c bs)
  have "byteOf c div 16 < 16" using byteOf_less[of c] by (simp add: less_mult_imp_div_less)
  then show ?case using Cons by (simp add: div_mult_mod_eq)
qed simp

lemma solid_digitChar: "d < 36 \<Longrightarrow> solid (digitChar d)"
  using byteOf_digitChar[of d] by (auto simp: solid_def asciiSpace_def)

lemma solid_hexOf: "c \<in> set (hexOf bs) \<Longrightarrow> solid c"
proof (induction bs)
  case (Cons b bs)
  have "byteOf b div 16 < 36" using byteOf_less[of b] by arith
  moreover have "byteOf b mod 16 < 36" by (rule less_trans[of _ 16]) simp_all
  ultimately show ?case using Cons by (auto intro: solid_digitChar)
qed simp

lemma hexToBytes_hexOf: "hexToBytes (''0x'' @ hexOf bs) = bs"
proof -
  have "solid (last (''0x'' @ hexOf bs))"
  proof (cases "hexOf bs = []")
    case True
    then show ?thesis by (simp add: solid_def asciiSpace_def byteOf_def)
  next
    case False
    then show ?thesis using solid_hexOf[OF last_in_set] by simp
  qed
  moreover have "solid (hd (''0x'' @ hexOf bs))" by (simp add: solid_def asciiSpace_def byteOf_def)
  ultimately have "trimSpace (''0x'' @ hexOf bs) = ''0x'' @ hexOf bs" by (intro trimSpace_id) blast
  then show ?thesis using nibblePairs_hexOf[of bs] by (cases bs) (simp_all add: hexToBytes_def del: nibblePairs.simps)
qed

fun beBytes :: "nat \<Rightarrow> nat \<Rightarrow> string" where
  "beBytes 0 n = []"
| "beBytes (Suc k) n = beBytes k (n div 256) @ [char_of (n mod 256)]"

lemma length_beBytes [simp]: "length (beBytes k n) = k"
  by (induction k arbitrary: n) auto

lemma drop_beBytes: "drop k (beBytes (k + m) n) = beBytes m n"
  by (induction m arbitrary: n) auto

lemma bigEndian_snoc [simp]: "bigEndian (bs @ [c]) = bigEndian bs * 256 + byteOf c"
  by (simp add: bigEndian_def)

lemma byteOf_char_of_mod [simp]: "byteOf (char_of n) = n mod 256"
  by (simp add: byteOf_def)

lemma bigEndian_beBytes: "bigEndian (beBytes k n) = n mod 256 ^ k"
proof (induction k arbitrary: n)
  case 0
  then show ?case by (simp add: bigEndian_def)
next
  case (Suc k)
  then show ?case by (simp add: mod_mult2_eq add.commute mult.commute)
qed

lemma push_or_byte:
  fixes n :: "64 word"
  assumes "b < 256"
  shows "(push_bit 8 n) OR (of_nat b) = n * 256 + of_nat b"
proof -
  have b: "bit b i \<Longrightarrow> i < 8" for i
  proof (rule ccontr)
    assume "bit b i" "\<not> i < 8"
    then have "2 ^ 8 \<le> (2::nat) ^ i" by (intro power_increasing) auto
    then have "b div 2 ^ i = 0" using assms by (intro div_less) simp
    then show False using \<open>bit b i\<close> by (simp add: bit_iff_odd)
  qed
  have "(push_bit 8 n) AND (of_nat b) = (0 :: 64 word)"
    by (rule bit_eqI) (auto simp: bit_simps dest: b)
  then have "(push_bit 8 n) OR (of_nat b) = push_bit 8 n + of_nat b"
    using word_plus_and_or[of "push_bit 8 n" "of_nat b"] by simp
  then show ?thesis by (simp add: push_bit_eq_mult)
qed

lemma beUint_short: "length w \<le> 8 \<Longrightarrow> beUint w = of_nat (bigEndian w)"
proof -
  have "foldl (\<lambda>n c. (push_bit 8 n) OR (of_nat (byteOf c))) 0 w = (of_nat (bigEndian w) :: 64 word)"
  proof (induction w rule: rev_induct)
    case (snoc c w)
    then show ?case by (simp add: push_or_byte)
  qed (simp add: bigEndian_def)
  then show "length w \<le> 8 \<Longrightarrow> ?thesis" by (simp add: beUint_def)
qed

lemma beUint_word: "n < 2 ^ 64 \<Longrightarrow> beUint (beBytes 32 n) = of_nat n"
proof -
  assume n: "n < 2 ^ 64"
  have "beUint (beBytes 32 n) = beUint (beBytes 8 n)"
    using drop_beBytes[of 24 8 n] by (simp add: beUint_def)
  then show ?thesis using n by (simp add: beUint_short bigEndian_beBytes)
qed

section \<open>Decoding an ABI string\<close>

definition abiString :: "nat \<Rightarrow> string \<Rightarrow> string" where
  "abiString n bytes = ''0x'' @ hexOf (beBytes 32 32 @ beBytes 32 n @ bytes)"

lemma sint_64_plus: "sint (64 + word_of_nat n :: 64 word) = signed_take_bit 63 (64 + int n)"
proof -
  have e: "64 + word_of_nat n = (word_of_int (64 + int n) :: 64 word)" by simp
  show ?thesis unfolding e sint_sbintrunc' by simp
qed

lemma sint_small_nat: "n < 2 ^ 63 \<Longrightarrow> sint (of_nat n :: 64 word) = int n"
  by (simp add: signed_of_nat signed_take_bit_int_eq_self)

lemma of_nat_zero_small:
  assumes "n < 2 ^ 63"
  shows "(of_nat n :: 64 word) = 0 \<longleftrightarrow> n = 0"
proof
  assume "(of_nat n :: 64 word) = 0"
  then have "sint (of_nat n :: 64 word) = 0" by (simp only: signed_0)
  then show "n = 0" using sint_small_nat[OF assms] by simp
qed simp

lemma decode_abi_bytes:
  assumes "hexToBytes x = b" "64 \<le> length b" "beUint (take 32 b) = 32"
    "beUint (substr b 32 64) = of_nat n" "n < 2 ^ 63"
  shows "decodeERC20String x =
    (let high = signed_take_bit 63 (64 + int n) in
     if 0 < n \<and> high \<le> int (length b) then
       (if high < 64 then None else Some (sanitizeUTF8 (substr b 64 (nat high))))
     else if n = 0 then Some '''' else Some (bytes32Text b))"
proof -
  have ne: "(b = []) = False" "(64 \<le> length b \<and> (32 :: 64 word) = 32) = True" using assms(2) by auto
  show ?thesis
    unfolding decodeERC20String_def assms(1) Let_def assms(3,4) sint_64_plus
      sint_small_nat[OF assms(5)] of_nat_zero_small[OF assms(5)] ne of_nat_0_less_iff if_True if_False
    by (rule refl)
qed

lemma decode_abiString:
  assumes "n < 2 ^ 63"
  shows "decodeERC20String (abiString n bytes) =
    (let high = signed_take_bit 63 (64 + int n) in
     if 0 < n \<and> high \<le> int (64 + length bytes) then
       (if high < 64 then None else Some (sanitizeUTF8 (take (nat high - 64) bytes)))
     else if n = 0 then Some ''''
     else Some (bytes32Text (beBytes 32 32 @ beBytes 32 n @ bytes)))"
proof -
  let ?b = "beBytes 32 32 @ beBytes 32 n @ bytes"
  have h: "hexToBytes (abiString n bytes) = ?b" unfolding abiString_def by (rule hexToBytes_hexOf)
  have l: "64 \<le> length ?b" "length ?b = 64 + length bytes" by simp_all
  have t: "take 32 ?b = beBytes 32 32" "substr ?b 32 64 = beBytes 32 n" "substr ?b 64 k = take (k - 64) bytes" for k
    by (simp_all add: substr_def)
  have w: "beUint (take 32 ?b) = 32" "beUint (substr ?b 32 64) = of_nat n"
    unfolding t using beUint_word[of 32] beUint_word[of n] assms by simp_all
  show ?thesis using decode_abi_bytes[OF h l(1) w assms] unfolding t l(2) .
qed

lemma decode_abiString_exact:
  assumes "length t < 2 ^ 63 - 64"
  shows "decodeERC20String (abiString (length t) (t @ pad)) = Some (sanitizeUTF8 t)"
proof -
  have s: "signed_take_bit 63 (64 + int (length t)) = 64 + int (length t)"
    using assms by (simp add: signed_take_bit_int_eq_self)
  have "sanitizeUTF8 [] = []" by (simp add: sanitizeUTF8_def)
  then show ?thesis using assms by (subst decode_abiString) (auto simp: s Let_def nat_add_distrib)
qed

text \<open>A declared length just below \<open>2^63\<close> wraps the bound check, and the slice panics.\<close>

lemma decode_abiString_panics:
  assumes "2 ^ 63 - 64 \<le> n" "n < 2 ^ 63"
  shows "decodeERC20String (abiString n bytes) = None"
proof -
  have "(64 + int n + 2 ^ 63) mod 2 ^ 64 = (64 + int n + 2 ^ 63 - 2 ^ 64) mod 2 ^ 64"
    by (rule minus_mod_self2 [symmetric])
  also have "\<dots> = 64 + int n + 2 ^ 63 - 2 ^ 64"
    using assms by (intro mod_pos_pos_trivial) auto
  finally have "take_bit 64 (64 + int n + 2 ^ 63) = 64 + int n - 2 ^ 63"
    by (simp add: take_bit_eq_mod)
  then have neg: "h < 0" if "h = signed_take_bit 63 (64 + int n)" for h
    using assms that by (simp add: signed_take_bit_eq_take_bit_shift)
  define h where "h = signed_take_bit 63 (64 + int n)"
  have "h < 0" using neg h_def by blast
  then show ?thesis unfolding decode_abiString[OF assms(2)] Let_def h_def[symmetric] using assms by simp
qed

section \<open>Whole units are exact\<close>

definition decDigit :: "char \<Rightarrow> bool" where
  "decDigit c \<longleftrightarrow> 48 \<le> byteOf c \<and> byteOf c \<le> 57"

text \<open>What a decimal text says in base units of \<open>10^-d\<close>.\<close>

definition readUnits :: "nat \<Rightarrow> string \<Rightarrow> nat" where
  "readUnits d t =
     (let ip = takeWhile (\<lambda>c. c \<noteq> CHR ''.'') t; fp = drop (length ip + 1) t in
      fst (scanDigits 10 0 ip) * 10 ^ d + fst (scanDigits 10 0 fp) * 10 ^ (d - length fp))"

lemma decDigit_not_dot: "decDigit c \<Longrightarrow> c \<noteq> CHR ''.''"
  by (auto simp: decDigit_def byteOf_def)

lemma decDigit_zero [simp]: "decDigit (CHR ''0'')"
  by (simp add: decDigit_def byteOf_def)

lemma decDigit_digitChar [simp]: "d < 10 \<Longrightarrow> decDigit (digitChar d)"
  by (simp add: decDigit_def byteOf_digitChar)

lemma natText_digits: "list_all decDigit (natText 10 n)"
proof (induction n rule: less_induct)
  case (less n)
  show ?case using less[of "n div 10"] by (subst natText.simps) auto
qed

lemma scanDigits_decimal: "list_all decDigit xs \<Longrightarrow> \<exists>v. scanDigits 10 acc xs = (v, [])"
  by (induction xs arbitrary: acc) (auto simp: decDigit_def digitVal_def Let_def)

lemma scanDigits_zeros_right:
  "scanDigits 10 acc (replicate k (CHR ''0'')) = (acc * 10 ^ k, [])"
  by (induction k arbitrary: acc) (auto simp: digitVal_def byteOf_def)

lemma scanDigits_padded_right:
  assumes "list_all decDigit xs"
  shows "fst (scanDigits 10 0 (xs @ replicate k (CHR ''0''))) = fst (scanDigits 10 0 xs) * 10 ^ k"
proof -
  obtain v where "scanDigits 10 0 xs = (v, [])" using scanDigits_decimal[OF assms] by blast
  then show ?thesis by (simp add: scanDigits_append scanDigits_zeros_right)
qed

lemma trimRightZeros_split: "\<exists>k. s = trimRightZeros s @ replicate k (CHR ''0'')"
proof -
  let ?z = "takeWhile (\<lambda>c. c = CHR ''0'') (rev s)"
  have "?z = replicate (length ?z) (CHR ''0'')"
    by (intro replicate_eqI) (auto dest: set_takeWhileD)
  moreover have "s = rev (dropWhile (\<lambda>c. c = CHR ''0'') (rev s)) @ rev ?z"
    by (metis rev_append rev_rev_ident takeWhile_dropWhile_id)
  ultimately show ?thesis unfolding trimRightZeros_def by (metis rev_replicate)
qed

lemma trimRightZeros_last: "trimRightZeros s \<noteq> [] \<Longrightarrow> last (trimRightZeros s) \<noteq> CHR ''0''"
  using hd_dropWhile[of "\<lambda>c. c = CHR ''0''" "rev s"] by (auto simp: trimRightZeros_def last_rev)

lemma sdiv_nat: "int n sdiv 10 ^ d = int (n div 10 ^ d)" "int n smod 10 ^ d = int (n mod 10 ^ d)"
proof -
  have "int n sdiv int (10 ^ d) = int n div int (10 ^ d)" "int n smod int (10 ^ d) = int n mod int (10 ^ d)"
    by (simp_all add: signed_divide_int_def signed_modulo_int_def sgn_if)
  then show "int n sdiv 10 ^ d = int (n div 10 ^ d)" "int n smod 10 ^ d = int (n mod 10 ^ d)"
    by (simp_all add: zdiv_int zmod_int)
qed

lemma wholeUnits_form:
  assumes "0 < d"
  obtains f where "wholeUnits (Some (int n)) (int d) =
      natText 10 (n div 10 ^ d) @ (if f = [] then [] else CHR ''.'' # f)"
    "length f \<le> d" "list_all decDigit f" "f = [] \<or> last f \<noteq> CHR ''0''"
    "fst (scanDigits 10 0 f) * 10 ^ (d - length f) = n mod 10 ^ d"
proof (cases "n mod 10 ^ d = 0")
  case True
  have "wholeUnits (Some (int n)) (int d) = natText 10 (n div 10 ^ d)"
    using assms True by (simp add: wholeUnits_def sdiv_nat Let_def intText_def)
  then show ?thesis using that[of "[]"] True by simp
next
  case False
  let ?r = "n mod 10 ^ d"
  let ?frac = "replicate (d - length (natText 10 ?r)) (CHR ''0'') @ natText 10 ?r"
  let ?f = "trimRightZeros ?frac"
  have "?r < 10 ^ Suc (d - 1)" using assms by simp
  then have "length (natText 10 ?r) \<le> Suc (d - 1)" by (rule natText_length_le[rotated]) simp
  then have len: "length ?frac = d" using assms by simp
  have t: "wholeUnits (Some (int n)) (int d) = natText 10 (n div 10 ^ d) @ CHR ''.'' # ?f"
    using assms False by (simp add: wholeUnits_def sdiv_nat Let_def intText_def)
  obtain k where k: "?frac = ?f @ replicate k (CHR ''0'')" using trimRightZeros_split by blast
  have dig: "list_all decDigit ?frac"
    using natText_digits[of ?r] by (auto simp: list_all_iff)
  have "list_all decDigit (?f @ replicate k (CHR ''0''))" using dig k by metis
  then have df: "list_all decDigit ?f" by simp
  have lf: "length ?f + k = d" using len k by (metis length_append length_replicate)
  have "fst (scanDigits 10 0 ?frac) = ?r" by (simp add: scanDigits_natText)
  then have v: "fst (scanDigits 10 0 ?f) * 10 ^ k = ?r"
    using k scanDigits_padded_right[OF df, of k] by metis
  have "?f \<noteq> []" using v False by (metis fst_conv mult_zero_left scanDigits.simps(1))
  moreover have "length ?f \<le> d" "d - length ?f = k" using lf by auto
  moreover have "last ?f \<noteq> CHR ''0''" using \<open>?f \<noteq> []\<close> by (rule trimRightZeros_last)
  ultimately show ?thesis using that[of ?f] t df v by simp
qed

text \<open>The amount text of a token supply loses nothing: reading its integer and fraction digits back at the same
number of decimals gives the base units it was made from, for every amount.\<close>

theorem whole_units_exact:
  assumes "0 < d"
  shows "readUnits d (wholeUnits (Some (int n)) (int d)) = n"
proof -
  obtain f where f: "wholeUnits (Some (int n)) (int d) =
      natText 10 (n div 10 ^ d) @ (if f = [] then [] else CHR ''.'' # f)"
    "length f \<le> d" "fst (scanDigits 10 0 f) * 10 ^ (d - length f) = n mod 10 ^ d"
    using wholeUnits_form[OF assms] by metis
  have "takeWhile (\<lambda>c. c \<noteq> CHR ''.'') (natText 10 (n div 10 ^ d) @ (if f = [] then [] else CHR ''.'' # f))
      = natText 10 (n div 10 ^ d)"
    using natText_digits[of "n div 10 ^ d"] by (auto simp: takeWhile_append list_all_iff dest: decDigit_not_dot)
  then show ?thesis using f by (auto simp: readUnits_def Let_def scanDigits_natText div_mult_mod_eq)
qed

section \<open>Folding and remembering\<close>

lemma resolve_keeps_aggregates:
  "stVolumeUSD (resolve (Some t) read addr) = stVolumeUSD t \<and>
   stTotalValueLockedUSD (resolve (Some t) read addr) = stTotalValueLockedUSD t \<and>
   stDerivedETH (resolve (Some t) read addr) = stDerivedETH t \<and>
   stStaked (resolve (Some t) read addr) = stStaked t \<and>
   stTxCount (resolve (Some t) read addr) = stTxCount t"
  by (auto simp: resolve_def foldRead_def Let_def split: option.splits)

lemma resolve_identity:
  "stSymbol (resolve (Some t) (Some r) addr) =
     (if stSymbol r \<noteq> '''' then stSymbol r else if stSymbol t \<noteq> '''' then stSymbol t else shortAddr addr)"
  "stTotalSupply (resolve (Some t) (Some r) addr) =
     (if stTotalSupply r \<noteq> '''' then stTotalSupply r else stTotalSupply t)"
  "stDecimals (resolve (Some t) (Some r) addr) =
     (if stDecimals r \<noteq> unread then stDecimals r
      else if stDecimals t \<noteq> unread then stDecimals t else defaultDecimals)"
  by (auto simp: resolve_def foldRead_def Let_def)

lemma storedToken_raw: "storedToken s addr = getKey (dbTokens s) addr"
  by (cases "getKey (dbTokens s) addr")
     (simp_all add: storedToken_def GetToken_def tokenToMap_def getVal_def getKey_def asString_def asInt64_def)

lemma token_cached: "getKey cache (toLower addr) = Some v \<Longrightarrow> token call addr (s, cache) = Some (v, s, cache)"
  by (simp add: token_def Let_def)

lemma token_memo:
  "token call addr st = Some (t, s', cache') \<Longrightarrow> getKey cache' (toLower addr) = Some t"
  by (auto simp: token_def Let_def split: option.splits if_splits)

lemma token_row:
  assumes "token call addr (s, cache) = Some (t, s', cache')"
  shows "s' = s \<or> s' = SeedToken addr t s"
  using assms by (auto simp: token_def Let_def split: option.splits if_splits)

text \<open>\<open>token\<close> touches the token table only.\<close>

definition sameButTokens :: "store \<Rightarrow> store \<Rightarrow> bool" where
  "sameButTokens s s' \<longleftrightarrow> s' = s\<lparr>dbTokens := dbTokens s'\<rparr>"

lemma sameButTokens_refl [simp]: "sameButTokens s s"
  by (simp add: sameButTokens_def)

lemma sameButTokens_trans: "sameButTokens s t \<Longrightarrow> sameButTokens t u \<Longrightarrow> sameButTokens s u"
  by (cases s; cases t; cases u) (simp add: sameButTokens_def)

lemma sameButTokens_fields:
  "sameButTokens s s' \<Longrightarrow> dbPools s' = dbPools s \<and> dbSwaps s' = dbSwaps s \<and> dbGeneric s' = dbGeneric s
     \<and> dbLastBlock s' = dbLastBlock s"
  by (cases s; cases s') (simp add: sameButTokens_def)

lemma token_frame:
  assumes "token call addr (s, cache) = Some (t, s', cache')"
  shows "sameButTokens s s'"
  using token_row[OF assms] by (auto simp: sameButTokens_def SeedToken_def)

text \<open>An address already settled in the store is answered without the chain.\<close>

lemma token_settled:
  assumes "settled (storedToken s addr) addr" "getKey cache (toLower addr) = None"
  shows "token call addr (s, cache) =
    Some (the (storedToken s addr), s, putKey (toLower addr) (the (storedToken s addr)) cache)"
  using assms by (simp add: token_def Let_def)

lemma readERC20_panics:
  "call addr selSymbol = Some (abiString n bytes) \<Longrightarrow> 2 ^ 63 - 64 \<le> n \<Longrightarrow> n < 2 ^ 63 \<Longrightarrow>
   readERC20 call addr = None"
  by (simp add: readERC20_def readText_def decode_abiString_panics)

theorem whole_units_exact_witness: "readUnits 18 (wholeUnits (Some (int 1500000000000000000)) (int 18)) = 1500000000000000000"
  by (rule whole_units_exact) simp

text \<open>A well-formed ABI string answer is read whatever padding follows: the symbol is the text itself when it
has no NUL byte and no surrounding white space.\<close>

theorem abi_text_round_trip:
  assumes "length t < 2 ^ 63 - 64" "\<forall>c \<in> set t. byteOf c \<noteq> 0" "t \<noteq> []" "solid (hd t)" "solid (last t)"
  shows "decodeERC20String (abiString (length t) (t @ pad)) = Some t"
proof -
  have "filter (\<lambda>c. byteOf c \<noteq> 0) t = t" using assms(2) by (simp add: filter_id_conv)
  then have "sanitizeUTF8 t = t" using trimSpace_id[of t] assms(3-5) by (simp add: sanitizeUTF8_def)
  then show ?thesis using decode_abiString_exact[OF assms(1), of pad] by simp
qed

theorem abi_text_round_trip_witness: "decodeERC20String (abiString (length ''WLUX'') (''WLUX'' @ replicate 28 (char_of 0))) = Some ''WLUX''"
  by (rule abi_text_round_trip) (simp_all add: byteOf_def solid_def asciiSpace_def)

text \<open>The chain is asked about a token at most once: after one successful lookup every later lookup of the
same address, in any letter case, against any store and whatever the chain would answer now, gives the
same record and changes nothing.\<close>

theorem token_asks_once:
  assumes "token call a (s, cache) = Some (t, s', cache')" "toLower b = toLower a"
  shows "token call' b (s'', cache') = Some (t, s'', cache')"
  using token_memo[OF assms(1)] assms(2) by (simp add: token_cached)

theorem token_asks_once_witness:
  "\<exists>t s' c'. token (\<lambda>_ _. None) ''0xAb'' (NewStore, []) = Some (t, s', c') \<and>
     token (\<lambda>_ _. Some ''0x'') ''0xaB'' (NewStore, c') = Some (t, NewStore, c')"
proof -
  have "\<not> Option.is_none (token (\<lambda>_ _. None) ''0xAb'' (NewStore, []))" by code_simp
  then obtain t s' c' where t: "token (\<lambda>_ _. None) ''0xAb'' (NewStore, []) = Some (t, s', c')"
    by (auto simp: Option.is_none_def)
  have "toLower ''0xaB'' = toLower ''0xAb''" by code_simp
  from token_asks_once[OF t this] show ?thesis using t by blast
qed

text \<open>Folding a fresh reading over a stored row never loses a fact: what the chain did not answer keeps its
stored value, and the trade aggregates of the row are untouched.\<close>

theorem resolve_never_erases:
  "resolve (Some t) (Some r) addr = t\<lparr>
     stSymbol := (if stSymbol r \<noteq> '''' then stSymbol r else if stSymbol t \<noteq> '''' then stSymbol t else shortAddr addr),
     stName := (if stName r \<noteq> '''' then stName r else if stName t \<noteq> '''' then stName t else addr),
     stDecimals := (if stDecimals r \<noteq> unread then stDecimals r
                    else if stDecimals t \<noteq> unread then stDecimals t else defaultDecimals),
     stTotalSupply := (if stTotalSupply r \<noteq> '''' then stTotalSupply r else stTotalSupply t)\<rparr>"
  by (auto simp: resolve_def foldRead_def Let_def)

end
