(* ===== verification/Events.thy ===== *)
theory Events
  imports Prelude
begin

text \<open>
  The event signatures the indexer knows, src/indexer/events.go, and the topic filter it polls with
  (\<open>knownTopics\<close>, src/indexer/indexer.go).  Each constant is the Keccak-256 hash of a canonical event
  signature, as text.
\<close>

definition SigPairCreated :: string where
  "SigPairCreated = ''0x0d3648bd0f6ba80134a33ba9275ac585d9d315f0ad8355cddefde31afa28d0e9''"

definition SigSwapV2 :: string where
  "SigSwapV2 = ''0xd78ad95fa46c994b6551d0da85fc275fe613ce37657fb8d5e3d130840159d822''"

definition SigMintV2 :: string where
  "SigMintV2 = ''0x4c209b5fc8ad50758f13e2e1088ba56a560dff690a1c6fef26394f4c03821c4f''"

definition SigBurnV2 :: string where
  "SigBurnV2 = ''0xdccd412f0b1252819cb1fd330b93224ca42612892bb3f4f789976e6d81936496''"

definition SigSync :: string where
  "SigSync = ''0x1c411e9a96e071241c2f21f7726b17ae89e3cab4c78be50e062b03a9fffbbad1''"

definition SigTransfer :: string where
  "SigTransfer = ''0xddf252ad1be2c89b69c2b068fc378daa952ba7f163c4a11628f55a4df523b3ef''"

definition SigPoolCreated :: string where
  "SigPoolCreated = ''0x783cca1c0412dd0d695e784568c96da2e9c22ff989357a2e8b1d9b2b4e6b7118''"

definition SigInitialize :: string where
  "SigInitialize = ''0x98636036cb66a9c19a37435efc1e90142190214e8abeb821bdba3f2990dd4c95''"

definition SigSwapV3 :: string where
  "SigSwapV3 = ''0xc42079f94a6350d7e6235f29174924f928cc2ac818eb64fed8004e115fbcca67''"

definition SigMintV3 :: string where
  "SigMintV3 = ''0x7a53080ba414158be7ec69b987b5fb7d07dee101fe85488f0853ae16239d0bde''"

definition SigBurnV3 :: string where
  "SigBurnV3 = ''0x0c396cd989a39f4459b5fa1aed6a9a8dcdbc45908acfd67e028cd568da98982c''"

definition SigCollect :: string where
  "SigCollect = ''0x70935338e69775456b0c0043e55b3188a159c4f5e6de2a46547cb5286cd0a097''"

definition SigFlash :: string where
  "SigFlash = ''0xbdbdb71d7860376ba52b25a5028beea23581364a40522f6bcfb86bb1f2dca633''"

definition SigAddressFrozen :: string where
  "SigAddressFrozen = ''0x7fa523c84ab8d7fc5b72f08b9e46dbbf10c39e119a075b3e317002d14bc9f436''"

definition SigTokensFrozen :: string where
  "SigTokensFrozen = ''0xa065e63c631c86f1b9f66a4a2f63f2093bf1c2168d23290259dbd969e0222a45''"

definition SigTokensUnfrozen :: string where
  "SigTokensUnfrozen = ''0x9bed35cb62ad0dba04f9d5bfee4b5bc91443e77da8a65c4c84834c51bb08b0d6''"

definition SigSecurityPaused :: string where
  "SigSecurityPaused = ''0x62e78cea01bee320cd4e420270b5ea74000d11b0c9f74754ebdbfc544b05a258''"

definition SigSecurityUnpaused :: string where
  "SigSecurityUnpaused = ''0x5db9ee0a495bf2e6ff9c91a7834c1ba4fdd244a5e8aa4e537bd38aeae4b073aa''"

definition SigRecoverySuccess :: string where
  "SigRecoverySuccess = ''0xf0c9129a94f30f1caaceb63e44b9811d0a3edf1d6c23757f346093af5553fed0''"

definition SigUpdatedTokenInformation :: string where
  "SigUpdatedTokenInformation = ''0x6a1105ac8148a3c319adbc369f9072573e8a11d3a3d195e067e7c40767ec54d1''"

definition SigIdentityRegistryAdded :: string where
  "SigIdentityRegistryAdded = ''0xd2be862d755bca7e0d39772b2cab3a5578da9c285f69199f4c063c2294a7f36c''"

definition SigComplianceAdded :: string where
  "SigComplianceAdded = ''0x7f3a888862559648ec01d97deb7b5012bff86dc91e654a1de397170db40e35b6''"

definition SigIdentityRegistered :: string where
  "SigIdentityRegistered = ''0x6ae73635c50d24a45af6fbd5e016ac4bed179addbc8bf24e04ff0fcc6d33af19''"

definition SigIdentityRemoved :: string where
  "SigIdentityRemoved = ''0x59d6590e225b81befe259af056324092801080acbb7feab310eb34678871f327''"

definition SigIdentityUpdated :: string where
  "SigIdentityUpdated = ''0xe98082932c8056a0f514da9104e4a66bc2cbaef102ad59d90c4b24220ebf6010''"

definition SigCountryUpdated :: string where
  "SigCountryUpdated = ''0x04ed3b726495c2dca1ff1215d9ca54e1a4030abb5e82b0f6ce55702416cee853''"

definition SigIdentityStored :: string where
  "SigIdentityStored = ''0x0030dea7e9c9afaa2e3c9810f2fc9b5181f1bad74ca5a8db85f746a33585e747''"

definition SigClaimAdded :: string where
  "SigClaimAdded = ''0x46149b18aa084502c3f12bc75e19eda8bda8d102b82cce8474677a6d0d5f43c5''"

definition SigClaimRemoved :: string where
  "SigClaimRemoved = ''0x3cf57863a89432c61c4a27073c6ee39e8a764bff5a05aebfbcdcdc80b2e6130a''"

definition SigClaimChanged :: string where
  "SigClaimChanged = ''0x3bab293fc00db832d7619a9299914251b8747c036867ec056cbd506f60135b13''"

definition SigKeyAdded :: string where
  "SigKeyAdded = ''0x480000bb1edad8ca1470381cc334b1917fbd51c6531f3a623ea8e0ec7e38a6e9''"

definition SigKeyRemoved :: string where
  "SigKeyRemoved = ''0x585a4aef50f8267a92b32412b331b20f7f8b96f2245b253b9cc50dcc621d3397''"

definition SigOnchainIdApproved :: string where
  "SigOnchainIdApproved = ''0xb3932da477fe5d6c8ff2eafef050c0f3a1af18fc07121001482600f36f3715d8''"

definition SigOnchainIdExecuted :: string where
  "SigOnchainIdExecuted = ''0x1f920dbda597d7bf95035464170fa58d0a4b57f13a1c315ace6793b9f63688b8''"

definition SigTrustedIssuerAdded :: string where
  "SigTrustedIssuerAdded = ''0xfedc33fd34859594822c0ff6f3f4f9fc279cc6d5cae53068f706a088e4500872''"

definition SigTrustedIssuerRemoved :: string where
  "SigTrustedIssuerRemoved = ''0x2214ded40113cc3fb63fc206cafee88270b0a903dac7245d54efdde30ebb0321''"

definition SigClaimTopicsUpdated :: string where
  "SigClaimTopicsUpdated = ''0xec753cfc52044f61676f18a11e500093a9f2b1cd5e4942bc476f2b0438159bcf''"

definition SigClaimTopicAdded :: string where
  "SigClaimTopicAdded = ''0x01c928b7f7ade2949e92366aa9454dbef3a416b731cf6ec786ba9595bbd814d6''"

definition SigClaimTopicRemoved :: string where
  "SigClaimTopicRemoved = ''0x0b1381093c776453c1bbe54fd68be1b235c65db61d099cb50d194b2991e0eec5''"

definition SigModuleAdded :: string where
  "SigModuleAdded = ''0xead6a006345da1073a106d5f32372d2d2204f46cb0b4bca8f5ebafcbbed12b8a''"

definition SigModuleRemoved :: string where
  "SigModuleRemoved = ''0x0a1ee69f55c33d8467c69ca59ce2007a737a88603d75392972520bf67cb513b8''"

definition SigTokenBound :: string where
  "SigTokenBound = ''0x2de35142b19ed5a07796cf30791959c592018f70b1d2d7c460eef8ffe713692b''"

definition SigTokenUnbound :: string where
  "SigTokenUnbound = ''0x28a4ca7134a3b3f9aff286e79ad3daadb4a06d1b43d037a3a98bdc074edd9b7a''"

definition SigModuleInteraction :: string where
  "SigModuleInteraction = ''0x20d79de70adcc6e9353d8a9a5646b46dc352710d0a310b1ad1f67faeca7ef891''"

definition SigInitializeV4 :: string where
  "SigInitializeV4 = ''0xdd466e674ea557f56295e2d0218a125ea4b4f0f6f3307b95f85e6110838d6438''"

definition SigModifyLiquidity :: string where
  "SigModifyLiquidity = ''0xf208f4912782fd25c7f114ca3723a2d5dd6f3bcc3ac8db5af63baa85f711d5ec''"

definition SigSwapV4 :: string where
  "SigSwapV4 = ''0x40e9cecb9f5f1f1c5b9c97dec2917b7ee92e57ba5563708daca94dd84ad7112f''"

definition SigDEXFill :: string where
  "SigDEXFill = ''0x6f744d074efc4fa8512636853f8a4c67842f230d4279421c7599dc5c5daf9874''"

definition SigSubscription :: string where
  "SigSubscription = ''0x572f161235911da04685a68c6b07422b4ba12dab20405b8b230c2420f49f1266''"

definition SigUnsubscription :: string where
  "SigUnsubscription = ''0x6112cc683e05f5c607f9d5f0f57a0f0be2ca872a8f94ed4b6e2d09da2f1d1882''"

definition LXSettleAddress :: string where
  "LXSettleAddress = ''0x0000000000000000000000000000000000009999''"

definition SecuritiesTopics :: "string list" where
  "SecuritiesTopics =
     [SigAddressFrozen, SigTokensFrozen, SigTokensUnfrozen, SigSecurityPaused,
      SigSecurityUnpaused, SigRecoverySuccess, SigUpdatedTokenInformation,
      SigIdentityRegistryAdded, SigComplianceAdded, SigIdentityRegistered, SigIdentityRemoved,
      SigIdentityUpdated, SigCountryUpdated, SigIdentityStored, SigClaimAdded, SigClaimRemoved,
      SigClaimChanged, SigKeyAdded, SigKeyRemoved, SigOnchainIdApproved, SigOnchainIdExecuted,
      SigTrustedIssuerAdded, SigTrustedIssuerRemoved, SigClaimTopicsUpdated, SigClaimTopicAdded,
      SigClaimTopicRemoved, SigModuleAdded, SigModuleRemoved, SigTokenBound, SigTokenUnbound,
      SigModuleInteraction]"

definition knownTopics :: "string list" where
  "knownTopics =
     [SigPairCreated, SigSwapV2, SigMintV2, SigBurnV2, SigSync, SigTransfer, SigPoolCreated,
      SigInitialize, SigSwapV3, SigMintV3, SigBurnV3, SigCollect, SigFlash, SigInitializeV4,
      SigModifyLiquidity, SigSwapV4, SigDEXFill]
     @ SecuritiesTopics"

lemmas sig_defs =
  SigPairCreated_def SigSwapV2_def SigMintV2_def SigBurnV2_def SigSync_def SigTransfer_def
  SigPoolCreated_def SigInitialize_def SigSwapV3_def SigMintV3_def SigBurnV3_def SigCollect_def
  SigFlash_def SigAddressFrozen_def SigTokensFrozen_def SigTokensUnfrozen_def
  SigSecurityPaused_def SigSecurityUnpaused_def SigRecoverySuccess_def
  SigUpdatedTokenInformation_def SigIdentityRegistryAdded_def SigComplianceAdded_def
  SigIdentityRegistered_def SigIdentityRemoved_def SigIdentityUpdated_def SigCountryUpdated_def
  SigIdentityStored_def SigClaimAdded_def SigClaimRemoved_def SigClaimChanged_def SigKeyAdded_def
  SigKeyRemoved_def SigOnchainIdApproved_def SigOnchainIdExecuted_def SigTrustedIssuerAdded_def
  SigTrustedIssuerRemoved_def SigClaimTopicsUpdated_def SigClaimTopicAdded_def
  SigClaimTopicRemoved_def SigModuleAdded_def SigModuleRemoved_def SigTokenBound_def
  SigTokenUnbound_def SigModuleInteraction_def SigInitializeV4_def SigModifyLiquidity_def
  SigSwapV4_def SigDEXFill_def SigSubscription_def SigUnsubscription_def

text \<open>The signatures are pairwise distinct, so the dispatch on them is unambiguous.\<close>

lemma knownTopics_distinct: "distinct knownTopics"
  by (simp add: knownTopics_def SecuritiesTopics_def sig_defs)

end
