(* ===== verification/LogEntry.thy ===== *)
theory LogEntry
  imports Erc20 Events
begin

text \<open>
  What the indexer reads out of one log, src/indexer/indexer.go and indexer_securities.go: the entry
  of \<open>eth_getLogs\<close>, numbers in hexadecimal text, words of the data, addresses in topics.

  \<open>strconv.ParseUint\<close> and \<open>ParseInt\<close> answer a number and an error; the callers that drop the error
  keep the number, which is zero on bad syntax and the nearest bound on overflow, so both are kept.
\<close>

record logEntry =
  leAddress :: string
  leTopics :: "string list"
  leData :: string
  leBlockNumber :: string
  leTxHash :: string
  leLogIndex :: string
  leTxIndex :: string
  leTime :: int

section \<open>Numbers in text\<close>

fun scanUint :: "nat \<Rightarrow> nat \<Rightarrow> string \<Rightarrow> nat \<times> bool" where
  "scanUint b acc [] = (acc, True)"
| "scanUint b acc (c # cs) =
     (case digitVal c of
        None \<Rightarrow> (0, False)
      | Some d \<Rightarrow>
          if d \<ge> b then (0, False)
          else if acc * b + d \<ge> 2 ^ 64 then (2 ^ 64 - 1, False)
          else scanUint b (acc * b + d) cs)"

definition parseUint :: "nat \<Rightarrow> string \<Rightarrow> nat \<times> bool" where
  "parseUint b s = (if s = [] then (0, False) else scanUint b 0 s)"

definition parseInt :: "nat \<Rightarrow> string \<Rightarrow> int \<times> bool" where
  "parseInt b s =
     (let neg = (s \<noteq> [] \<and> hd s = CHR ''-''); hasSign = (s \<noteq> [] \<and> (hd s = CHR ''+'' \<or> hd s = CHR ''-''));
          (un, ok) = parseUint b (if hasSign then tl s else s)
      in if \<not> ok \<and> un = 0 then (0, False)
         else if \<not> neg \<and> un \<ge> 2 ^ 63 then (2 ^ 63 - 1, False)
         else if neg \<and> un > 2 ^ 63 then (- (2 ^ 63), False)
         else (if neg then - int un else int un, ok))"

definition parseHexUint64 :: "string \<Rightarrow> 64 word \<times> bool" where
  "parseHexUint64 s = (let (n, ok) = parseUint 16 (trimPrefix s ''0x'') in (of_nat n, ok))"

section \<open>Words and topics\<close>

definition decodeUint256 :: "string \<Rightarrow> nat \<Rightarrow> int" where
  "decodeUint256 data0 wordIndex =
     (let data = trimPrefix data0 ''0x''; start = wordIndex * 64 in
      if start + 64 > length data then 0
      else (let (n, ok) = setString 16 (substr data start (start + 64)) in if ok then n else 0))"

text \<open>\<open>n.Bit(255)\<close> reads the two's-complement bit of a negative number as well.\<close>

definition decodeInt256 :: "string \<Rightarrow> nat \<Rightarrow> int" where
  "decodeInt256 data wordIndex =
     (let n = decodeUint256 data wordIndex in if bit n 255 then n - 2 ^ 256 else n)"

definition topicAddr :: "string \<Rightarrow> string" where
  "topicAddr topic = (if length topic \<ge> 42 then ''0x'' @ drop (length topic - 40) topic else topic)"

definition topicBool :: "string \<Rightarrow> bool" where
  "topicBool topic = (\<exists>c \<in> set (trimPrefix topic ''0x''). c \<noteq> CHR ''0'')"

definition decodeUint256Topic :: "string \<Rightarrow> int" where
  "decodeUint256Topic topic = fst (setString 16 (trimPrefix topic ''0x''))"

text \<open>The \<open>decodeAddress\<close> of this package; the event decoders have one of their own.\<close>

definition decodeAddressWord :: "string \<Rightarrow> nat \<Rightarrow> string" where
  "decodeAddressWord data wordIndex =
     (let d = trimPrefix data ''0x''; start = wordIndex * 64 in
      if start + 64 > length d then ''0x0000000000000000000000000000000000000000''
      else ''0x'' @ substr d (start + 24) (start + 64))"

definition entityID :: "string \<Rightarrow> string \<Rightarrow> string \<Rightarrow> string" where
  "entityID addr txHash logIdx = addr @ '':'' @ txHash @ '':'' @ logIdx"

section \<open>Words are read exactly\<close>

lemma scanUint_digits:
  "scanUint b acc s = (v, True) \<Longrightarrow> 0 < b \<Longrightarrow> scanDigits b acc s = (v, [])"
  by (induction b acc s rule: scanUint.induct) (auto split: option.splits if_splits)

lemma decodeUint256_encoded:
  assumes "\<forall>n \<in> set ns. n < 2 ^ 256" "i < length ns"
  shows "decodeUint256 (''0x'' @ concat (map encodeWord ns) @ rest) i = int (ns ! i)"
proof -
  have "\<not> i * 64 + 64 > length (concat (map encodeWord ns) @ rest)"
    using assms(2) by (simp add: length_concat_encodeWord[OF assms(1)])
  then show ?thesis
    by (simp add: decodeUint256_def substr_concat_encodeWord[OF assms] del: append_Cons append_Nil
        append.simps map_append concat_append)
qed

text \<open>The two's-complement form a contract writes for a signed amount.\<close>

definition twos :: "int \<Rightarrow> nat" where
  "twos z = nat (z mod 2 ^ 256)"

lemma twos_bound: "twos z < 2 ^ 256"
  by (simp add: twos_def nat_less_iff)

lemma bit_255_iff:
  assumes "0 \<le> n" "n < 2 ^ 256"
  shows "bit n 255 \<longleftrightarrow> 2 ^ 255 \<le> (n :: int)"
proof (cases "n < 2 ^ 255")
  case True
  then have "n div 2 ^ 255 = 0" using assms(1) by (rule div_pos_pos_trivial[rotated])
  then show ?thesis using True by (simp add: bit_iff_odd)
next
  case False
  have "(n - 2 ^ 255) div 2 ^ 255 = 0" using assms False by (intro div_pos_pos_trivial) auto
  then have "n div 2 ^ 255 = 1" using div_add_self2[of "2 ^ 255" "n - 2 ^ 255"] by simp
  then show ?thesis using False by (simp add: bit_iff_odd)
qed

text \<open>Signed log words read back exactly: the two's-complement word a contract writes for an amount decodes to that
amount, at every position of the data and whatever bytes follow.\<close>

theorem signed_words_round_trip:
  assumes "\<forall>z \<in> set zs. - (2 ^ 255) \<le> z \<and> z < 2 ^ 255" "i < length zs"
  shows "decodeInt256 (''0x'' @ concat (map (encodeWord \<circ> twos) zs) @ rest) i = zs ! i"
proof -
  let ?z = "zs ! i"
  have z: "- (2 ^ 255) \<le> ?z" "?z < 2 ^ 255" using assms by auto
  have "decodeUint256 (''0x'' @ concat (map encodeWord (map twos zs)) @ rest) i = int (map twos zs ! i)"
    using twos_bound assms(2) by (intro decodeUint256_encoded) auto
  then have u: "decodeUint256 (''0x'' @ concat (map (encodeWord \<circ> twos) zs) @ rest) i = ?z mod 2 ^ 256"
    using assms(2) by (simp add: twos_def)
  have m: "?z mod 2 ^ 256 = (if ?z < 0 then ?z + 2 ^ 256 else ?z)"
  proof (cases "?z < 0")
    case True
    have "?z mod 2 ^ 256 = (?z + 2 ^ 256) mod 2 ^ 256" by (rule mod_add_self2[symmetric])
    also have "\<dots> = ?z + 2 ^ 256" using z True by (intro mod_pos_pos_trivial) auto
    finally show ?thesis using True by simp
  next
    case False
    then show ?thesis using z by (simp add: mod_pos_pos_trivial)
  qed
  have "bit (?z mod 2 ^ 256) 255 \<longleftrightarrow> ?z < 0"
    unfolding m using z by (subst bit_255_iff) (auto split: if_splits)
  then show ?thesis unfolding decodeInt256_def Let_def u using m by simp
qed

theorem signed_words_round_trip_witness:
  "decodeInt256 (''0x'' @ concat (map (encodeWord \<circ> twos) [5, - 7]) @ ''ff'') 1 = - 7"
  using signed_words_round_trip[of "[5, - 7]" 1 "''ff''"] by simp

end
