(* ===== verification/Securities.thy ===== *)
theory Securities
  imports LogEntry
begin

text \<open>
  The ERC-3643 and ONCHAINID event handlers, src/indexer/indexer_securities.go.  Each handler writes
  entities keyed by the log (\<open>entityID\<close>), and two of them also write a live snapshot keyed by the
  token and the user.  The dispatch of \<open>processLog\<close> on these signatures is \<open>securitiesLog\<close>.
\<close>

definition handleAddressFrozen :: "logEntry \<Rightarrow> 64 word \<Rightarrow> string \<Rightarrow> string \<Rightarrow> store \<Rightarrow> store" where
  "handleAddressFrozen l blockNum txHash logIdx s =
     (if length (leTopics l) < 4 then s
      else
        (let user = topicAddr (leTopics l ! 1); isFrozen = topicBool (leTopics l ! 2);
             owner = topicAddr (leTopics l ! 3); i = entityID (leAddress l) txHash logIdx;
             snapID = leAddress l @ '':'' @ user
         in SetEntity ''FrozenAccount'' snapID (VMap
              [(''id'', VStr snapID), (''token'', VStr (leAddress l)), (''user'', VStr user),
               (''frozen'', VBool isFrozen), (''updated'', VInt (uint blockNum))])
            (SetEntity ''TransferAgentAction'' i (VMap
              [(''id'', VStr i), (''kind'', VStr ''AddressFrozen''), (''token'', VStr (leAddress l)),
               (''user'', VStr user), (''isFrozen'', VBool isFrozen), (''owner'', VStr owner),
               (''blockNumber'', VInt (uint blockNum)), (''txHash'', VStr txHash), (''logIndex'', VStr logIdx)]) s)))"

definition handleTokensFrozen ::
  "logEntry \<Rightarrow> 64 word \<Rightarrow> string \<Rightarrow> string \<Rightarrow> bool \<Rightarrow> store \<Rightarrow> store" where
  "handleTokensFrozen l blockNum txHash logIdx freezing s =
     (if length (leTopics l) < 2 then s
      else
        (let user = topicAddr (leTopics l ! 1); amount = intText 10 (decodeUint256 (leData l) 0);
             i = entityID (leAddress l) txHash logIdx;
             kind = (if freezing then ''TokensFrozen'' else ''TokensUnfrozen'');
             snapID = leAddress l @ '':'' @ user
         in SetEntity ''FrozenTokens'' snapID (VMap
              [(''id'', VStr snapID), (''token'', VStr (leAddress l)), (''user'', VStr user),
               (''delta'', VStr amount), (''kind'', VStr kind), (''updated'', VInt (uint blockNum))])
            (SetEntity ''TransferAgentAction'' i (VMap
              [(''id'', VStr i), (''kind'', VStr kind), (''token'', VStr (leAddress l)),
               (''user'', VStr user), (''amount'', VStr amount), (''blockNumber'', VInt (uint blockNum)),
               (''txHash'', VStr txHash), (''logIndex'', VStr logIdx)]) s)))"

definition handleSecurityPause ::
  "logEntry \<Rightarrow> 64 word \<Rightarrow> string \<Rightarrow> string \<Rightarrow> bool \<Rightarrow> store \<Rightarrow> store" where
  "handleSecurityPause l blockNum txHash logIdx paused s =
     (let user = decodeAddressWord (leData l) 0; i = entityID (leAddress l) txHash logIdx;
          kind = (if paused then ''Paused'' else ''Unpaused'')
      in SetEntity ''TransferAgentAction'' i (VMap
           [(''id'', VStr i), (''kind'', VStr kind), (''token'', VStr (leAddress l)), (''user'', VStr user),
            (''blockNumber'', VInt (uint blockNum)), (''txHash'', VStr txHash), (''logIndex'', VStr logIdx)]) s)"

definition handleRecoverySuccess :: "logEntry \<Rightarrow> 64 word \<Rightarrow> string \<Rightarrow> string \<Rightarrow> store \<Rightarrow> store" where
  "handleRecoverySuccess l blockNum txHash logIdx s =
     (if length (leTopics l) < 4 then s
      else
        (let i = entityID (leAddress l) txHash logIdx
         in SetEntity ''TransferAgentAction'' i (VMap
              [(''id'', VStr i), (''kind'', VStr ''RecoverySuccess''), (''token'', VStr (leAddress l)),
               (''lostWallet'', VStr (topicAddr (leTopics l ! 1))),
               (''newWallet'', VStr (topicAddr (leTopics l ! 2))),
               (''investorOnchainID'', VStr (topicAddr (leTopics l ! 3))),
               (''blockNumber'', VInt (uint blockNum)), (''txHash'', VStr txHash), (''logIndex'', VStr logIdx)]) s))"

definition handleIdentityRegistryAction ::
  "logEntry \<Rightarrow> 64 word \<Rightarrow> string \<Rightarrow> string \<Rightarrow> string \<Rightarrow> store \<Rightarrow> store" where
  "handleIdentityRegistryAction l blockNum txHash logIdx kind s =
     (let i = entityID (leAddress l) txHash logIdx;
          entity0 =
            [(''id'', VStr i), (''kind'', VStr kind), (''registry'', VStr (leAddress l)),
             (''blockNumber'', VInt (uint blockNum)), (''txHash'', VStr txHash), (''logIndex'', VStr logIdx)];
          entity1 = (if length (leTopics l) \<ge> 2 then putKey ''topic1'' (VStr (leTopics l ! 1)) entity0 else entity0);
          entity2 = (if length (leTopics l) \<ge> 3 then putKey ''topic2'' (VStr (leTopics l ! 2)) entity1 else entity1)
      in SetEntity ''IdentityRegistryAction'' i (VMap entity2) s)"

definition handleClaim ::
  "logEntry \<Rightarrow> 64 word \<Rightarrow> string \<Rightarrow> string \<Rightarrow> string \<Rightarrow> store \<Rightarrow> store" where
  "handleClaim l blockNum txHash logIdx kind s =
     (if length (leTopics l) < 4 then s
      else
        (let i = entityID (leAddress l) txHash logIdx
         in SetEntity ''OnchainIdClaim'' i (VMap
              [(''id'', VStr i), (''kind'', VStr kind), (''identity'', VStr (leAddress l)),
               (''claimId'', VStr (leTopics l ! 1)),
               (''topic'', VStr (intText 10 (decodeUint256Topic (leTopics l ! 2)))),
               (''issuer'', VStr (topicAddr (leTopics l ! 3))), (''data'', VStr (leData l)),
               (''blockNumber'', VInt (uint blockNum)), (''txHash'', VStr txHash), (''logIndex'', VStr logIdx)]) s))"

definition handleKey ::
  "logEntry \<Rightarrow> 64 word \<Rightarrow> string \<Rightarrow> string \<Rightarrow> string \<Rightarrow> store \<Rightarrow> store" where
  "handleKey l blockNum txHash logIdx kind s =
     (if length (leTopics l) < 4 then s
      else
        (let i = entityID (leAddress l) txHash logIdx
         in SetEntity ''OnchainIdKey'' i (VMap
              [(''id'', VStr i), (''kind'', VStr kind), (''identity'', VStr (leAddress l)),
               (''key'', VStr (leTopics l ! 1)),
               (''purpose'', VStr (intText 10 (decodeUint256Topic (leTopics l ! 2)))),
               (''keyType'', VStr (intText 10 (decodeUint256Topic (leTopics l ! 3)))),
               (''blockNumber'', VInt (uint blockNum)), (''txHash'', VStr txHash), (''logIndex'', VStr logIdx)]) s))"

definition handleTrustedIssuer ::
  "logEntry \<Rightarrow> 64 word \<Rightarrow> string \<Rightarrow> string \<Rightarrow> string \<Rightarrow> store \<Rightarrow> store" where
  "handleTrustedIssuer l blockNum txHash logIdx kind s =
     (let i = entityID (leAddress l) txHash logIdx;
          entity0 =
            [(''id'', VStr i), (''kind'', VStr kind), (''registry'', VStr (leAddress l)),
             (''data'', VStr (leData l)), (''blockNumber'', VInt (uint blockNum)),
             (''txHash'', VStr txHash), (''logIndex'', VStr logIdx)];
          entity1 = (if length (leTopics l) \<ge> 2 then putKey ''issuer'' (VStr (topicAddr (leTopics l ! 1))) entity0
                     else entity0)
      in SetEntity ''TrustedIssuerAction'' i (VMap entity1) s)"

definition handleClaimTopic ::
  "logEntry \<Rightarrow> 64 word \<Rightarrow> string \<Rightarrow> string \<Rightarrow> string \<Rightarrow> store \<Rightarrow> store" where
  "handleClaimTopic l blockNum txHash logIdx kind s =
     (let i = entityID (leAddress l) txHash logIdx;
          entity0 =
            [(''id'', VStr i), (''kind'', VStr kind), (''registry'', VStr (leAddress l)),
             (''blockNumber'', VInt (uint blockNum)), (''txHash'', VStr txHash), (''logIndex'', VStr logIdx)];
          entity1 = (if length (leTopics l) \<ge> 2
                     then putKey ''topic'' (VStr (intText 10 (decodeUint256Topic (leTopics l ! 1)))) entity0
                     else entity0)
      in SetEntity ''ClaimTopicAction'' i (VMap entity1) s)"

definition handleComplianceEvent ::
  "logEntry \<Rightarrow> 64 word \<Rightarrow> string \<Rightarrow> string \<Rightarrow> string \<Rightarrow> store \<Rightarrow> store" where
  "handleComplianceEvent l blockNum txHash logIdx topic0 s =
     (let i = entityID (leAddress l) txHash logIdx;
          kind = (if topic0 = SigModuleAdded then ''ModuleAdded''
                  else if topic0 = SigModuleRemoved then ''ModuleRemoved''
                  else if topic0 = SigTokenBound then ''TokenBound''
                  else if topic0 = SigTokenUnbound then ''TokenUnbound''
                  else if topic0 = SigModuleInteraction then ''ModuleInteraction''
                  else ''ComplianceEvent'');
          entity0 =
            [(''id'', VStr i), (''kind'', VStr kind), (''compliance'', VStr (leAddress l)),
             (''data'', VStr (leData l)), (''blockNumber'', VInt (uint blockNum)),
             (''txHash'', VStr txHash), (''logIndex'', VStr logIdx)];
          entity1 = (if length (leTopics l) \<ge> 2 then putKey ''target'' (VStr (topicAddr (leTopics l ! 1))) entity0
                     else entity0)
      in SetEntity ''ComplianceAction'' i (VMap entity1) s)"

definition handleSimpleSecuritiesEvent ::
  "logEntry \<Rightarrow> 64 word \<Rightarrow> string \<Rightarrow> string \<Rightarrow> string \<Rightarrow> store \<Rightarrow> store" where
  "handleSimpleSecuritiesEvent l blockNum txHash logIdx kind s =
     (let i = entityID (leAddress l) txHash logIdx
      in SetEntity ''SecuritiesEvent'' i (VMap
           [(''id'', VStr i), (''kind'', VStr kind), (''contract'', VStr (leAddress l)),
            (''topics'', VList (map VStr (leTopics l))), (''data'', VStr (leData l)),
            (''blockNumber'', VInt (uint blockNum)), (''txHash'', VStr txHash), (''logIndex'', VStr logIdx)]) s)"

text \<open>The securities part of the switch in \<open>processLog\<close>; any other signature falls through.\<close>

definition securitiesLog :: "string \<Rightarrow> logEntry \<Rightarrow> 64 word \<Rightarrow> string \<Rightarrow> string \<Rightarrow> store \<Rightarrow> store" where
  "securitiesLog topic0 l blockNum txHash logIdx =
     (if topic0 = SigAddressFrozen then handleAddressFrozen l blockNum txHash logIdx
      else if topic0 = SigTokensFrozen then handleTokensFrozen l blockNum txHash logIdx True
      else if topic0 = SigTokensUnfrozen then handleTokensFrozen l blockNum txHash logIdx False
      else if topic0 = SigSecurityPaused then handleSecurityPause l blockNum txHash logIdx True
      else if topic0 = SigSecurityUnpaused then handleSecurityPause l blockNum txHash logIdx False
      else if topic0 = SigRecoverySuccess then handleRecoverySuccess l blockNum txHash logIdx
      else if topic0 = SigUpdatedTokenInformation then
        handleSimpleSecuritiesEvent l blockNum txHash logIdx ''UpdatedTokenInformation''
      else if topic0 = SigIdentityRegistryAdded then
        handleSimpleSecuritiesEvent l blockNum txHash logIdx ''IdentityRegistryAdded''
      else if topic0 = SigComplianceAdded then
        handleSimpleSecuritiesEvent l blockNum txHash logIdx ''ComplianceAdded''
      else if topic0 = SigIdentityRegistered then
        handleIdentityRegistryAction l blockNum txHash logIdx ''IdentityRegistered''
      else if topic0 = SigIdentityRemoved then
        handleIdentityRegistryAction l blockNum txHash logIdx ''IdentityRemoved''
      else if topic0 = SigIdentityUpdated then
        handleIdentityRegistryAction l blockNum txHash logIdx ''IdentityUpdated''
      else if topic0 = SigCountryUpdated then
        handleIdentityRegistryAction l blockNum txHash logIdx ''CountryUpdated''
      else if topic0 = SigIdentityStored then
        handleIdentityRegistryAction l blockNum txHash logIdx ''IdentityStored''
      else if topic0 = SigClaimAdded then handleClaim l blockNum txHash logIdx ''ClaimAdded''
      else if topic0 = SigClaimRemoved then handleClaim l blockNum txHash logIdx ''ClaimRemoved''
      else if topic0 = SigClaimChanged then handleClaim l blockNum txHash logIdx ''ClaimChanged''
      else if topic0 = SigKeyAdded then handleKey l blockNum txHash logIdx ''KeyAdded''
      else if topic0 = SigKeyRemoved then handleKey l blockNum txHash logIdx ''KeyRemoved''
      else if topic0 = SigOnchainIdApproved then
        handleSimpleSecuritiesEvent l blockNum txHash logIdx ''OnchainIdApproved''
      else if topic0 = SigOnchainIdExecuted then
        handleSimpleSecuritiesEvent l blockNum txHash logIdx ''OnchainIdExecuted''
      else if topic0 = SigTrustedIssuerAdded then handleTrustedIssuer l blockNum txHash logIdx ''TrustedIssuerAdded''
      else if topic0 = SigTrustedIssuerRemoved then
        handleTrustedIssuer l blockNum txHash logIdx ''TrustedIssuerRemoved''
      else if topic0 = SigClaimTopicsUpdated then
        handleTrustedIssuer l blockNum txHash logIdx ''ClaimTopicsUpdated''
      else if topic0 = SigClaimTopicAdded then handleClaimTopic l blockNum txHash logIdx ''ClaimTopicAdded''
      else if topic0 = SigClaimTopicRemoved then handleClaimTopic l blockNum txHash logIdx ''ClaimTopicRemoved''
      else if topic0 = SigModuleAdded \<or> topic0 = SigModuleRemoved \<or> topic0 = SigTokenBound
           \<or> topic0 = SigTokenUnbound \<or> topic0 = SigModuleInteraction then
        handleComplianceEvent l blockNum txHash logIdx topic0
      else (\<lambda>s. s))"

section \<open>What the handlers touch\<close>

definition entitiesOnly :: "store \<Rightarrow> store \<Rightarrow> bool" where
  "entitiesOnly s s' \<longleftrightarrow> s' = s\<lparr>dbGeneric := dbGeneric s'\<rparr>"

lemma entitiesOnly_refl [simp]: "entitiesOnly s s"
  by (simp add: entitiesOnly_def)

lemma entitiesOnly_SetEntity [simp]: "entitiesOnly s (SetEntity t i v s') \<longleftrightarrow> entitiesOnly s s'"
  by (cases s; cases s') (simp add: entitiesOnly_def SetEntity_def)

lemma entitiesOnly_fields:
  "entitiesOnly s s' \<Longrightarrow> dbPools s' = dbPools s \<and> dbSwaps s' = dbSwaps s \<and> dbTokens s' = dbTokens s
     \<and> dbLastBlock s' = dbLastBlock s"
  by (cases s; cases s') (simp add: entitiesOnly_def)

lemmas securities_defs =
  handleAddressFrozen_def handleTokensFrozen_def handleSecurityPause_def handleRecoverySuccess_def
  handleIdentityRegistryAction_def handleClaim_def handleKey_def handleTrustedIssuer_def
  handleClaimTopic_def handleComplianceEvent_def handleSimpleSecuritiesEvent_def

lemma securities_entitiesOnly:
  "entitiesOnly s (handleAddressFrozen l n tx i s)"
  "entitiesOnly s (handleTokensFrozen l n tx i b s)"
  "entitiesOnly s (handleSecurityPause l n tx i b s)"
  "entitiesOnly s (handleRecoverySuccess l n tx i s)"
  "entitiesOnly s (handleIdentityRegistryAction l n tx i k s)"
  "entitiesOnly s (handleClaim l n tx i k s)"
  "entitiesOnly s (handleKey l n tx i k s)"
  "entitiesOnly s (handleTrustedIssuer l n tx i k s)"
  "entitiesOnly s (handleClaimTopic l n tx i k s)"
  "entitiesOnly s (handleComplianceEvent l n tx i k s)"
  "entitiesOnly s (handleSimpleSecuritiesEvent l n tx i k s)"
  by (simp_all add: securities_defs Let_def)

lemma securitiesLog_entitiesOnly: "entitiesOnly s (securitiesLog t l n tx i s)"
  unfolding securitiesLog_def by (simp add: securities_entitiesOnly)

text \<open>The current freeze state of a user is written by \<open>AddressFrozen\<close> alone.\<close>

lemma GetByType_SetEntity:
  "colonFree t \<Longrightarrow> colonFree t' \<Longrightarrow>
   GetByType (SetEntity t i v s) t' i' = (if t' = t \<and> i' = i then v else GetByType s t' i')"
  by (auto simp: entities.get_put_same intro: entities.get_put_other)

definition snapshotId :: "logEntry \<Rightarrow> string" where
  "snapshotId l = leAddress l @ '':'' @ topicAddr (leTopics l ! 1)"

definition freezes :: "string \<Rightarrow> logEntry \<Rightarrow> bool" where
  "freezes i l \<longleftrightarrow> 4 \<le> length (leTopics l) \<and> leTopics l ! 0 = SigAddressFrozen \<and> snapshotId l = i"

lemma securities_keep_frozen:
  "GetByType (handleTokensFrozen l n tx i b s) ''FrozenAccount'' a = GetByType s ''FrozenAccount'' a"
  "GetByType (handleSecurityPause l n tx i b s) ''FrozenAccount'' a = GetByType s ''FrozenAccount'' a"
  "GetByType (handleRecoverySuccess l n tx i s) ''FrozenAccount'' a = GetByType s ''FrozenAccount'' a"
  "GetByType (handleIdentityRegistryAction l n tx i k s) ''FrozenAccount'' a = GetByType s ''FrozenAccount'' a"
  "GetByType (handleClaim l n tx i k s) ''FrozenAccount'' a = GetByType s ''FrozenAccount'' a"
  "GetByType (handleKey l n tx i k s) ''FrozenAccount'' a = GetByType s ''FrozenAccount'' a"
  "GetByType (handleTrustedIssuer l n tx i k s) ''FrozenAccount'' a = GetByType s ''FrozenAccount'' a"
  "GetByType (handleClaimTopic l n tx i k s) ''FrozenAccount'' a = GetByType s ''FrozenAccount'' a"
  "GetByType (handleComplianceEvent l n tx i k s) ''FrozenAccount'' a = GetByType s ''FrozenAccount'' a"
  "GetByType (handleSimpleSecuritiesEvent l n tx i k s) ''FrozenAccount'' a = GetByType s ''FrozenAccount'' a"
  by (simp_all add: securities_defs Let_def GetByType_SetEntity colonFree_def)

lemma addressFrozen_frozen:
  "GetByType (handleAddressFrozen l n tx i s) ''FrozenAccount'' a =
    (if 4 \<le> length (leTopics l) \<and> snapshotId l = a then
       VMap [(''id'', VStr a), (''token'', VStr (leAddress l)), (''user'', VStr (topicAddr (leTopics l ! 1))),
             (''frozen'', VBool (topicBool (leTopics l ! 2))), (''updated'', VInt (uint n))]
     else GetByType s ''FrozenAccount'' a)"
  by (auto simp: handleAddressFrozen_def Let_def GetByType_SetEntity colonFree_def snapshotId_def)

lemma securitiesLog_frozen:
  "GetByType (securitiesLog t l n tx i s) ''FrozenAccount'' a =
    (if t = SigAddressFrozen then GetByType (handleAddressFrozen l n tx i s) ''FrozenAccount'' a
     else GetByType s ''FrozenAccount'' a)"
  unfolding securitiesLog_def by (simp add: securities_keep_frozen)

end
