(* ===== verification/Handlers.thy ===== *)
theory Handlers
  imports Securities
begin

text \<open>
  The indexer's state and its log handlers, src/indexer/indexer.go: \<open>processLog\<close> dispatches a log on
  its signature; the factory events register pools, the swap events record swaps of registered pools,
  the settlement events record fills and markets.

  The record \<open>indexer\<close> holds what the handlers and the poll read and write; the store and the token
  cache are part of it.  A handler answers \<open>Returns\<close> the new state, or \<open>Throws\<close> the state at the point
  where a run-time panic left it: what was written before the panic stays written, because the poll
  loop recovers the panic and goes on with the same indexer.
\<close>

record indexer =
  ixPoolManager :: string
  ixFactoryV2 :: string
  ixFactoryV3 :: string
  ixNative :: string
  ixStartBlock :: "64 word"
  ixStore :: store
  ixLastBlock :: "64 word"
  ixLowHeadStreak :: int
  ixGenesisHash :: string
  ixLatestBlock :: "64 word"
  ixIndexedEvents :: "64 word"
  ixTokenCache :: tokenCache

datatype run = Returns indexer | Throws indexer

definition andThen :: "run \<Rightarrow> (indexer \<Rightarrow> run) \<Rightarrow> run" where
  "andThen r f = (case r of Returns idx \<Rightarrow> f idx | Throws idx \<Rightarrow> Throws idx)"

definition onStore :: "(store \<Rightarrow> store) \<Rightarrow> indexer \<Rightarrow> indexer" where
  "onStore f idx = idx\<lparr>ixStore := f (ixStore idx)\<rparr>"

text \<open>\<open>idx.token(ctx, addr)\<close> with its answer, and as a statement.\<close>

definition tokenOf :: "ethCalls \<Rightarrow> string \<Rightarrow> indexer \<Rightarrow> (seedToken \<times> indexer) option" where
  "tokenOf call addr idx =
     map_option (\<lambda>(t, s, c). (t, idx\<lparr>ixStore := s, ixTokenCache := c\<rparr>))
       (token call addr (ixStore idx, ixTokenCache idx))"

definition seeToken :: "ethCalls \<Rightarrow> string \<Rightarrow> indexer \<Rightarrow> run" where
  "seeToken call addr idx = (case tokenOf call addr idx of None \<Rightarrow> Throws idx | Some (_, idx') \<Rightarrow> Returns idx')"

definition isPoolManager :: "indexer \<Rightarrow> string \<Rightarrow> bool" where
  "isPoolManager idx addr = equalFold addr (ixPoolManager idx)"

definition isKnownPool :: "indexer \<Rightarrow> string \<Rightarrow> bool" where
  "isKnownPool idx addr = (GetPool (ixStore idx) (toLower addr) \<noteq> VNil)"

definition emptyPool :: seedPool where
  "emptyPool =
     \<lparr>spToken0 = '''', spToken1 = '''', spFeeTier = 0, spTotalValueLockedUSD = '''', spVolumeUSD = '''',
      spToken0Price = '''', spToken1Price = '''', spTxCount = 0\<rparr>"

section \<open>Swaps\<close>

definition senderOf :: "logEntry \<Rightarrow> string" where
  "senderOf l = (if length (leTopics l) > 1 then topicAddr (leTopics l ! 1) else '''')"

definition handleSwapV2 :: "logEntry \<Rightarrow> 64 word \<Rightarrow> string \<Rightarrow> string \<Rightarrow> indexer \<Rightarrow> indexer" where
  "handleSwapV2 l blockNum txHash logIdx idx =
     (if \<not> isKnownPool idx (leAddress l) then idx
      else
        (let amount0 = decodeUint256 (leData l) 0 - decodeUint256 (leData l) 2;
             amount1 = decodeUint256 (leData l) 1 - decodeUint256 (leData l) 3
         in onStore (SeedSwap (txHash @ ''#'' @ logIdx)
              \<lparr>swTimestamp = leTime l, swBlock = blockNum, swPool = leAddress l,
               swAmount0 = intText 10 amount0, swAmount1 = intText 10 amount1, swAmountUSD = ''0'',
               swSender = senderOf l\<rparr>) idx))"

definition handleSwapV3 :: "logEntry \<Rightarrow> 64 word \<Rightarrow> string \<Rightarrow> string \<Rightarrow> indexer \<Rightarrow> indexer" where
  "handleSwapV3 l blockNum txHash logIdx idx =
     (if \<not> isKnownPool idx (leAddress l) then idx
      else onStore (SeedSwap (txHash @ ''#'' @ logIdx)
             \<lparr>swTimestamp = leTime l, swBlock = blockNum, swPool = leAddress l,
              swAmount0 = intText 10 (decodeInt256 (leData l) 0),
              swAmount1 = intText 10 (decodeInt256 (leData l) 1), swAmountUSD = ''0'',
              swSender = senderOf l\<rparr>) idx)"

definition handleSwapV4 :: "logEntry \<Rightarrow> 64 word \<Rightarrow> string \<Rightarrow> string \<Rightarrow> indexer \<Rightarrow> indexer" where
  "handleSwapV4 l blockNum txHash logIdx idx =
     (if length (leTopics l) < 3 \<or> \<not> isPoolManager idx (leAddress l) then idx
      else onStore (SeedSwap (txHash @ ''#'' @ logIdx)
             \<lparr>swTimestamp = leTime l, swBlock = blockNum, swPool = leTopics l ! 1,
              swAmount0 = intText 10 (decodeInt256 (leData l) 0),
              swAmount1 = intText 10 (decodeInt256 (leData l) 1), swAmountUSD = ''0'',
              swSender = topicAddr (leTopics l ! 2)\<rparr>) idx)"

section \<open>Pools\<close>

definition seedPoolWithTokens :: "ethCalls \<Rightarrow> string \<Rightarrow> string \<Rightarrow> string \<Rightarrow> int \<Rightarrow> indexer \<Rightarrow> run" where
  "seedPoolWithTokens call pool token0 token1 fee idx =
     andThen (seeToken call token0
       (onStore (SeedPool pool (emptyPool\<lparr>spToken0 := token0, spToken1 := token1, spFeeTier := fee\<rparr>)) idx))
       (seeToken call token1)"

definition pairAddress :: "string \<Rightarrow> string" where
  "pairAddress data =
     (let pair = ''0x'' @ take 64 data
      in toLower (topicAddr (''0x'' @ drop (length pair - 40) pair)))"

definition handlePairCreated :: "ethCalls \<Rightarrow> logEntry \<Rightarrow> indexer \<Rightarrow> run" where
  "handlePairCreated call l idx =
     (if length (leTopics l) < 3 \<or> \<not> equalFold (leAddress l) (ixFactoryV2 idx) then Returns idx
      else
        (let data = trimPrefix (leData l) ''0x'' in
         if length data < 64 then Returns idx
         else seedPoolWithTokens call (pairAddress data) (topicAddr (leTopics l ! 1)) (topicAddr (leTopics l ! 2))
                3000 idx))"

definition handlePoolCreated :: "ethCalls \<Rightarrow> logEntry \<Rightarrow> indexer \<Rightarrow> run" where
  "handlePoolCreated call l idx =
     (if length (leTopics l) < 4 \<or> \<not> equalFold (leAddress l) (ixFactoryV3 idx) then Returns idx
      else
        (let data = trimPrefix (leData l) ''0x'' in
         if length data < 64 then Returns idx
         else
           (let fee = fst (parseInt 16 (trimPrefix (leTopics l ! 3) ''0x''));
                pool = toLower (topicAddr (''0x'' @ data))
            in seedPoolWithTokens call pool (topicAddr (leTopics l ! 1)) (topicAddr (leTopics l ! 2)) fee idx)))"

definition handleTransfer :: "ethCalls \<Rightarrow> logEntry \<Rightarrow> indexer \<Rightarrow> run" where
  "handleTransfer call l idx =
     (if length (leTopics l) \<ge> 3 then seeToken call (leAddress l) idx else Returns idx)"

section \<open>Markets and fills\<close>

definition symbolChars :: "string \<Rightarrow> string" where
  "symbolChars s = filter (\<lambda>c. (65 \<le> byteOf c \<and> byteOf c \<le> 90) \<or> (48 \<le> byteOf c \<and> byteOf c \<le> 57)) (upperText s)"

definition pairSide :: "ethCalls \<Rightarrow> string \<Rightarrow> indexer \<Rightarrow> (string \<times> indexer) option" where
  "pairSide call addr idx =
     map_option (\<lambda>(meta, idx').
       (if isPlaceholderSymbol (stSymbol meta) addr then ''''
        else (let s = symbolChars (stSymbol meta) in if length s < 2 \<or> length s > 12 then '''' else s), idx'))
       (tokenOf call addr idx)"

definition mergeKeys :: "string list \<Rightarrow> val gomap \<Rightarrow> val gomap \<Rightarrow> val gomap" where
  "mergeKeys ks em mk =
     foldl (\<lambda>mk k. case getKey em k of Some v \<Rightarrow> putKey k v mk | None \<Rightarrow> mk) mk ks"

definition writeMarketV4 :: "string \<Rightarrow> string \<Rightarrow> bool \<Rightarrow> string \<Rightarrow> string \<Rightarrow> int \<Rightarrow> store \<Rightarrow> store" where
  "writeMarketV4 poolID symbol assetsBound token0 token1 fee s =
     (let mk =
        [(''id'', VStr poolID), (''symbol'', VStr symbol), (''assetsBound'', VBool assetsBound),
         (''baseToken'', VStr token0), (''quoteToken'', VStr token1), (''feeTier'', VInt fee),
         (''volume24h'', VStr ''0''), (''tradeCount'', VInt 0), (''lastPrice'', VStr ''0'')];
          mk' = (case GetByType s ''Market'' poolID of
                   VMap em \<Rightarrow> mergeKeys [''volume24h'', ''tradeCount'', ''lastPrice'', ''lastUpdate''] em mk
                 | _ \<Rightarrow> mk)
      in SetEntity ''Market'' poolID (VMap mk') s)"

definition handleInitializeV4 :: "ethCalls \<Rightarrow> logEntry \<Rightarrow> indexer \<Rightarrow> run" where
  "handleInitializeV4 call l idx =
     (if length (leTopics l) < 4 \<or> \<not> isPoolManager idx (leAddress l) then Returns idx
      else
        (let poolID = leTopics l ! 1; token0 = topicAddr (leTopics l ! 2); token1 = topicAddr (leTopics l ! 3);
             fee = bigInt64 (decodeUint256 (leData l) 0)
         in andThen (seedPoolWithTokens call poolID token0 token1 fee idx) (\<lambda>idx1.
              case pairSide call token0 idx1 of
                None \<Rightarrow> Throws idx1
              | Some (s0, idx2) \<Rightarrow>
                  (case pairSide call token1 idx2 of
                     None \<Rightarrow> Throws idx2
                   | Some (s1, idx3) \<Rightarrow>
                       (let bound = (s0 \<noteq> '''' \<and> s1 \<noteq> '''') in
                        Returns (onStore (writeMarketV4 poolID (if bound then s0 @ ''/'' @ s1 else poolID) bound
                          token0 token1 fee) idx3))))))"

definition writeFill :: "string \<Rightarrow> string \<Rightarrow> string \<Rightarrow> int \<Rightarrow> int \<Rightarrow> string \<Rightarrow> store \<Rightarrow> store" where
  "writeFill i poolID taker amountOut ts txHash s0 =
     (let s = SetEntity ''Fill'' i (VMap
            [(''id'', VStr i), (''market'', VStr poolID), (''taker'', VStr taker),
             (''amountOut'', VStr (intText 10 amountOut)), (''timestamp'', VInt ts), (''txHash'', VStr txHash)]) s0
      in case GetByType s ''Market'' poolID of
           VMap mm \<Rightarrow>
             (let vol = fst (setString 10 (sprint (getVal mm ''volume24h''))); tc = asInt64 (getVal mm ''tradeCount'')
              in SetEntity ''Market'' poolID (VMap
                   (putKey ''lastUpdate'' (VInt ts)
                     (putKey ''tradeCount'' (VInt (bigInt64 (tc + 1)))
                       (putKey ''volume24h'' (VStr (intText 10 (vol + amountOut))) mm)))) s)
         | _ \<Rightarrow>
             SetEntity ''Market'' poolID (VMap
               [(''id'', VStr poolID), (''symbol'', VStr poolID), (''volume24h'', VStr (intText 10 amountOut)),
                (''tradeCount'', VInt 1), (''lastUpdate'', VInt ts)]) s)"

definition handleDEXFill :: "logEntry \<Rightarrow> 64 word \<Rightarrow> string \<Rightarrow> string \<Rightarrow> indexer \<Rightarrow> indexer" where
  "handleDEXFill l blockNum txHash logIdx idx =
     (if length (leTopics l) < 3 \<or> \<not> isPoolManager idx (leAddress l) then idx
      else onStore (writeFill (txHash @ ''#'' @ logIdx) (leTopics l ! 1) (topicAddr (leTopics l ! 2))
             (decodeUint256 (leData l) 0) (sint blockNum) txHash) idx)"

section \<open>Dispatch\<close>

text \<open>The signatures the code lists as deliberately inert fall to \<open>securitiesLog\<close>, which ignores them.\<close>

definition processLog :: "ethCalls \<Rightarrow> logEntry \<Rightarrow> indexer \<Rightarrow> run" where
  "processLog call l idx =
     (case leTopics l of
        [] \<Rightarrow> Returns idx
      | topic0 # _ \<Rightarrow>
          (let blockNum = fst (parseHexUint64 (leBlockNumber l)); txHash = leTxHash l; logIdx = leLogIndex l in
           if topic0 = SigSwapV2 then Returns (handleSwapV2 l blockNum txHash logIdx idx)
           else if topic0 = SigSwapV3 then Returns (handleSwapV3 l blockNum txHash logIdx idx)
           else if topic0 = SigPairCreated then handlePairCreated call l idx
           else if topic0 = SigPoolCreated then handlePoolCreated call l idx
           else if topic0 = SigTransfer then handleTransfer call l idx
           else if topic0 = SigInitializeV4 then handleInitializeV4 call l idx
           else if topic0 = SigSwapV4 then Returns (handleSwapV4 l blockNum txHash logIdx idx)
           else if topic0 = SigDEXFill then Returns (handleDEXFill l blockNum txHash logIdx idx)
           else Returns (onStore (securitiesLog topic0 l blockNum txHash logIdx) idx)))"

section \<open>What a handler may change\<close>

fun after :: "run \<Rightarrow> indexer" where
  "after (Returns idx) = idx"
| "after (Throws idx) = idx"

lemma after_andThen:
  "after (andThen r f) = (case r of Returns idx \<Rightarrow> after (f idx) | Throws idx \<Rightarrow> idx)"
  by (cases r) (simp_all add: andThen_def)

lemma onStore_fields [simp]:
  "ixStore (onStore f idx) = f (ixStore idx)"
  "ixPoolManager (onStore f idx) = ixPoolManager idx"
  "ixFactoryV2 (onStore f idx) = ixFactoryV2 idx"
  "ixFactoryV3 (onStore f idx) = ixFactoryV3 idx"
  "ixLastBlock (onStore f idx) = ixLastBlock idx"
  "ixTokenCache (onStore f idx) = ixTokenCache idx"
  by (simp_all add: onStore_def)

text \<open>\<open>quiet\<close> steps change the token table, the token cache and the entities only.\<close>

definition sameConfig :: "indexer \<Rightarrow> indexer \<Rightarrow> bool" where
  "sameConfig idx idx' \<longleftrightarrow> idx' = idx\<lparr>ixStore := ixStore idx', ixTokenCache := ixTokenCache idx'\<rparr>"

definition quiet :: "indexer \<Rightarrow> indexer \<Rightarrow> bool" where
  "quiet idx idx' \<longleftrightarrow> sameConfig idx idx' \<and> dbPools (ixStore idx') = dbPools (ixStore idx)
     \<and> dbSwaps (ixStore idx') = dbSwaps (ixStore idx)
     \<and> dbLastBlock (ixStore idx') = dbLastBlock (ixStore idx)"

lemma sameConfig_refl [simp]: "sameConfig idx idx"
  by (simp add: sameConfig_def)

lemma sameConfig_onStore [simp]: "sameConfig idx (onStore f idx') \<longleftrightarrow> sameConfig idx idx'"
  by (cases idx; cases idx') (simp add: sameConfig_def onStore_def)

lemma sameConfig_trans: "sameConfig a b \<Longrightarrow> sameConfig b c \<Longrightarrow> sameConfig a c"
  by (cases a; cases b; cases c) (simp add: sameConfig_def)

lemma sameConfig_fields:
  "sameConfig a b \<Longrightarrow> ixPoolManager b = ixPoolManager a \<and> ixFactoryV2 b = ixFactoryV2 a \<and>
     ixFactoryV3 b = ixFactoryV3 a \<and> ixLastBlock b = ixLastBlock a \<and> ixStartBlock b = ixStartBlock a \<and>
     ixGenesisHash b = ixGenesisHash a \<and> ixLowHeadStreak b = ixLowHeadStreak a \<and>
     ixLatestBlock b = ixLatestBlock a \<and> ixIndexedEvents b = ixIndexedEvents a"
  by (cases a; cases b) (simp add: sameConfig_def)

lemma quiet_refl [simp]: "quiet idx idx"
  by (simp add: quiet_def)

lemma quiet_trans: "quiet a b \<Longrightarrow> quiet b c \<Longrightarrow> quiet a c"
  by (auto simp: quiet_def intro: sameConfig_trans)

lemma quiet_entities: "entitiesOnly (ixStore idx) (f (ixStore idx)) \<Longrightarrow> quiet idx (onStore f idx)"
  by (auto simp: quiet_def dest: entitiesOnly_fields)

lemma tokenOf_quiet: "tokenOf call addr idx = Some (t, idx') \<Longrightarrow> quiet idx idx'"
  by (auto simp: tokenOf_def quiet_def sameConfig_def dest!: token_frame sameButTokens_fields)

lemma seeToken_quiet: "quiet idx (after (seeToken call addr idx))"
  by (auto simp: seeToken_def dest: tokenOf_quiet split: option.splits)

lemma pairSide_quiet: "pairSide call addr idx = Some (s, idx') \<Longrightarrow> quiet idx idx'"
  by (auto simp: pairSide_def dest: tokenOf_quiet)

lemma writeMarketV4_entities: "entitiesOnly s (writeMarketV4 p sy b t0 t1 fee s)"
  by (simp add: writeMarketV4_def Let_def)

lemma writeFill_entities: "entitiesOnly s (writeFill i p t a ts tx s)"
  by (auto simp: writeFill_def Let_def split: val.splits)

section \<open>Who may register a pool or record a swap\<close>

text \<open>The log \<open>l\<close> comes from a canonical factory and names the pool \<open>a\<close>.\<close>

definition authorises :: "indexer \<Rightarrow> logEntry \<Rightarrow> string \<Rightarrow> bool" where
  "authorises idx l a \<longleftrightarrow> leTopics l \<noteq> [] \<and>
     (leTopics l ! 0 = SigPairCreated \<and> equalFold (leAddress l) (ixFactoryV2 idx)
        \<and> a = pairAddress (trimPrefix (leData l) ''0x'')
      \<or> leTopics l ! 0 = SigPoolCreated \<and> equalFold (leAddress l) (ixFactoryV3 idx)
        \<and> a = toLower (topicAddr (''0x'' @ trimPrefix (leData l) ''0x''))
      \<or> leTopics l ! 0 = SigInitializeV4 \<and> equalFold (leAddress l) (ixPoolManager idx)
        \<and> 4 \<le> length (leTopics l) \<and> a = leTopics l ! 1)"

text \<open>The log \<open>l\<close> is a swap of the pool \<open>a\<close>: its emitter, or the pool id its settlement emitter names.\<close>

definition swapsAt :: "indexer \<Rightarrow> logEntry \<Rightarrow> string \<Rightarrow> bool" where
  "swapsAt idx l a \<longleftrightarrow> leTopics l \<noteq> [] \<and>
     ((leTopics l ! 0 = SigSwapV2 \<or> leTopics l ! 0 = SigSwapV3) \<and> a = leAddress l
      \<or> leTopics l ! 0 = SigSwapV4 \<and> equalFold (leAddress l) (ixPoolManager idx)
        \<and> 3 \<le> length (leTopics l) \<and> a = leTopics l ! 1)"

lemma seedPoolWithTokens_after:
  "\<exists>p. quiet (onStore (SeedPool a p) idx) (after (seedPoolWithTokens call a t0 t1 fee idx))
     \<and> spToken0 p = t0 \<and> spToken1 p = t1 \<and> spFeeTier p = fee"
  unfolding seedPoolWithTokens_def after_andThen
  using seeToken_quiet quiet_trans
  by (intro exI[of _ "emptyPool\<lparr>spToken0 := t0, spToken1 := t1, spFeeTier := fee\<rparr>"])
     (auto split: run.splits, (metis after.simps)+)

definition poolStep :: "indexer \<Rightarrow> logEntry \<Rightarrow> indexer \<Rightarrow> bool" where
  "poolStep idx l idx' \<longleftrightarrow>
     quiet idx idx' \<or> (\<exists>a p. authorises idx l a \<and> quiet (onStore (SeedPool a p) idx) idx')"

lemma handlePairCreated_step:
  "leTopics l ! 0 = SigPairCreated \<Longrightarrow> poolStep idx l (after (handlePairCreated call l idx))"
  using seedPoolWithTokens_after[of "pairAddress (trimPrefix (leData l) ''0x'')" idx call]
  by (fastforce simp: handlePairCreated_def poolStep_def authorises_def Let_def)

lemma handlePoolCreated_step:
  "leTopics l ! 0 = SigPoolCreated \<Longrightarrow> poolStep idx l (after (handlePoolCreated call l idx))"
  using seedPoolWithTokens_after[of "toLower (topicAddr (''0x'' @ trimPrefix (leData l) ''0x''))" idx call]
  by (fastforce simp: handlePoolCreated_def poolStep_def authorises_def Let_def)

lemma handleInitializeV4_step:
  assumes "leTopics l ! 0 = SigInitializeV4"
  shows "poolStep idx l (after (handleInitializeV4 call l idx))"
proof (cases "length (leTopics l) < 4 \<or> \<not> isPoolManager idx (leAddress l)")
  case True
  then show ?thesis by (auto simp: handleInitializeV4_def poolStep_def)
next
  case False
  let ?a = "leTopics l ! 1" and ?t0 = "topicAddr (leTopics l ! 2)" and ?t1 = "topicAddr (leTopics l ! 3)"
  let ?fee = "bigInt64 (decodeUint256 (leData l) 0)"
  let ?r = "seedPoolWithTokens call ?a ?t0 ?t1 ?fee idx"
  have auth: "authorises idx l ?a" using False assms by (auto simp: authorises_def isPoolManager_def)
  obtain p where p: "quiet (onStore (SeedPool ?a p) idx) (after ?r)"
    using seedPoolWithTokens_after by metis
  have rest: "quiet (after ?r) (after (handleInitializeV4 call l idx))"
  proof (cases ?r)
    case (Throws i)
    then show ?thesis using False by (simp add: handleInitializeV4_def Let_def andThen_def)
  next
    case (Returns i1)
    have mk: "quiet i1 (onStore (writeMarketV4 q s b t0 t1 f) i3)"
      if "pairSide call u0 i1 = Some (s0, i2)" "pairSide call u1 i2 = Some (s1, i3)" for q s b t0 t1 f u0 s0 i2 u1 s1 i3
      using that[THEN pairSide_quiet] writeMarketV4_entities quiet_entities quiet_trans by metis
    show ?thesis using False Returns
      by (auto simp: handleInitializeV4_def Let_def andThen_def split: option.splits
          dest: pairSide_quiet intro: mk)
  qed
  show ?thesis unfolding poolStep_def using auth quiet_trans[OF p rest] by blast
qed

lemma handleTransfer_quiet: "quiet idx (after (handleTransfer call l idx))"
  by (simp add: handleTransfer_def seeToken_quiet)

definition swapStep :: "indexer \<Rightarrow> logEntry \<Rightarrow> indexer \<Rightarrow> bool" where
  "swapStep idx l idx' \<longleftrightarrow>
     idx' = idx \<or> (\<exists>d. swapsAt idx l (swPool d) \<and> swTimestamp d = leTime l \<and>
        (leTopics l ! 0 \<noteq> SigSwapV4 \<longrightarrow> isKnownPool idx (swPool d)) \<and>
        idx' = onStore (SeedSwap (leTxHash l @ ''#'' @ leLogIndex l) d) idx)"

lemma handleSwapV2_step:
  "leTopics l \<noteq> [] \<Longrightarrow> leTopics l ! 0 = SigSwapV2 \<Longrightarrow>
   swapStep idx l (handleSwapV2 l n (leTxHash l) (leLogIndex l) idx)"
  by (auto simp: handleSwapV2_def swapStep_def swapsAt_def Let_def sig_defs
      intro!: exI[of _ "\<lparr>swTimestamp = leTime l, swBlock = n, swPool = leAddress l,
        swAmount0 = intText 10 (decodeUint256 (leData l) 0 - decodeUint256 (leData l) 2),
        swAmount1 = intText 10 (decodeUint256 (leData l) 1 - decodeUint256 (leData l) 3),
        swAmountUSD = ''0'', swSender = senderOf l\<rparr>"])

lemma handleSwapV3_step:
  "leTopics l \<noteq> [] \<Longrightarrow> leTopics l ! 0 = SigSwapV3 \<Longrightarrow>
   swapStep idx l (handleSwapV3 l n (leTxHash l) (leLogIndex l) idx)"
  by (auto simp: handleSwapV3_def swapStep_def swapsAt_def sig_defs
      intro!: exI[of _ "\<lparr>swTimestamp = leTime l, swBlock = n, swPool = leAddress l,
        swAmount0 = intText 10 (decodeInt256 (leData l) 0), swAmount1 = intText 10 (decodeInt256 (leData l) 1),
        swAmountUSD = ''0'', swSender = senderOf l\<rparr>"])

lemma handleSwapV4_step:
  "leTopics l \<noteq> [] \<Longrightarrow> leTopics l ! 0 = SigSwapV4 \<Longrightarrow>
   swapStep idx l (handleSwapV4 l n (leTxHash l) (leLogIndex l) idx)"
  by (auto simp: handleSwapV4_def swapStep_def swapsAt_def isPoolManager_def
      intro!: exI[of _ "\<lparr>swTimestamp = leTime l, swBlock = n, swPool = leTopics l ! 1,
        swAmount0 = intText 10 (decodeInt256 (leData l) 0), swAmount1 = intText 10 (decodeInt256 (leData l) 1),
        swAmountUSD = ''0'', swSender = topicAddr (leTopics l ! 2)\<rparr>"])

lemma handleDEXFill_quiet: "quiet idx (handleDEXFill l n tx i idx)"
  by (auto simp: handleDEXFill_def intro: quiet_entities writeFill_entities)

lemma processLog_step:
  "poolStep idx l (after (processLog call l idx)) \<or> swapStep idx l (after (processLog call l idx))"
proof (cases "leTopics l")
  case Nil
  then show ?thesis by (simp add: processLog_def poolStep_def)
next
  case (Cons t ts)
  have q: "quiet idx idx' \<Longrightarrow> poolStep idx l idx'" for idx' by (simp add: poolStep_def)
  have sec: "quiet idx (onStore (securitiesLog t l n tx i) idx)" for n tx i
    by (intro quiet_entities securitiesLog_entitiesOnly)
  show ?thesis
    unfolding processLog_def Let_def Cons list.case
    using handleSwapV2_step[of l idx] handleSwapV3_step[of l idx] handleSwapV4_step[of l idx]
      handlePairCreated_step[of l idx call] handlePoolCreated_step[of l idx call]
      handleInitializeV4_step[of l idx call] q[OF handleTransfer_quiet] q[OF handleDEXFill_quiet] q[OF sec]
    by (simp add: Cons)
qed

section \<open>Runs of the indexer\<close>

text \<open>\<open>indexes idx ls idx'\<close>: from \<open>idx\<close> the indexer processed the logs \<open>ls\<close>, in this order, against
  whatever the chain answered each time, and stands at \<open>idx'\<close>; a panicking handler is one whose
  partial effects stay.\<close>

inductive indexes :: "indexer \<Rightarrow> logEntry list \<Rightarrow> indexer \<Rightarrow> bool" where
  start: "indexes idx [] idx"
| log: "indexes idx ls j \<Longrightarrow> indexes idx (ls @ [l]) (after (processLog call l j))"

inductive_cases indexes_snocE: "indexes idx (ls @ [l]) idx'"

lemma poolStep_config: "poolStep idx l idx' \<Longrightarrow> sameConfig idx idx'"
  by (auto simp: poolStep_def quiet_def) (metis sameConfig_onStore sameConfig_refl sameConfig_trans)

lemma swapStep_config: "swapStep idx l idx' \<Longrightarrow> sameConfig idx idx'"
  by (auto simp: swapStep_def)

lemma processLog_config: "sameConfig idx (after (processLog call l idx))"
  using processLog_step poolStep_config swapStep_config by blast

lemma indexes_config: "indexes idx ls idx' \<Longrightarrow> sameConfig idx idx'"
  by (induction rule: indexes.induct) (auto intro: sameConfig_trans processLog_config)

lemma authorises_config: "sameConfig idx idx' \<Longrightarrow> authorises idx' l a \<longleftrightarrow> authorises idx l a"
  by (auto simp: authorises_def dest: sameConfig_fields)

lemma swapsAt_config: "sameConfig idx idx' \<Longrightarrow> swapsAt idx' l a \<longleftrightarrow> swapsAt idx l a"
  by (auto simp: swapsAt_def dest: sameConfig_fields)

lemma pools_after:
  assumes "getKey (dbPools (ixStore (after (processLog call l idx)))) a \<noteq> None"
  shows "getKey (dbPools (ixStore idx)) a \<noteq> None \<or> authorises idx l a"
  using processLog_step[of idx l call] assms
  by (auto simp: poolStep_def swapStep_def quiet_def SeedPool_def SeedSwap_def split: if_splits)

lemma swaps_after:
  assumes "getKey (dbSwaps (ixStore (after (processLog call l idx)))) i = Some d"
  shows "getKey (dbSwaps (ixStore idx)) i = Some d \<or>
    (i = leTxHash l @ ''#'' @ leLogIndex l \<and> swapsAt idx l (swPool d) \<and> swTimestamp d = leTime l \<and>
     (leTopics l ! 0 \<noteq> SigSwapV4 \<longrightarrow> isKnownPool idx (swPool d)))"
  using processLog_step[of idx l call] assms
  by (auto simp: poolStep_def swapStep_def quiet_def SeedPool_def SeedSwap_def split: if_splits)

lemma lastBlock_after: "dbLastBlock (ixStore (after (processLog call l idx))) = dbLastBlock (ixStore idx)"
  using processLog_step[of idx l call]
  by (auto simp: poolStep_def swapStep_def quiet_def SeedPool_def SeedSwap_def)

lemma pools_trusted:
  assumes "indexes idx ls idx'" "getKey (dbPools (ixStore idx')) a \<noteq> None"
  shows "getKey (dbPools (ixStore idx)) a \<noteq> None \<or> (\<exists>l \<in> set ls. authorises idx l a)"
  using assms
proof (induction rule: indexes.induct)
  case (log idx ls j l call)
  then show ?case using pools_after[of call l j a] authorises_config[OF indexes_config[OF log.hyps]] by auto
qed simp

lemma isKnownPool_iff: "isKnownPool idx a \<longleftrightarrow> getKey (dbPools (ixStore idx)) (toLower a) \<noteq> None"
  by (auto simp: isKnownPool_def GetPool_def poolToMap_def split: option.splits)


section \<open>The freeze state follows the last event\<close>

definition frozenAt :: "indexer \<Rightarrow> string \<Rightarrow> val" where
  "frozenAt idx a = GetByType (ixStore idx) ''FrozenAccount'' a"

lemma frozenAt_SeedPool [simp]: "frozenAt (onStore (SeedPool p d) idx) a = frozenAt idx a"
  by (simp add: frozenAt_def GetByType_def SeedPool_def)

lemma frozenAt_SeedSwap [simp]: "frozenAt (onStore (SeedSwap p d) idx) a = frozenAt idx a"
  by (simp add: frozenAt_def GetByType_def SeedSwap_def)

lemma frozenAt_writeMarketV4 [simp]: "frozenAt (onStore (writeMarketV4 p sy b t0 t1 fee) idx) a = frozenAt idx a"
  by (simp add: frozenAt_def writeMarketV4_def Let_def GetByType_SetEntity colonFree_def)

lemma frozenAt_writeFill [simp]: "frozenAt (onStore (writeFill i p t am ts tx) idx) a = frozenAt idx a"
  by (auto simp: frozenAt_def writeFill_def Let_def GetByType_SetEntity colonFree_def split: val.splits)

lemma frozenAt_tokenOf: "tokenOf call addr idx = Some (t, idx') \<Longrightarrow> frozenAt idx' a = frozenAt idx a"
  by (auto simp: tokenOf_def frozenAt_def GetByType_def dest!: token_frame sameButTokens_fields)

lemma frozenAt_seeToken [simp]: "frozenAt (after (seeToken call addr idx)) a = frozenAt idx a"
  by (auto simp: seeToken_def dest: frozenAt_tokenOf split: option.splits)

lemma frozenAt_pairSide: "pairSide call addr idx = Some (s, idx') \<Longrightarrow> frozenAt idx' a = frozenAt idx a"
  by (auto simp: pairSide_def dest: frozenAt_tokenOf)

lemma frozenAt_seedPoolWithTokens [simp]:
  "frozenAt (after (seedPoolWithTokens call p t0 t1 fee idx)) a = frozenAt idx a"
proof -
  let ?i = "onStore (SeedPool p (emptyPool\<lparr>spToken0 := t0, spToken1 := t1, spFeeTier := fee\<rparr>)) idx"
  show ?thesis
  proof (cases "seeToken call t0 ?i")
    case (Returns j)
    then have "frozenAt j a = frozenAt ?i a" using frozenAt_seeToken[of call t0 ?i a] by simp
    then show ?thesis by (simp add: seedPoolWithTokens_def andThen_def Returns)
  next
    case (Throws j)
    then have "frozenAt j a = frozenAt ?i a" using frozenAt_seeToken[of call t0 ?i a] by simp
    then show ?thesis by (simp add: seedPoolWithTokens_def andThen_def Throws)
  qed
qed

lemma frozenAt_handleInitializeV4 [simp]: "frozenAt (after (handleInitializeV4 call l idx)) a = frozenAt idx a"
proof (cases "seedPoolWithTokens call (leTopics l ! 1) (topicAddr (leTopics l ! 2)) (topicAddr (leTopics l ! 3))
     (bigInt64 (decodeUint256 (leData l) 0)) idx")
  case (Returns j)
  then have "frozenAt j a = frozenAt idx a"
    by (metis after.simps(1) frozenAt_seedPoolWithTokens)
  moreover have "pairSide call addr i = Some (s, i') \<Longrightarrow> frozenAt i' a = frozenAt i a" for addr i s i'
    by (rule frozenAt_pairSide)
  ultimately show ?thesis using Returns
    by (auto simp: handleInitializeV4_def Let_def andThen_def split: option.splits)
next
  case (Throws j)
  then have "frozenAt j a = frozenAt idx a"
    by (metis after.simps(2) frozenAt_seedPoolWithTokens)
  then show ?thesis using Throws by (auto simp: handleInitializeV4_def Let_def andThen_def)
qed

text \<open>The snapshot an \<open>AddressFrozen\<close> log leaves.\<close>

definition frozenVal :: "logEntry \<Rightarrow> val" where
  "frozenVal l = VMap
     [(''id'', VStr (snapshotId l)), (''token'', VStr (leAddress l)), (''user'', VStr (topicAddr (leTopics l ! 1))),
      (''frozen'', VBool (topicBool (leTopics l ! 2))),
      (''updated'', VInt (uint (fst (parseHexUint64 (leBlockNumber l)))))]"

lemma sig_frozen_other:
  "SigSwapV2 \<noteq> SigAddressFrozen" "SigSwapV3 \<noteq> SigAddressFrozen" "SigPairCreated \<noteq> SigAddressFrozen"
  "SigPoolCreated \<noteq> SigAddressFrozen" "SigTransfer \<noteq> SigAddressFrozen" "SigInitializeV4 \<noteq> SigAddressFrozen"
  "SigSwapV4 \<noteq> SigAddressFrozen" "SigDEXFill \<noteq> SigAddressFrozen"
  by (simp_all add: sig_defs)

lemma processLog_frozen:
  "frozenAt (after (processLog call l idx)) a = (if freezes a l then frozenVal l else frozenAt idx a)"
proof (cases "leTopics l")
  case Nil
  then show ?thesis by (simp add: processLog_def freezes_def)
next
  case (Cons t ts)
  have sec: "frozenAt (onStore (securitiesLog t l n tx i) idx) a =
      (if freezes a l then VMap [(''id'', VStr a), (''token'', VStr (leAddress l)),
         (''user'', VStr (topicAddr (leTopics l ! 1))), (''frozen'', VBool (topicBool (leTopics l ! 2))),
         (''updated'', VInt (uint n))] else frozenAt idx a)" for n tx i
    by (simp add: frozenAt_def securitiesLog_frozen addressFrozen_frozen freezes_def Cons)
  have v2: "frozenAt (handleSwapV2 l n tx i idx) a = frozenAt idx a"
    and v3: "frozenAt (handleSwapV3 l n tx i idx) a = frozenAt idx a"
    and v4: "frozenAt (handleSwapV4 l n tx i idx) a = frozenAt idx a"
    and fill: "frozenAt (handleDEXFill l n tx i idx) a = frozenAt idx a" for n tx i
    by (simp_all add: handleSwapV2_def handleSwapV3_def handleSwapV4_def handleDEXFill_def Let_def)
  have pc: "frozenAt (after (handlePairCreated call l idx)) a = frozenAt idx a"
    and qc: "frozenAt (after (handlePoolCreated call l idx)) a = frozenAt idx a"
    and tr: "frozenAt (after (handleTransfer call l idx)) a = frozenAt idx a"
    by (simp_all add: handlePairCreated_def handlePoolCreated_def handleTransfer_def Let_def)
  have other: "t \<noteq> SigAddressFrozen \<Longrightarrow> \<not> freezes a l" by (simp add: freezes_def Cons)
  have frozenVal_id: "freezes a l \<Longrightarrow> frozenVal l = VMap [(''id'', VStr a), (''token'', VStr (leAddress l)),
         (''user'', VStr (topicAddr (leTopics l ! 1))), (''frozen'', VBool (topicBool (leTopics l ! 2))),
         (''updated'', VInt (uint (fst (parseHexUint64 (leBlockNumber l)))))]"
    by (simp add: frozenVal_def freezes_def)
  show ?thesis
    unfolding processLog_def Let_def Cons list.case
    by (simp add: v2 v3 v4 fill pc qc tr sec other sig_frozen_other frozenVal_id)
qed


section \<open>A run of two logs\<close>

definition exFactory :: string where
  "exFactory = ''0xf000000000000000000000000000000000000000''"

definition exTopic :: "nat \<Rightarrow> string" where
  "exTopic n = ''0x'' @ encodeWord n"

definition exIndexer :: indexer where
  "exIndexer =
     \<lparr>ixPoolManager = toLower LXSettleAddress, ixFactoryV2 = exFactory, ixFactoryV3 = '''', ixNative = '''',
      ixStartBlock = 0, ixStore = NewStore, ixLastBlock = 0, ixLowHeadStreak = 0, ixGenesisHash = '''',
      ixLatestBlock = 0, ixIndexedEvents = 0, ixTokenCache = []\<rparr>"

definition exCalls :: ethCalls where
  "exCalls = (\<lambda>_ _. None)"

definition exPair :: logEntry where
  "exPair =
     \<lparr>leAddress = ''0xF000000000000000000000000000000000000000'', leTopics = [SigPairCreated, exTopic 1, exTopic 2],
      leData = exTopic 7, leBlockNumber = ''0x5'', leTxHash = ''0xaa'', leLogIndex = ''0x0'', leTxIndex = '''',
      leTime = 50\<rparr>"

definition exSwap :: logEntry where
  "exSwap =
     \<lparr>leAddress = ''0x0000000000000000000000000000000000000007'', leTopics = [SigSwapV2], leData = '''',
      leBlockNumber = ''0x6'', leTxHash = ''0xbb'', leLogIndex = ''0x0'', leTxIndex = '''', leTime = 60\<rparr>"

definition exFreeze :: logEntry where
  "exFreeze =
     \<lparr>leAddress = ''0xt'', leTopics = [SigAddressFrozen, exTopic 3, exTopic 1, exTopic 4], leData = '''',
      leBlockNumber = ''0x6'', leTxHash = ''0xcc'', leLogIndex = ''0x1'', leTxIndex = '''', leTime = 60\<rparr>"

definition exStep :: "logEntry \<Rightarrow> indexer \<Rightarrow> indexer" where
  "exStep l idx = after (processLog exCalls l idx)"

lemma indexes_two: "indexes idx [l, k] (exStep k (exStep l idx))"
  unfolding exStep_def
  using indexes.log[OF indexes.log[OF indexes.start[of idx], of l exCalls], of k exCalls] by simp

definition exTrade :: seedSwap where
  "exTrade =
     \<lparr>swTimestamp = 60, swBlock = 6, swPool = leAddress exSwap, swAmount0 = ''0'', swAmount1 = ''0'',
      swAmountUSD = ''0'', swSender = ''''\<rparr>"



end
