(* ===== verification/Cursor.thy ===== *)
theory Cursor
  imports Handlers
begin

text \<open>
  The poll loop, src/indexer/indexer.go (\<open>NewWithConfig\<close>, \<open>ensureGenesisHash\<close>,
  \<open>maybeResetForRegenesis\<close>, \<open>poll\<close>, \<open>pollGuarded\<close>) and src/indexer/blocks.go (\<open>blockTimes\<close>,
  \<open>stampTimes\<close>).

  What the node answers during one poll is the record \<open>chainView\<close>: each field is the answer to one
  kind of request, None where the request fails.  A poll makes each request at most once, apart from
  the genesis header, which has a field per place that asks for it.  A handler asks a token contract
  at most once per process.  Block numbers are 64-bit words and their arithmetic wraps.

  A poll ends \<open>Done\<close>, with an error, or with a panic that \<open>pollGuarded\<close> turns into an error; the next
  poll starts from the state it left.
\<close>

definition reorgDepth :: "64 word" where "reorgDepth = 128"
definition regenesisConfirmations :: int where "regenesisConfirmations = 3"
definition blockTimeBatch :: nat where "blockTimeBatch = 100"

section \<open>Construction\<close>

record indexConfig =
  cfgPoolManager :: string
  cfgFactoryV2 :: string
  cfgFactoryV3 :: string
  cfgNative :: string
  cfgStartBlock :: "64 word"

text \<open>\<open>DropDerived\<close> (src/storage/store_sqlite.go) deletes the six row tables and the cursor.\<close>

definition DropDerived :: "store \<Rightarrow> store" where
  "DropDerived s =
     s\<lparr>dbFactories := [], dbBundles := [], dbTokens := [], dbPools := [], dbSwaps := [], dbGeneric := [],
       dbLastBlock := 0\<rparr>"

definition fingerprint :: "indexConfig \<Rightarrow> string" where
  "fingerprint cfg =
     toLower (joinWith ''|'' [toLower (cfgFactoryV2 cfg), toLower (cfgFactoryV3 cfg),
       toLower (if cfgPoolManager cfg = '''' then LXSettleAddress else cfgPoolManager cfg),
       toLower (cfgNative cfg)])"

text \<open>The second argument is the source the store records, the second result the one it then records.\<close>

definition NewWithConfig :: "indexConfig \<Rightarrow> string \<Rightarrow> store \<Rightarrow> indexer \<times> string" where
  "NewWithConfig cfg was s0 =
     (let fp = fingerprint cfg;
          s = (if was = '''' then s0 else if was \<noteq> fp then DropDerived s0 else s0);
          last0 = GetLastBlock s
      in (\<lparr>ixPoolManager = toLower (if cfgPoolManager cfg = '''' then LXSettleAddress else cfgPoolManager cfg),
           ixFactoryV2 = toLower (cfgFactoryV2 cfg), ixFactoryV3 = toLower (cfgFactoryV3 cfg),
           ixNative = toLower (cfgNative cfg), ixStartBlock = cfgStartBlock cfg, ixStore = s,
           ixLastBlock = (if last0 < cfgStartBlock cfg then cfgStartBlock cfg else last0),
           ixLowHeadStreak = 0, ixGenesisHash = '''', ixLatestBlock = 0, ixIndexedEvents = 0,
           ixTokenCache = []\<rparr>, fp))"

section \<open>Re-genesis\<close>

definition fetchGenesisHash :: "string option \<Rightarrow> string option" where
  "fetchGenesisHash reply =
     (case reply of None \<Rightarrow> None | Some h \<Rightarrow> if h = '''' then None else Some (toLower h))"

definition ensureGenesisHash :: "string option \<Rightarrow> indexer \<Rightarrow> indexer" where
  "ensureGenesisHash reply idx =
     (if ixGenesisHash idx \<noteq> '''' then idx
      else case fetchGenesisHash reply of None \<Rightarrow> idx | Some h \<Rightarrow> idx\<lparr>ixGenesisHash := h\<rparr>)"

definition farBelow :: "64 word \<Rightarrow> indexer \<Rightarrow> bool" where
  "farBelow latest idx \<longleftrightarrow>
     ixLastBlock idx > ixStartBlock idx + reorgDepth \<and> latest + reorgDepth < ixLastBlock idx"

definition maybeResetForRegenesis :: "string option \<Rightarrow> 64 word \<Rightarrow> indexer \<Rightarrow> indexer" where
  "maybeResetForRegenesis reply latest idx =
     (if \<not> farBelow latest idx then idx\<lparr>ixLowHeadStreak := 0\<rparr>
      else
        (let idx1 = idx\<lparr>ixLowHeadStreak := ixLowHeadStreak idx + 1\<rparr> in
         if ixLowHeadStreak idx1 < regenesisConfirmations then idx1
         else case fetchGenesisHash reply of
           None \<Rightarrow> idx1
         | Some current \<Rightarrow>
             if ixGenesisHash idx1 = '''' then idx1\<lparr>ixGenesisHash := current\<rparr>
             else if current = ixGenesisHash idx1 then idx1\<lparr>ixLowHeadStreak := 0\<rparr>
             else idx1\<lparr>ixLastBlock := ixStartBlock idx1, ixStore := SetLastBlock (ixStartBlock idx1) (ixStore idx1),
                       ixGenesisHash := current, ixLowHeadStreak := 0\<rparr>))"

section \<open>Block times\<close>

text \<open>One batch answer: the request id and what stood there; None for an error or null, \<open>Some None\<close> for
  a header without a readable timestamp.  \<open>rpcBatch\<close> keeps the last usable answer of an id.\<close>

type_synonym batchAnswer = "(int \<times> string option option) list"

definition rpcBatch :: "batchAnswer \<Rightarrow> int \<Rightarrow> string option option" where
  "rpcBatch out = foldl (\<lambda>res (i, r). case r of Some raw \<Rightarrow> res(i := Some raw) | None \<Rightarrow> res) (\<lambda>_. None) out"

definition headerTime :: "string \<Rightarrow> int option" where
  "headerTime t =
     (if t = '''' then None
      else case parseHexUint64 t of (ts, ok) \<Rightarrow> if ok then Some (sint ts) else None)"

fun timesOf :: "(int \<Rightarrow> string option option) \<Rightarrow> int \<Rightarrow> 64 word list \<Rightarrow> (64 word \<Rightarrow> int option) \<Rightarrow> 64 word \<Rightarrow> int option" where
  "timesOf res i [] out = out"
| "timesOf res i (b # bs) out =
     timesOf res (i + 1) bs
       (case Option.bind (Option.bind (res i) (\<lambda>t. t)) headerTime of Some ts \<Rightarrow> out(b := Some ts) | None \<Rightarrow> out)"

function blockTimes ::
  "(64 word list \<Rightarrow> batchAnswer option) \<Rightarrow> 64 word list \<Rightarrow> (64 word \<Rightarrow> int option) \<Rightarrow> 64 word \<Rightarrow> int option" where
  "blockTimes headers blocks out =
     (if blocks = [] then out
      else
        (let batch = take blockTimeBatch blocks in
         blockTimes headers (drop blockTimeBatch blocks)
           (case headers batch of None \<Rightarrow> out | Some answers \<Rightarrow> timesOf (rpcBatch answers) 1 batch out)))"
  by pat_completeness auto
termination
  by (relation "measure (\<lambda>(_, blocks, _). length blocks)") (auto simp: blockTimeBatch_def)

declare blockTimes.simps [simp del]

definition placed :: "logEntry \<Rightarrow> 64 word option" where
  "placed l = (case parseHexUint64 (leBlockNumber l) of (b, ok) \<Rightarrow> if ok then Some b else None)"

definition blocksOf :: "logEntry list \<Rightarrow> 64 word list" where
  "blocksOf logs =
     foldl (\<lambda>bs l. case placed l of None \<Rightarrow> bs | Some b \<Rightarrow> if b \<in> set bs then bs else bs @ [b]) [] logs"

fun stampLogs :: "(64 word \<Rightarrow> int option) \<Rightarrow> logEntry list \<Rightarrow> logEntry list option" where
  "stampLogs clock [] = Some []"
| "stampLogs clock (l # ls) =
     (case placed l of
        None \<Rightarrow> map_option ((#) l) (stampLogs clock ls)
      | Some b \<Rightarrow>
          (case clock b of
             None \<Rightarrow> None
           | Some ts \<Rightarrow> map_option ((#) (l\<lparr>leTime := ts\<rparr>)) (stampLogs clock ls)))"

definition stampTimes :: "(64 word list \<Rightarrow> batchAnswer option) \<Rightarrow> logEntry list \<Rightarrow> logEntry list option" where
  "stampTimes headers logs =
     (let blocks = blocksOf logs in
      if blocks = [] then Some logs else stampLogs (blockTimes headers blocks (\<lambda>_. None)) logs)"

section \<open>A poll\<close>

record chainView =
  cvHead :: "string option"
  cvBaseline :: "string option"
  cvProbe :: "string option"
  cvLogs :: "64 word \<Rightarrow> 64 word \<Rightarrow> logEntry list option"
  cvHeaders :: "64 word list \<Rightarrow> batchAnswer option"
  cvCalls :: ethCalls

datatype pollEnd = Done | Failed | Panicked

definition head :: "chainView \<Rightarrow> 64 word option" where
  "head cv =
     (case cvHead cv of
        None \<Rightarrow> None
      | Some t \<Rightarrow> (case parseHexUint64 t of (latest, ok) \<Rightarrow> if ok then Some latest else None))"

text \<open>The loop over the logs, and what follows it.  A decoded log carries no time yet.\<close>

fun processLogs :: "ethCalls \<Rightarrow> logEntry list \<Rightarrow> indexer \<Rightarrow> pollEnd \<times> indexer" where
  "processLogs call [] idx = (Done, idx)"
| "processLogs call (l # ls) idx =
     (case processLog call l idx of
        Throws idx' \<Rightarrow> (Panicked, idx')
      | Returns idx' \<Rightarrow> processLogs call ls (idx'\<lparr>ixIndexedEvents := ixIndexedEvents idx' + 1\<rparr>))"

definition advance :: "64 word \<Rightarrow> indexer \<Rightarrow> indexer" where
  "advance toBlock idx =
     idx\<lparr>ixLastBlock := toBlock, ixLatestBlock := toBlock, ixStore := SetLastBlock toBlock (ixStore idx)\<rparr>"

definition pollTo :: "64 word \<Rightarrow> 64 word \<Rightarrow> 64 word" where
  "pollTo fromBlock latest = (if latest - fromBlock > 2000 then fromBlock + 2000 else latest)"

definition scan :: "chainView \<Rightarrow> 64 word \<Rightarrow> 64 word \<Rightarrow> indexer \<Rightarrow> pollEnd \<times> indexer" where
  "scan cv fromBlock toBlock idx =
     (case cvLogs cv fromBlock toBlock of
        None \<Rightarrow> (Failed, idx)
      | Some raw \<Rightarrow>
          (case stampTimes (cvHeaders cv) (map (leTime_update (\<lambda>_. 0)) raw) of
             None \<Rightarrow> (Failed, idx)
           | Some logs \<Rightarrow>
               (case processLogs (cvCalls cv) logs idx of
                  (Done, idx') \<Rightarrow> (Done, advance toBlock idx')
                | r \<Rightarrow> r)))"

definition poll :: "chainView \<Rightarrow> indexer \<Rightarrow> pollEnd \<times> indexer" where
  "poll cv idx =
     (case head cv of
        None \<Rightarrow> (Failed, idx)
      | Some latest \<Rightarrow>
          (let idx1 = maybeResetForRegenesis (cvProbe cv) latest (ensureGenesisHash (cvBaseline cv) idx) in
           if latest \<le> ixLastBlock idx1 then (Done, idx1)
           else (let fromBlock = ixLastBlock idx1 + 1 in scan cv fromBlock (pollTo fromBlock latest) idx1)))"

text \<open>\<open>pollGuarded\<close> turns a panic into an error, so the loop sees only whether the poll succeeded.\<close>

definition pollGuarded :: "chainView \<Rightarrow> indexer \<Rightarrow> bool \<times> indexer" where
  "pollGuarded cv idx = (case poll cv idx of (e, idx') \<Rightarrow> (e = Done, idx'))"

section \<open>Stamping is all or nothing\<close>

definition stampedBy :: "(64 word \<Rightarrow> int option) \<Rightarrow> logEntry \<Rightarrow> logEntry \<Rightarrow> bool" where
  "stampedBy clock l l' \<longleftrightarrow>
     (case placed l of
        None \<Rightarrow> l' = l
      | Some b \<Rightarrow> (\<exists>ts. clock b = Some ts \<and> l' = l\<lparr>leTime := ts\<rparr>))"

lemma stampLogs_Some: "stampLogs clock ls = Some out \<Longrightarrow> list_all2 (stampedBy clock) ls out"
  by (induction clock ls arbitrary: out rule: stampLogs.induct) (auto simp: stampedBy_def split: option.splits)

lemma stampLogs_None:
  "stampLogs clock ls = None \<longleftrightarrow> (\<exists>l \<in> set ls. \<exists>b. placed l = Some b \<and> clock b = None)"
  by (induction clock ls rule: stampLogs.induct) (auto split: option.splits)

section \<open>What a poll does to the cursor\<close>

lemma processLogs_config:
  "processLogs call ls idx = (e, idx') \<Longrightarrow>
   ixLastBlock idx' = ixLastBlock idx \<and> ixStartBlock idx' = ixStartBlock idx \<and>
   ixGenesisHash idx' = ixGenesisHash idx \<and> ixLowHeadStreak idx' = ixLowHeadStreak idx \<and>
   dbLastBlock (ixStore idx') = dbLastBlock (ixStore idx)"
proof (induction call ls idx rule: processLogs.induct)
  case (2 call l ls idx)
  have c: "sameConfig idx (after (processLog call l idx))" by (rule processLog_config)
  have d: "dbLastBlock (ixStore (after (processLog call l idx))) = dbLastBlock (ixStore idx)"
    by (rule lastBlock_after)
  show ?case
  proof (cases "processLog call l idx")
    case (Returns j)
    then show ?thesis using 2 sameConfig_fields[OF c] d by auto
  next
    case (Throws j)
    then show ?thesis using 2 sameConfig_fields[OF c] d by auto
  qed
qed simp

text \<open>The cursor of the state and the one in the store, with the fields the loop decides on.\<close>

definition cursorOf :: "indexer \<Rightarrow> 64 word \<times> 64 word \<times> 64 word" where
  "cursorOf idx = (ixLastBlock idx, dbLastBlock (ixStore idx), ixStartBlock idx)"

lemma scan_cases:
  assumes "scan cv a b idx = (e, idx')"
  shows "ixGenesisHash idx' = ixGenesisHash idx \<and> ixLowHeadStreak idx' = ixLowHeadStreak idx \<and>
    (e = Done \<longrightarrow> cursorOf idx' = (b, b, ixStartBlock idx)) \<and> (e \<noteq> Done \<longrightarrow> cursorOf idx' = cursorOf idx)"
  using assms
  by (auto simp: scan_def cursorOf_def advance_def SetLastBlock_def dest!: processLogs_config
      split: option.splits prod.splits pollEnd.splits)

lemma ensureGenesisHash_cursor [simp]:
  "cursorOf (ensureGenesisHash r idx) = cursorOf idx"
  "ixLowHeadStreak (ensureGenesisHash r idx) = ixLowHeadStreak idx"
  "farBelow h (ensureGenesisHash r idx) = farBelow h idx"
  by (simp_all add: ensureGenesisHash_def cursorOf_def farBelow_def split: option.splits)

text \<open>A rewind: the third consecutive low head, and a genesis hash that differs from the baseline.\<close>

definition rewinds :: "string option \<Rightarrow> 64 word \<Rightarrow> indexer \<Rightarrow> bool" where
  "rewinds reply latest idx \<longleftrightarrow>
     farBelow latest idx \<and> ixLowHeadStreak idx + 1 \<ge> regenesisConfirmations \<and> ixGenesisHash idx \<noteq> '''' \<and>
     (\<exists>current. fetchGenesisHash reply = Some current \<and> current \<noteq> ixGenesisHash idx)"

lemma maybeReset_cursor:
  "cursorOf (maybeResetForRegenesis r latest idx) =
    (if rewinds r latest idx then (ixStartBlock idx, ixStartBlock idx, ixStartBlock idx) else cursorOf idx)"
  by (auto simp: maybeResetForRegenesis_def rewinds_def cursorOf_def SetLastBlock_def Let_def split: option.splits)

lemma maybeReset_streak:
  "ixLowHeadStreak (maybeResetForRegenesis r latest idx) = 0 \<or>
   (farBelow latest idx \<and> \<not> rewinds r latest idx \<and>
    ixLowHeadStreak (maybeResetForRegenesis r latest idx) = ixLowHeadStreak idx + 1)"
  by (auto simp: maybeResetForRegenesis_def rewinds_def Let_def split: option.splits)

lemma pollTo_bounds:
  assumes "c < latest"
  shows "c < pollTo (c + 1) latest \<and> pollTo (c + 1) latest \<le> latest \<and>
    uint (pollTo (c + 1) latest) \<le> uint c + 2001"
proof -
  have l: "uint c < uint latest" using assms by (simp add: word_less_def)
  have b: "uint latest < 2 ^ 64" using uint_lt2p[of latest] by simp
  have s: "uint (c + 1) = uint c + 1"
    using l b by (subst uint_plus_if') (simp, linarith?)
  have d: "uint (latest - (c + 1)) = uint latest - uint c - 1"
    using l s by (subst uint_sub_if') simp
  show ?thesis
  proof (cases "latest - (c + 1) > 2000")
    case True
    then have u: "2000 < uint latest - uint c - 1" using d by (simp add: word_less_def)
    then have "uint (c + 1 + 2000) = uint c + 2001"
      using s b by (subst uint_plus_if') simp
    then show ?thesis using True u by (simp add: pollTo_def word_less_def word_le_def)
  next
    case False
    then have "uint latest - uint c - 1 \<le> 2000" using d by (simp add: word_less_def)
    then show ?thesis using False assms by (simp add: pollTo_def)
  qed
qed

text \<open>The states of the loop: an indexer built over a store, then one poll per view.\<close>

inductive reached :: "indexConfig \<Rightarrow> string \<Rightarrow> store \<Rightarrow> chainView list \<Rightarrow> indexer \<Rightarrow> bool"
  for cfg was s where
  built: "reached cfg was s [] (fst (NewWithConfig cfg was s))"
| polled: "reached cfg was s cvs idx \<Longrightarrow> reached cfg was s (cvs @ [cv]) (snd (poll cv idx))"

lemma poll_cases:
  obtains (headless) "head cv = None" "snd (poll cv idx) = idx"
  | (rewound) h where "head cv = Some h" "rewinds (cvProbe cv) h (ensureGenesisHash (cvBaseline cv) idx)"
      "ixLowHeadStreak (snd (poll cv idx)) = 0"
      "cursorOf (snd (poll cv idx)) = (ixStartBlock idx, ixStartBlock idx, ixStartBlock idx)
       \<or> (\<exists>b. ixStartBlock idx < b \<and> cursorOf (snd (poll cv idx)) = (b, b, ixStartBlock idx))"
  | (kept) h where "head cv = Some h" "\<not> rewinds (cvProbe cv) h (ensureGenesisHash (cvBaseline cv) idx)"
      "ixLowHeadStreak (snd (poll cv idx)) = 0
       \<or> farBelow h idx \<and> ixLowHeadStreak (snd (poll cv idx)) = ixLowHeadStreak idx + 1"
      "cursorOf (snd (poll cv idx)) = cursorOf idx
       \<or> (\<exists>b. ixLastBlock idx < b \<and> cursorOf (snd (poll cv idx)) = (b, b, ixStartBlock idx))"
proof (cases "head cv")
  case None
  then show ?thesis using headless by (simp add: poll_def)
next
  case (Some h)
  let ?g = "ensureGenesisHash (cvBaseline cv) idx"
  let ?i = "maybeResetForRegenesis (cvProbe cv) h ?g"
  have p: "snd (poll cv idx) = ?i \<or>
      (ixLastBlock ?i < h \<and> (\<exists>e. scan cv (ixLastBlock ?i + 1) (pollTo (ixLastBlock ?i + 1) h) ?i = (e, snd (poll cv idx))))"
    by (auto simp: poll_def Some Let_def intro: prod.exhaust_sel)
  have sc: "ixLowHeadStreak (snd (poll cv idx)) = ixLowHeadStreak ?i \<and>
      (cursorOf (snd (poll cv idx)) = cursorOf ?i \<or>
       (\<exists>b. ixLastBlock ?i < b \<and> cursorOf (snd (poll cv idx)) = (b, b, ixStartBlock ?i)))"
    using p pollTo_bounds[of "ixLastBlock ?i" h] by (auto dest: scan_cases)
  have cg: "cursorOf ?g = cursorOf idx" by simp
  show ?thesis
  proof (cases "rewinds (cvProbe cv) h ?g")
    case True
    have c: "cursorOf ?i = (ixStartBlock idx, ixStartBlock idx, ixStartBlock idx)"
      using maybeReset_cursor[of "cvProbe cv" h ?g] True cg by (simp add: cursorOf_def)
    have "ixLowHeadStreak ?i = 0" using maybeReset_streak[of "cvProbe cv" h ?g] True by blast
    then show ?thesis using rewound[OF Some True] sc c by (simp add: cursorOf_def)
  next
    case False
    have c: "cursorOf ?i = cursorOf idx"
      using maybeReset_cursor[of "cvProbe cv" h ?g] False cg by simp
    have "ixLowHeadStreak ?i = 0 \<or> farBelow h idx \<and> ixLowHeadStreak ?i = ixLowHeadStreak idx + 1"
      using maybeReset_streak[of "cvProbe cv" h ?g] by auto
    then show ?thesis using kept[OF Some False] sc c by (simp add: cursorOf_def)
  qed
qed

text \<open>The cursor never falls below the start block, and the one on disk never runs ahead of it.\<close>

definition cursorSound :: "indexer \<Rightarrow> bool" where
  "cursorSound idx \<longleftrightarrow> ixStartBlock idx \<le> ixLastBlock idx \<and> dbLastBlock (ixStore idx) \<le> ixLastBlock idx"

lemma poll_sound: "cursorSound idx \<Longrightarrow> cursorSound (snd (poll cv idx))"
  by (rule poll_cases[of cv idx]) (auto simp: cursorSound_def cursorOf_def)

text \<open>C9: In every state the loop can reach, the cursor is at or above the start block and the cursor on disk
is at or below it, so a restart re-reads blocks and never skips one.\<close>

theorem cursor_never_behind_disk: "reached cfg was s cvs idx \<Longrightarrow> cursorSound idx"
proof (induction rule: reached.induct)
  case built
  show ?case by (auto simp: cursorSound_def NewWithConfig_def GetLastBlock_def Let_def)
next
  case (polled cvs idx cv)
  then show ?case by (simp add: poll_sound)
qed

text \<open>The streak counts polls that did see a head far below the cursor.\<close>

definition answered :: "chainView list \<Rightarrow> chainView list" where
  "answered cvs = filter (\<lambda>cv. head cv \<noteq> None) cvs"

definition lowFor :: "indexer \<Rightarrow> chainView \<Rightarrow> bool" where
  "lowFor idx cv \<longleftrightarrow> (\<exists>h. head cv = Some h \<and> h + reorgDepth < ixLastBlock idx)"

definition streakSound :: "chainView list \<Rightarrow> indexer \<Rightarrow> bool" where
  "streakSound cvs idx \<longleftrightarrow> 0 \<le> ixLowHeadStreak idx \<and> nat (ixLowHeadStreak idx) \<le> length (answered cvs) \<and>
     (\<forall>cv \<in> set (drop (length (answered cvs) - nat (ixLowHeadStreak idx)) (answered cvs)). lowFor idx cv)"

lemma streakSound_zero: "ixLowHeadStreak idx = 0 \<Longrightarrow> streakSound cvs idx"
  by (simp add: streakSound_def)

lemma streakSound_step:
  assumes "streakSound cvs idx" "head cv = Some h" "farBelow h idx"
    "ixLowHeadStreak idx' = ixLowHeadStreak idx + 1" "ixLastBlock idx \<le> ixLastBlock idx'"
  shows "streakSound (cvs @ [cv]) idx'"
proof -
  let ?n = "nat (ixLowHeadStreak idx)" and ?a = "answered cvs"
  have k: "nat (ixLowHeadStreak idx') = Suc ?n" "?n \<le> length ?a"
    using assms(1,4) by (auto simp: streakSound_def)
  have a: "answered (cvs @ [cv]) = ?a @ [cv]" using assms(2) by (simp add: answered_def)
  have d: "drop (length (?a @ [cv]) - Suc ?n) (?a @ [cv]) = drop (length ?a - ?n) ?a @ [cv]" by simp
  have "lowFor idx cv" using assms(2,3) by (auto simp: lowFor_def farBelow_def)
  moreover have "lowFor idx v \<Longrightarrow> lowFor idx' v" for v
    using assms(5) by (auto simp: lowFor_def intro: less_le_trans)
  ultimately have "\<forall>v \<in> set (drop (length ?a - ?n) ?a @ [cv]). lowFor idx' v"
    using assms(1) by (auto simp: streakSound_def)
  then show ?thesis using assms(1,4) k a d by (simp add: streakSound_def)
qed

lemma reached_streak: "reached cfg was s cvs idx \<Longrightarrow> streakSound cvs idx"
proof (induction rule: reached.induct)
  case built
  show ?case by (rule streakSound_zero) (simp add: NewWithConfig_def Let_def)
next
  case (polled cvs idx cv)
  show ?case
  proof (rule poll_cases[of cv idx])
    assume "head cv = None" "snd (poll cv idx) = idx"
    then show ?thesis using polled.IH by (simp add: streakSound_def answered_def)
  next
    fix h assume "ixLowHeadStreak (snd (poll cv idx)) = 0"
    then show ?thesis by (rule streakSound_zero)
  next
    fix h assume h: "head cv = Some h"
      and st: "ixLowHeadStreak (snd (poll cv idx)) = 0
        \<or> farBelow h idx \<and> ixLowHeadStreak (snd (poll cv idx)) = ixLowHeadStreak idx + 1"
      and cu: "cursorOf (snd (poll cv idx)) = cursorOf idx
        \<or> (\<exists>b. ixLastBlock idx < b \<and> cursorOf (snd (poll cv idx)) = (b, b, ixStartBlock idx))"
    have "ixLastBlock idx \<le> ixLastBlock (snd (poll cv idx))" using cu by (auto simp: cursorOf_def)
    then show ?thesis using st streakSound_zero streakSound_step[OF polled.IH h] by blast
  qed
qed

text \<open>A poll moves the cursor back only on the third consecutive low head and a changed genesis hash.\<close>

text \<open>C2: The cursor moves back only on a re-genesis: in any state the loop can reach, a poll that lowers the
cursor saw a head more than 128 blocks below it, so did the last two polls before it that saw a
head at all, and the genesis hash it then read differs from the baseline.\<close>

theorem rewind_needs_three_low_heads:
  assumes "reached cfg was s cvs idx" "ixLastBlock (snd (poll cv idx)) < ixLastBlock idx"
  shows "\<exists>old. old = drop (length (answered cvs) - 2) (answered cvs) \<and> length old = 2 \<and>
    (\<forall>v \<in> set (old @ [cv]). lowFor idx v) \<and>
    (\<exists>g. fetchGenesisHash (cvProbe cv) = Some g \<and>
       g \<noteq> ixGenesisHash (ensureGenesisHash (cvBaseline cv) idx))"
proof -
  obtain h where h: "head cv = Some h" "rewinds (cvProbe cv) h (ensureGenesisHash (cvBaseline cv) idx)"
    by (rule poll_cases[of cv idx]) (use assms(2) in \<open>auto simp: cursorOf_def\<close>)
  have st: "2 \<le> ixLowHeadStreak idx" "farBelow h idx"
    using h(2) by (auto simp: rewinds_def regenesisConfirmations_def)
  let ?a = "answered cvs"
  have s: "nat (ixLowHeadStreak idx) \<le> length ?a"
      "\<forall>v \<in> set (drop (length ?a - nat (ixLowHeadStreak idx)) ?a). lowFor idx v"
    using reached_streak[OF assms(1)] by (auto simp: streakSound_def)
  have "2 \<le> nat (ixLowHeadStreak idx)" using st(1) by simp
  then have "set (drop (length ?a - 2) ?a) \<subseteq> set (drop (length ?a - nat (ixLowHeadStreak idx)) ?a)"
    by (intro set_drop_subset_set_drop) simp
  then have old: "\<forall>v \<in> set (drop (length ?a - 2) ?a). lowFor idx v" using s(2) by blast
  have "lowFor idx cv" using st(2) h(1) by (auto simp: lowFor_def farBelow_def)
  moreover have "length (drop (length ?a - 2) ?a) = 2" using s(1) \<open>2 \<le> nat _\<close> by simp
  ultimately show ?thesis using old h(2) by (auto simp: rewinds_def)
qed

text \<open>While every genesis probe answers the same hash, no sequence of heads moves the cursor back.\<close>

definition sameChain :: "string \<Rightarrow> chainView \<Rightarrow> bool" where
  "sameChain g cv \<longleftrightarrow> fetchGenesisHash (cvBaseline cv) \<in> {None, Some g} \<and> fetchGenesisHash (cvProbe cv) \<in> {None, Some g}"

lemma fetchGenesisHash_nonempty: "fetchGenesisHash r = Some g \<Longrightarrow> g \<noteq> ''''"
  by (auto simp: fetchGenesisHash_def toLower_def split: option.splits if_splits)

lemma ensure_genesis_same:
  "sameChain g cv \<Longrightarrow> ixGenesisHash idx \<in> {'''', g} \<Longrightarrow>
   ixGenesisHash (ensureGenesisHash (cvBaseline cv) idx) \<in> {'''', g}"
  by (auto simp: ensureGenesisHash_def sameChain_def split: option.splits)

lemma maybeReset_genesis_same:
  "sameChain g cv \<Longrightarrow> ixGenesisHash idx \<in> {'''', g} \<Longrightarrow>
   ixGenesisHash (maybeResetForRegenesis (cvProbe cv) h idx) \<in> {'''', g}"
  by (auto simp: maybeResetForRegenesis_def sameChain_def Let_def split: option.splits)

lemma poll_genesis_same:
  assumes "sameChain g cv" "ixGenesisHash idx \<in> {'''', g}"
  shows "ixGenesisHash (snd (poll cv idx)) \<in> {'''', g}"
proof (cases "head cv")
  case None
  then show ?thesis using assms by (simp add: poll_def)
next
  case (Some h)
  let ?i = "maybeResetForRegenesis (cvProbe cv) h (ensureGenesisHash (cvBaseline cv) idx)"
  have i: "ixGenesisHash ?i \<in> {'''', g}"
    using assms by (intro maybeReset_genesis_same ensure_genesis_same)
  have "ixGenesisHash (snd (poll cv idx)) = ixGenesisHash ?i"
  proof (cases "h \<le> ixLastBlock ?i")
    case True
    then show ?thesis by (simp add: poll_def Some Let_def)
  next
    case False
    obtain e j where r: "scan cv (ixLastBlock ?i + 1) (pollTo (ixLastBlock ?i + 1) h) ?i = (e, j)"
      by (metis surj_pair)
    have "snd (poll cv idx) = j" using False r by (simp add: poll_def Some Let_def)
    then show ?thesis using scan_cases[OF r] by simp
  qed
  then show ?thesis using i by simp
qed

lemma reached_genesis_same:
  "reached cfg was s cvs idx \<Longrightarrow> list_all (sameChain g) cvs \<Longrightarrow> ixGenesisHash idx \<in> {'''', g}"
proof (induction rule: reached.induct)
  case built
  show ?case by (simp add: NewWithConfig_def Let_def)
next
  case (polled cvs idx cv)
  then show ?case using poll_genesis_same by simp
qed

lemma same_no_rewind:
  assumes "sameChain g cv" "ixGenesisHash idx \<in> {'''', g}"
  shows "\<not> rewinds (cvProbe cv) h (ensureGenesisHash (cvBaseline cv) idx)"
proof
  assume r: "rewinds (cvProbe cv) h (ensureGenesisHash (cvBaseline cv) idx)"
  then have "ixGenesisHash (ensureGenesisHash (cvBaseline cv) idx) = g"
    using ensure_genesis_same[OF assms] by (simp add: rewinds_def)
  then show False using r assms(1) by (auto simp: rewinds_def sameChain_def)
qed

text \<open>While every genesis header the node answers carries the same hash, no sequence of heads, errors or
panics moves the cursor back: a lagging or idle backend never wipes progress.\<close>

theorem same_chain_never_rewinds:
  assumes "reached cfg was s cvs idx" "list_all (sameChain g) (cvs @ [cv])"
  shows "ixLastBlock idx \<le> ixLastBlock (snd (poll cv idx))"
proof -
  have "ixGenesisHash idx \<in> {'''', g}" "sameChain g cv"
    using reached_genesis_same[OF assms(1), of g] assms(2) by simp_all
  then have n: "\<not> rewinds (cvProbe cv) h (ensureGenesisHash (cvBaseline cv) idx)" for h
    by (intro same_no_rewind)
  show ?thesis
  proof (rule poll_cases[of cv idx])
    fix h assume "rewinds (cvProbe cv) h (ensureGenesisHash (cvBaseline cv) idx)"
    then show ?thesis using n by blast
  qed (auto simp: cursorOf_def)
qed

section \<open>Source changes\<close>

lemma SwapsAfter_later: "(i, d) \<in> set (SwapsAfter s ts limit) \<Longrightarrow> ts < swTimestamp d"
  by (auto simp: SwapsAfter_def dest!: in_set_takeD)

lemma NewWithConfig_dropped:
  assumes "was \<noteq> ''''" "was \<noteq> fingerprint cfg"
  shows "snd (NewWithConfig cfg was s) = fingerprint cfg"
    "ixStore (fst (NewWithConfig cfg was s)) = DropDerived s"
    "ixLastBlock (fst (NewWithConfig cfg was s)) = cfgStartBlock cfg"
proof -
  have z: "cfgStartBlock cfg = 0 \<or> 0 < cfgStartBlock cfg" using word_gt_0[of "cfgStartBlock cfg"] by argo
  show "snd (NewWithConfig cfg was s) = fingerprint cfg"
    "ixStore (fst (NewWithConfig cfg was s)) = DropDerived s"
    using assms by (simp_all add: NewWithConfig_def Let_def)
  show "ixLastBlock (fst (NewWithConfig cfg was s)) = cfgStartBlock cfg"
    using assms z by (auto simp add: NewWithConfig_def Let_def DropDerived_def GetLastBlock_def)
qed

text \<open>An indexer built over a store that records another source drops every row and the cursor, and
starts at the configured block; but the mark of the valuation walk survives, so a trade that is read
again with a time at or before the mark is never handed to the walk.\<close>

theorem source_change_keeps_priced_mark:
  assumes "was \<noteq> ''''" "was \<noteq> fingerprint cfg" "NewWithConfig cfg was s = (idx, now)"
  shows "now = fingerprint cfg \<and> dbSwaps (ixStore idx) = [] \<and> dbPools (ixStore idx) = [] \<and>
    dbTokens (ixStore idx) = [] \<and> dbGeneric (ixStore idx) = [] \<and> ixLastBlock idx = cfgStartBlock cfg \<and>
    PricedThrough (ixStore idx) = PricedThrough s \<and>
    (\<forall>s' i d limit. dbPricedThrough s' = dbPricedThrough (ixStore idx) \<longrightarrow>
       (i, d) \<in> set (SwapsAfter s' (PricedThrough s') limit) \<longrightarrow> PricedThrough s < swTimestamp d)"
proof -
  have i: "idx = fst (NewWithConfig cfg was s)" "now = snd (NewWithConfig cfg was s)"
    using assms(3) by simp_all
  have d: "ixStore idx = DropDerived s" using NewWithConfig_dropped(2)[OF assms(1,2)] i by simp
  then have p: "dbPricedThrough (ixStore idx) = dbPricedThrough s" by (simp add: DropDerived_def)
  show ?thesis
    using NewWithConfig_dropped(1,3)[OF assms(1,2)] d i p
    by (auto simp: DropDerived_def PricedThrough_def dest!: SwapsAfter_later)
qed

definition exConfig :: indexConfig where
  "exConfig =
     \<lparr>cfgPoolManager = '''', cfgFactoryV2 = exFactory, cfgFactoryV3 = '''', cfgNative = '''', cfgStartBlock = 0\<rparr>"

theorem source_change_keeps_priced_mark_witness:
  "ixLastBlock (fst (NewWithConfig exConfig ''old'' (SetPricedThrough 9 NewStore))) = 0 \<and>
   PricedThrough (ixStore (fst (NewWithConfig exConfig ''old'' (SetPricedThrough 9 NewStore)))) = 9"
proof -
  let ?r = "NewWithConfig exConfig ''old'' (SetPricedThrough 9 NewStore)"
  have f: "''old'' \<noteq> fingerprint exConfig" by code_simp
  have "?r = (fst ?r, snd ?r)" by simp
  from source_change_keeps_priced_mark[OF _ f this]
  have "ixLastBlock (fst ?r) = cfgStartBlock exConfig \<and> PricedThrough (ixStore (fst ?r)) = PricedThrough (SetPricedThrough 9 NewStore)"
    by simp
  then show ?thesis by (simp add: exConfig_def PricedThrough_def SetPricedThrough_def)
qed

section \<open>Three low heads\<close>

text \<open>A node whose chain was relaunched: its head is block 1 and its genesis hash differs from the
  baseline the indexer took.\<close>

definition exView :: "string \<Rightarrow> string \<Rightarrow> string \<Rightarrow> chainView" where
  "exView h baseline probe =
     \<lparr>cvHead = Some h, cvBaseline = Some baseline, cvProbe = Some probe, cvLogs = (\<lambda>_ _. None),
      cvHeaders = (\<lambda>_. None), cvCalls = exCalls\<rparr>"

definition exOld :: store where
  "exOld = SetLastBlock 1000 NewStore"

definition exLow :: indexer where
  "exLow = snd (poll (exView ''0x1'' ''0xa'' ''0xb'') (snd (poll (exView ''0x1'' ''0xa'' ''0xb'')
     (fst (NewWithConfig exConfig '''' exOld)))))"

lemma exLow_reached: "reached exConfig '''' exOld [exView ''0x1'' ''0xa'' ''0xb'', exView ''0x1'' ''0xa'' ''0xb''] exLow"
  unfolding exLow_def
  using reached.polled[OF reached.polled[OF reached.built[of exConfig "''''" exOld],
    of "exView ''0x1'' ''0xa'' ''0xb''"], of "exView ''0x1'' ''0xa'' ''0xb''"] by simp

theorem rewind_needs_three_low_heads_witness:
  "ixLastBlock exLow = 1000 \<and> ixLastBlock (snd (poll (exView ''0x1'' ''0xa'' ''0xb'') exLow)) = 0 \<and>
   (\<exists>g. fetchGenesisHash (cvProbe (exView ''0x1'' ''0xa'' ''0xb'')) = Some g \<and>
      g \<noteq> ixGenesisHash (ensureGenesisHash (cvBaseline (exView ''0x1'' ''0xa'' ''0xb'')) exLow))"
proof -
  have l: "ixLastBlock exLow = 1000" by code_simp
  have b: "ixLastBlock (snd (poll (exView ''0x1'' ''0xa'' ''0xb'') exLow)) = 0" by code_simp
  then have "ixLastBlock (snd (poll (exView ''0x1'' ''0xa'' ''0xb'') exLow)) < ixLastBlock exLow" using l by simp
  from rewind_needs_three_low_heads[OF exLow_reached this] l b show ?thesis by blast
qed

theorem same_chain_never_rewinds_witness:
  "ixLastBlock (fst (NewWithConfig exConfig '''' exOld))
   \<le> ixLastBlock (snd (poll (exView ''0x1'' ''0xa'' ''0xa'') (fst (NewWithConfig exConfig '''' exOld))))"
  by (rule same_chain_never_rewinds[OF reached.built, of "''0xa''"])
     (simp add: sameChain_def exView_def fetchGenesisHash_def toLower_def lowerChar_def byteOf_def)

theorem cursor_never_behind_disk_witness: "cursorSound exLow"
  by (rule cursor_never_behind_disk[OF exLow_reached])

end
