(* ===== verification/CursorProgress.thy ===== *)
theory CursorProgress
  imports Cursor
begin

text \<open>
  What the poll loop of src/indexer/indexer.go achieves over many polls: a poll that succeeds covers
  exactly the range it announces, a node that keeps answering brings the cursor to its head in as many
  polls as there are batches of 2001 blocks, and a token contract whose \<open>symbol()\<close> answer makes the
  string decoder panic holds the cursor where it is for ever.
\<close>

section \<open>A poll covers its range\<close>

lemma notFar:
  assumes "ixLastBlock idx \<le> h" "uint h + 128 < 2 ^ 64"
  shows "\<not> farBelow h idx"
proof -
  have "uint (h + 128) = uint h + 128" using assms(2) by (subst uint_plus_if') simp
  then have "\<not> h + 128 < ixLastBlock idx" using assms(1) by (simp add: word_less_def word_le_def)
  then show ?thesis by (simp add: farBelow_def reorgDepth_def)
qed

definition settledHead :: "chainView \<Rightarrow> 64 word \<Rightarrow> bool" where
  "settledHead cv h \<longleftrightarrow> head cv = Some h \<and> uint h + 128 < 2 ^ 64"

definition ready :: "chainView \<Rightarrow> indexer \<Rightarrow> indexer" where
  "ready cv idx = (ensureGenesisHash (cvBaseline cv) idx)\<lparr>ixLowHeadStreak := 0\<rparr>"

lemma ready_fields [simp]:
  "ixLastBlock (ready cv idx) = ixLastBlock idx" "ixStore (ready cv idx) = ixStore idx"
  "ixTokenCache (ready cv idx) = ixTokenCache idx" "ixStartBlock (ready cv idx) = ixStartBlock idx"
  by (simp_all add: ready_def ensureGenesisHash_def split: option.splits)

lemma poll_ahead:
  assumes "settledHead cv h" "ixLastBlock idx \<le> h"
  shows "poll cv idx =
    (if h = ixLastBlock idx then (Done, ready cv idx)
     else scan cv (ixLastBlock idx + 1) (pollTo (ixLastBlock idx + 1) h) (ready cv idx))"
proof -
  have "\<not> farBelow h (ensureGenesisHash (cvBaseline cv) idx)"
    using notFar[of idx h] assms by (simp add: settledHead_def)
  then have m: "maybeResetForRegenesis (cvProbe cv) h (ensureGenesisHash (cvBaseline cv) idx) = ready cv idx"
    by (simp add: maybeResetForRegenesis_def ready_def)
  show ?thesis using assms by (auto simp: poll_def m settledHead_def Let_def)
qed

lemma scan_Done:
  assumes "scan cv a b idx = (Done, idx')"
  shows "\<exists>raw logs j. cvLogs cv a b = Some raw \<and>
    stampTimes (cvHeaders cv) (map (leTime_update (\<lambda>_. 0)) raw) = Some logs \<and>
    processLogs (cvCalls cv) logs idx = (Done, j) \<and> idx' = advance b j"
  using assms by (auto simp: scan_def split: option.splits prod.splits pollEnd.splits)

lemma stampTimes_Some:
  "stampTimes headers ls = Some out \<Longrightarrow>
   list_all2 (stampedBy (blockTimes headers (blocksOf ls) (\<lambda>_. None))) ls out"
proof -
  assume a: "stampTimes headers ls = Some out"
  have fold_mono: "set bs \<subseteq> set (foldl (\<lambda>bs l. case placed l of None \<Rightarrow> bs
      | Some b \<Rightarrow> if b \<in> set bs then bs else bs @ [b]) bs ls)" for bs ls
    by (induction ls arbitrary: bs) (fastforce split: option.splits)+
  have in_blocks: "placed l = Some b \<Longrightarrow> l \<in> set ls \<Longrightarrow> b \<in> set (foldl (\<lambda>bs l. case placed l of None \<Rightarrow> bs
      | Some b \<Rightarrow> if b \<in> set bs then bs else bs @ [b]) bs ls)" for l b bs ls
  proof (induction ls arbitrary: bs)
    case (Cons x ls)
    show ?case
    proof (cases "x = l")
      case True
      then show ?thesis using Cons.prems fold_mono[of "if b \<in> set bs then bs else bs @ [b]" ls] by auto
    qed (use Cons in auto)
  qed simp
  show ?thesis
  proof (cases "blocksOf ls = []")
    case True
    then have "\<forall>l \<in> set ls. placed l = None"
      using in_blocks[of _ _ ls "[]"] by (fastforce simp: blocksOf_def)
    then have "list_all2 (stampedBy clock) ls ls" for clock
      by (intro list.rel_refl_strong) (simp add: stampedBy_def)
    then show ?thesis using a True by (simp add: stampTimes_def Let_def)
  next
    case False
    then show ?thesis using a by (auto simp: stampTimes_def Let_def dest: stampLogs_Some)
  qed
qed

section \<open>Catching up\<close>

lemma pollTo_exact:
  assumes "c < h"
  shows "uint (pollTo (c + 1) h) = min (uint h) (uint c + 2001)"
proof -
  have l: "uint c < uint h" using assms by (simp add: word_less_def)
  have b: "uint h < 2 ^ 64" using uint_lt2p[of h] by simp
  have s: "uint (c + 1) = uint c + 1" using l b by (subst uint_plus_if') simp
  have d: "uint (h - (c + 1)) = uint h - uint c - 1" using l s by (subst uint_sub_if') simp
  show ?thesis
  proof (cases "h - (c + 1) > 2000")
    case True
    then have u: "2000 < uint h - uint c - 1" using d by (simp add: word_less_def)
    then have "uint (c + 1 + 2000) = uint c + 2001" using s b by (subst uint_plus_if') simp
    then show ?thesis using True u by (simp add: pollTo_def)
  next
    case False
    then have "uint h - uint c - 1 \<le> 2000" using d by (simp add: word_less_def)
    then show ?thesis using False by (simp add: pollTo_def)
  qed
qed

text \<open>\<open>serving\<close>: the node answers every log query and every header it is asked for, and no token contract
  answers a string the decoder panics on.\<close>

definition serving :: "chainView \<Rightarrow> bool" where
  "serving cv \<longleftrightarrow>
     (\<forall>a b. \<exists>raw logs. cvLogs cv a b = Some raw \<and>
        stampTimes (cvHeaders cv) (map (leTime_update (\<lambda>_. 0)) raw) = Some logs) \<and>
     (\<forall>addr. \<exists>t. readERC20 (cvCalls cv) addr = Some t)"

lemma tokenOf_calm: "\<exists>t. readERC20 call addr = Some t \<Longrightarrow> \<exists>t idx'. tokenOf call addr idx = Some (t, idx')"
  by (auto simp: tokenOf_def token_def Let_def split: option.splits)

lemma processLog_calm:
  assumes "\<And>addr. \<exists>t. readERC20 call addr = Some t"
  shows "\<exists>idx'. processLog call l idx = Returns idx'"
proof -
  have see: "\<exists>j. seeToken call a i = Returns j" for a i
    using tokenOf_calm[OF assms, of a i] by (auto simp: seeToken_def)
  have seed: "\<exists>j. seedPoolWithTokens call p t0 t1 fee i = Returns j" for p t0 t1 fee i
    using see[of t0] see[of t1] by (auto simp: seedPoolWithTokens_def andThen_def split: run.splits) (metis run.distinct(1))
  have side: "\<exists>s j. pairSide call a i = Some (s, j)" for a i
    using tokenOf_calm[OF assms, of a i] by (auto simp: pairSide_def)
  have initV4: "\<exists>j. handleInitializeV4 call l idx = Returns j"
  proof -
    obtain j where j: "seedPoolWithTokens call (leTopics l ! 1) (topicAddr (leTopics l ! 2)) (topicAddr (leTopics l ! 3))
        (bigInt64 (decodeUint256 (leData l) 0)) idx = Returns j" using seed by blast
    obtain s0 j0 where j0: "pairSide call (topicAddr (leTopics l ! 2)) j = Some (s0, j0)" using side by blast
    obtain s1 j1 where "pairSide call (topicAddr (leTopics l ! 3)) j0 = Some (s1, j1)" using side by blast
    then show ?thesis using j j0 by (simp add: handleInitializeV4_def Let_def andThen_def)
  qed
  show ?thesis
    by (cases "leTopics l")
       (auto simp: processLog_def Let_def handlePairCreated_def handlePoolCreated_def handleTransfer_def see seed initV4)
qed

lemma processLogs_calm:
  assumes "\<And>addr. \<exists>t. readERC20 call addr = Some t"
  shows "\<exists>idx'. processLogs call ls idx = (Done, idx')"
proof (induction ls arbitrary: idx)
  case (Cons l ls)
  then show ?case using processLog_calm[OF assms, of l idx] by auto
qed simp

lemma serving_scan: "serving cv \<Longrightarrow> \<exists>j. scan cv a b idx = (Done, j)"
proof -
  assume s: "serving cv"
  then obtain raw logs where "cvLogs cv a b = Some raw"
      "stampTimes (cvHeaders cv) (map (leTime_update (\<lambda>_. 0)) raw) = Some logs"
    unfolding serving_def by meson
  moreover obtain j where "processLogs (cvCalls cv) logs idx = (Done, j)"
    using processLogs_calm[of "cvCalls cv" logs idx] s by (auto simp: serving_def)
  ultimately show ?thesis by (simp add: scan_def)
qed

lemma poll_serving:
  assumes "settledHead cv h" "serving cv" "ixLastBlock idx \<le> h"
  shows "uint (ixLastBlock (snd (poll cv idx))) = min (uint h) (uint (ixLastBlock idx) + 2001)"
proof (cases "h = ixLastBlock idx")
  case True
  then show ?thesis using poll_ahead[OF assms(1,3)] by simp
next
  case False
  then have lt: "ixLastBlock idx < h" using assms(3) by simp
  obtain j where sc: "scan cv (ixLastBlock idx + 1) (pollTo (ixLastBlock idx + 1) h) (ready cv idx) = (Done, j)"
    using serving_scan[OF assms(2)] by blast
  then have "ixLastBlock j = pollTo (ixLastBlock idx + 1) h" using scan_cases[OF sc] by (simp add: cursorOf_def)
  then show ?thesis using poll_ahead[OF assms(1,3)] False sc pollTo_exact[OF lt] by simp
qed

definition pollsOf :: "chainView \<Rightarrow> nat \<Rightarrow> indexer \<Rightarrow> indexer" where
  "pollsOf cv n idx = ((\<lambda>i. snd (poll cv i)) ^^ n) idx"

lemma pollsOf_simps [simp]:
  "pollsOf cv 0 idx = idx"
  "pollsOf cv (Suc n) idx = snd (poll cv (pollsOf cv n idx))"
  by (simp_all add: pollsOf_def)

lemma pollsOf_serving:
  assumes "settledHead cv h" "serving cv" "ixLastBlock idx \<le> h"
  shows "uint (ixLastBlock (pollsOf cv n idx)) = min (uint h) (uint (ixLastBlock idx) + 2001 * int n)"
proof (induction n)
  case 0
  then show ?case using assms(3) by (simp add: word_le_def)
next
  case (Suc n)
  then have "ixLastBlock (pollsOf cv n idx) \<le> h" by (simp add: word_le_def)
  then show ?case using poll_serving[OF assms(1,2), of "pollsOf cv n idx"] Suc by (simp add: algebra_simps)
qed

text \<open>C3: Once a node keeps answering with head h, the indexer reaches it: the cursor equals h after any
number of polls that covers the gap in batches of 2001 blocks, and stays there.\<close>

theorem catches_up:
  assumes "settledHead cv h" "serving cv" "ixLastBlock idx \<le> h"
    "uint h \<le> uint (ixLastBlock idx) + 2001 * int n"
  shows "ixLastBlock (pollsOf cv n idx) = h"
proof -
  have "uint (ixLastBlock (pollsOf cv n idx)) = uint h" using pollsOf_serving[OF assms(1-3), of n] assms(4) by simp
  then show ?thesis by (simp add: word_uint_eq_iff)
qed

definition exServing :: chainView where
  "exServing = (exView ''0x1388'' ''0xa'' ''0xa'')\<lparr>cvLogs := (\<lambda>_ _. Some []), cvCalls := (\<lambda>_ _. None)\<rparr>"

theorem catches_up_witness: "ixLastBlock (pollsOf exServing 3 exIndexer) = 5000"
proof (rule catches_up)
  show "settledHead exServing 5000" unfolding settledHead_def by code_simp
  show "serving exServing"
    by (simp add: serving_def exServing_def exView_def stampTimes_def blocksOf_def readERC20_def readText_def Let_def)
  show "ixLastBlock exIndexer \<le> 5000" by code_simp
  show "uint (5000 :: 64 word) \<le> uint (ixLastBlock exIndexer) + 2001 * int 3" by code_simp
qed

text \<open>C5: A poll that succeeds with the head above the cursor has asked for exactly the blocks after the cursor,
at most 2001 of them, has stamped every log it kept with its own block's time, has processed all of
them in order, and only then advanced both cursors to the end of the range.\<close>

theorem poll_covers_range:
  assumes "settledHead cv h" "ixLastBlock idx < h" "poll cv idx = (Done, idx')"
  shows "\<exists>to raw logs j. uint to = min (uint h) (uint (ixLastBlock idx) + 2001) \<and>
    cvLogs cv (ixLastBlock idx + 1) to = Some raw \<and>
    (let bare = map (leTime_update (\<lambda>_. 0)) raw in
       list_all2 (stampedBy (blockTimes (cvHeaders cv) (blocksOf bare) (\<lambda>_. None))) bare logs) \<and>
    processLogs (cvCalls cv) logs (ready cv idx) = (Done, j) \<and> idx' = advance to j"
proof -
  let ?to = "pollTo (ixLastBlock idx + 1) h"
  have "scan cv (ixLastBlock idx + 1) ?to (ready cv idx) = (Done, idx')"
    using poll_ahead[OF assms(1), of idx] assms(2,3) by auto
  from scan_Done[OF this] obtain raw logs j where "cvLogs cv (ixLastBlock idx + 1) ?to = Some raw"
      "stampTimes (cvHeaders cv) (map (leTime_update (\<lambda>_. 0)) raw) = Some logs"
      "processLogs (cvCalls cv) logs (ready cv idx) = (Done, j)" "idx' = advance ?to j" by blast
  then show ?thesis using pollTo_exact[OF assms(2)] stampTimes_Some by (metis (no_types, lifting))
qed

theorem poll_covers_range_witness:
  "\<exists>to raw logs j. uint to = 2001 \<and> cvLogs exServing 1 to = Some raw \<and>
     processLogs (cvCalls exServing) logs (ready exServing exIndexer) = (Done, j) \<and> snd (poll exServing exIndexer) = advance to j"
proof -
  have h: "settledHead exServing 5000" unfolding settledHead_def by code_simp
  have z: "ixLastBlock exIndexer = 0" by code_simp
  have "ixLastBlock exIndexer < 5000" by code_simp
  moreover have "poll exServing exIndexer = (Done, snd (poll exServing exIndexer))"
    by (rule prod_eqI) (simp_all, code_simp)
  ultimately show ?thesis using poll_covers_range[OF h] z by fastforce
qed

section \<open>A contract that holds the indexer\<close>

text \<open>\<open>unread key\<close>: nothing is known yet of the token at the lower-cased address \<open>key\<close>.\<close>

definition unreadToken :: "string \<Rightarrow> indexer \<Rightarrow> bool" where
  "unreadToken key idx \<longleftrightarrow> getKey (ixTokenCache idx) key = None \<and>
     (\<forall>addr. toLower addr = key \<longrightarrow> \<not> settled (getKey (dbTokens (ixStore idx)) addr) addr)"

definition panicsOn :: "ethCalls \<Rightarrow> string \<Rightarrow> bool" where
  "panicsOn call key \<longleftrightarrow> (\<forall>addr. toLower addr = key \<longrightarrow> readERC20 call addr = None)"

lemma tokenOf_panics: "panicsOn call (toLower addr) \<Longrightarrow> unreadToken (toLower addr) idx \<Longrightarrow> tokenOf call addr idx = None"
  by (auto simp: tokenOf_def token_def unreadToken_def panicsOn_def storedToken_raw Let_def)

lemma tokenOf_unread:
  assumes "panicsOn call key" "unreadToken key idx" "tokenOf call addr idx = Some (t, idx')"
  shows "unreadToken key idx'"
proof -
  have "toLower addr \<noteq> key" using tokenOf_panics assms by fastforce
  then show ?thesis using assms(2,3)
    by (auto simp: tokenOf_def token_def unreadToken_def storedToken_raw SeedToken_def Let_def
        split: option.splits if_splits)
qed

lemma unread_onStore:
  "dbTokens (f (ixStore idx)) = dbTokens (ixStore idx) \<Longrightarrow> unreadToken key (onStore f idx) = unreadToken key idx"
  by (simp add: unreadToken_def)

lemma unread_entities: "entitiesOnly (ixStore idx) (f (ixStore idx)) \<Longrightarrow> unreadToken key (onStore f idx) = unreadToken key idx"
  by (simp add: unread_onStore entitiesOnly_fields)

lemma unread_seeds [simp]:
  "unreadToken key (onStore (SeedPool a p) idx) = unreadToken key idx"
  "unreadToken key (onStore (SeedSwap a d) idx) = unreadToken key idx"
  by (simp_all add: unread_onStore SeedPool_def SeedSwap_def)

lemma seeToken_unread:
  "panicsOn call key \<Longrightarrow> unreadToken key idx \<Longrightarrow> unreadToken key (after (seeToken call addr idx))"
  by (auto simp: seeToken_def dest: tokenOf_unread split: option.splits)

lemma pairSide_unread:
  "panicsOn call key \<Longrightarrow> unreadToken key idx \<Longrightarrow> pairSide call addr idx = Some (s, idx') \<Longrightarrow> unreadToken key idx'"
  by (auto simp: pairSide_def dest: tokenOf_unread)

lemma seedPoolWithTokens_unread:
  assumes "panicsOn call key" "unreadToken key idx"
  shows "unreadToken key (after (seedPoolWithTokens call p t0 t1 fee idx))"
proof -
  let ?i = "onStore (SeedPool p (emptyPool\<lparr>spToken0 := t0, spToken1 := t1, spFeeTier := fee\<rparr>)) idx"
  have "unreadToken key (after (seeToken call t0 ?i))" using assms by (intro seeToken_unread) simp_all
  then show ?thesis unfolding seedPoolWithTokens_def after_andThen
    using seeToken_unread[OF assms(1)] by (auto split: run.splits)
qed

lemma handleInitializeV4_unread:
  assumes "panicsOn call key" "unreadToken key idx"
  shows "unreadToken key (after (handleInitializeV4 call l idx))"
proof -
  let ?r = "seedPoolWithTokens call (leTopics l ! 1) (topicAddr (leTopics l ! 2)) (topicAddr (leTopics l ! 3))
     (bigInt64 (decodeUint256 (leData l) 0)) idx"
  have u: "unreadToken key (after ?r)" using assms by (rule seedPoolWithTokens_unread)
  have mk: "unreadToken key (onStore (writeMarketV4 q s b a0 a1 f) i)" if "unreadToken key i" for q s b a0 a1 f i
    using that by (subst unread_entities) (rule writeMarketV4_entities)
  show ?thesis
  proof (cases ?r)
    case (Returns j)
    then show ?thesis using u assms
      by (auto simp: handleInitializeV4_def Let_def andThen_def split: option.splits
          dest: pairSide_unread[OF assms(1), rotated] intro!: mk)
  next
    case (Throws j)
    then show ?thesis using u assms by (simp add: handleInitializeV4_def Let_def andThen_def)
  qed
qed

lemma processLog_unread:
  assumes "panicsOn call key" "unreadToken key idx"
  shows "unreadToken key (after (processLog call l idx))"
proof (cases "leTopics l")
  case Nil
  then show ?thesis using assms by (simp add: processLog_def)
next
  case (Cons t ts)
  have swaps: "unreadToken key (handleSwapV2 l n tx i idx)" "unreadToken key (handleSwapV3 l n tx i idx)"
      "unreadToken key (handleSwapV4 l n tx i idx)" for n tx i
    using assms by (simp_all add: handleSwapV2_def handleSwapV3_def handleSwapV4_def Let_def)
  have ents: "unreadToken key (handleDEXFill l n tx i idx)"
      "unreadToken key (onStore (securitiesLog t l n tx i) idx)" for n tx i
    using assms by (simp_all add: handleDEXFill_def unread_entities writeFill_entities securitiesLog_entitiesOnly)
  have pools: "unreadToken key (after (handlePairCreated call l idx))"
      "unreadToken key (after (handlePoolCreated call l idx))" "unreadToken key (after (handleTransfer call l idx))"
    using assms by (simp_all add: handlePairCreated_def handlePoolCreated_def handleTransfer_def Let_def
        seedPoolWithTokens_unread seeToken_unread)
  show ?thesis unfolding processLog_def Let_def Cons list.case
    using swaps ents pools handleInitializeV4_unread[OF assms] by simp
qed

definition transferOf :: "string \<Rightarrow> logEntry \<Rightarrow> bool" where
  "transferOf key l \<longleftrightarrow> 3 \<le> length (leTopics l) \<and> leTopics l ! 0 = SigTransfer \<and> toLower (leAddress l) = key"

lemma sig_transfer_other:
  "SigTransfer \<noteq> SigSwapV2" "SigTransfer \<noteq> SigSwapV3" "SigTransfer \<noteq> SigPairCreated" "SigTransfer \<noteq> SigPoolCreated"
  by (simp_all add: sig_defs)

lemma processLog_transfer_panics:
  assumes "panicsOn call key" "unreadToken key idx" "transferOf key l"
  shows "processLog call l idx = Throws idx"
proof -
  have "tokenOf call (leAddress l) idx = None"
    using assms tokenOf_panics[of call "leAddress l" idx] by (simp add: transferOf_def)
  then show ?thesis using assms(3)
    by (cases "leTopics l") (auto simp: processLog_def transferOf_def Let_def sig_transfer_other
        handleTransfer_def seeToken_def)
qed

lemma processLogs_panics:
  assumes "panicsOn call key" "unreadToken key idx" "\<exists>l \<in> set ls. transferOf key l"
  shows "\<exists>idx'. processLogs call ls idx = (Panicked, idx') \<and> unreadToken key idx'"
  using assms(2,3)
proof (induction ls arbitrary: idx)
  case (Cons l ls)
  show ?case
  proof (cases "processLog call l idx")
    case (Throws j)
    then show ?thesis using processLog_unread[OF assms(1) Cons.prems(1), of l] by simp
  next
    case (Returns j)
    then have "\<not> transferOf key l" using processLog_transfer_panics[OF assms(1) Cons.prems(1)] by fastforce
    moreover have "unreadToken key (j\<lparr>ixIndexedEvents := ixIndexedEvents j + 1\<rparr>)"
      using processLog_unread[OF assms(1) Cons.prems(1), of l] Returns by (simp add: unreadToken_def)
    ultimately show ?thesis using Cons Returns by simp
  qed
qed simp

lemma stamped_transfer:
  "list_all2 (stampedBy clock) ls out \<Longrightarrow> \<exists>l \<in> set ls. transferOf key l \<Longrightarrow> \<exists>l \<in> set out. transferOf key l"
  by (induction ls out rule: list_all2_induct) (auto simp: stampedBy_def transferOf_def split: option.splits)

lemma poll_held:
  assumes "settledHead cv h" "ixLastBlock idx < h"
    "cvLogs cv (ixLastBlock idx + 1) (pollTo (ixLastBlock idx + 1) h) = Some raw" "\<exists>l \<in> set raw. transferOf key l"
    "stampTimes (cvHeaders cv) (map (leTime_update (\<lambda>_. 0)) raw) = Some logs"
    "panicsOn (cvCalls cv) key" "unreadToken key idx"
  shows "\<exists>idx'. poll cv idx = (Panicked, idx') \<and> unreadToken key idx' \<and> ixLastBlock idx' = ixLastBlock idx"
proof -
  have "\<exists>l \<in> set (map (leTime_update (\<lambda>_. 0)) raw). transferOf key l"
    using assms(4) by (auto simp: transferOf_def)
  then have t: "\<exists>l \<in> set logs. transferOf key l"
    using stamped_transfer[OF stampTimes_Some[OF assms(5)]] by blast
  have "unreadToken key (ready cv idx)" using assms(7) by (simp add: unreadToken_def)
  then obtain j where j: "processLogs (cvCalls cv) logs (ready cv idx) = (Panicked, j)" "unreadToken key j"
    using processLogs_panics[OF assms(6) _ t] by blast
  have "poll cv idx = (Panicked, j)"
    using poll_ahead[OF assms(1), of idx] assms(2,3,5) j(1) by (auto simp: scan_def)
  then show ?thesis using j processLogs_config[OF j(1)] by simp
qed

text \<open>C6: One ERC-20 contract can hold the indexer for ever: when the range behind the cursor has a Transfer
of a token not read yet, whose symbol() answer declares a length just below 2^63, every poll
panics in the string decoder, is recovered as a failure and leaves the cursor where it was.\<close>

theorem held_forever:
  assumes "settledHead cv h" "ixLastBlock idx < h"
    "cvLogs cv (ixLastBlock idx + 1) (pollTo (ixLastBlock idx + 1) h) = Some raw" "\<exists>l \<in> set raw. transferOf key l"
    "stampTimes (cvHeaders cv) (map (leTime_update (\<lambda>_. 0)) raw) = Some logs"
    "unreadToken key idx" "2 ^ 63 - 64 \<le> len" "len < 2 ^ 63"
    "\<forall>addr. toLower addr = key \<longrightarrow> cvCalls cv addr selSymbol = Some (abiString len bytes)"
  shows "ixLastBlock (pollsOf cv n idx) = ixLastBlock idx \<and> \<not> fst (pollGuarded cv (pollsOf cv n idx))"
proof -
  have p: "panicsOn (cvCalls cv) key" using assms(7-9) readERC20_panics by (auto simp: panicsOn_def)
  have s: "ixLastBlock (pollsOf cv n idx) = ixLastBlock idx \<and> unreadToken key (pollsOf cv n idx)"
  proof (induction n)
    case (Suc n)
    then show ?case using poll_held[of cv h "pollsOf cv n idx" raw key logs] assms p by auto
  qed (simp add: assms)
  then have "\<exists>j. poll cv (pollsOf cv n idx) = (Panicked, j)"
    using poll_held[of cv h "pollsOf cv n idx" raw key logs] assms p by auto
  then show ?thesis using s by (auto simp: pollGuarded_def)
qed

definition exTrap :: string where
  "exTrap = ''0x00000000000000000000000000000000000000aa''"

definition exTransfer :: logEntry where
  "exTransfer =
     \<lparr>leAddress = exTrap, leTopics = [SigTransfer, ''0x1'', ''0x2''], leData = ''0x'', leBlockNumber = '''',
      leTxHash = ''0xt'', leLogIndex = ''0x0'', leTxIndex = '''', leTime = 0\<rparr>"

definition exHolding :: chainView where
  "exHolding = (exView ''0x5'' ''0xa'' ''0xa'')\<lparr>cvLogs := (\<lambda>_ _. Some [exTransfer]),
     cvCalls := (\<lambda>_ _. Some (abiString (2 ^ 63 - 1) ''''))\<rparr>"

theorem held_forever_witness: "ixLastBlock (pollsOf exHolding 7 exIndexer) = 0"
proof -
  have z: "ixLastBlock exIndexer = 0" by code_simp
  have "ixLastBlock (pollsOf exHolding 7 exIndexer) = ixLastBlock exIndexer \<and>
      \<not> fst (pollGuarded exHolding (pollsOf exHolding 7 exIndexer))"
  proof (rule held_forever[where h = 5 and raw = "[exTransfer]" and logs = "[exTransfer]" and key = exTrap
        and len = "2 ^ 63 - 1" and bytes = "''''"])
    show "settledHead exHolding 5" unfolding settledHead_def by code_simp
    show "ixLastBlock exIndexer < 5" by code_simp
    show "cvLogs exHolding (ixLastBlock exIndexer + 1) (pollTo (ixLastBlock exIndexer + 1) 5) = Some [exTransfer]"
      by (simp add: exHolding_def)
    show "\<exists>l\<in>set [exTransfer]. transferOf exTrap l" by simp code_simp
    show "stampTimes (cvHeaders exHolding) (map (leTime_update (\<lambda>_. 0)) [exTransfer]) = Some [exTransfer]" by code_simp
    show "unreadToken exTrap exIndexer" by (simp add: unreadToken_def exIndexer_def NewStore_def settled_def storedToken_raw getKey_def)
    show "2 ^ 63 - 64 \<le> (2 ^ 63 - 1 :: nat)" "2 ^ 63 - 1 < (2 ^ 63 :: nat)" by simp_all
    show "\<forall>addr. toLower addr = exTrap \<longrightarrow> cvCalls exHolding addr selSymbol = Some (abiString (2 ^ 63 - 1) '''')"
      by (simp add: exHolding_def)
  qed
  then show ?thesis using z by simp
qed

end
