(* ===== verification/FloatText.thy ===== *)
theory FloatText
  imports Float64 Erc20
begin

text \<open>
  \<open>strconv.FormatFloat\<close> as the sources call it: \<open>'f'\<close> with the shortest digits (\<open>formatFloat\<close>, \<open>fmtUnits\<close>),
  \<open>'f'\<close> with two decimals (money) and \<open>'g'\<close> with twelve digits (prices and amounts).  Every one rounds the
  exact value of the float, halves to even.  A float has no sign at zero here, so the text of a negative
  zero is not told apart.
\<close>

text \<open>\<open>FormatFloat(f, 'f', -1, 64)\<close>: the shortest decimal that reads back as \<open>f\<close>, the nearest one of that
  length.  At \<open>p\<close> significant digits the two neighbours of \<open>x\<close> are \<open>lo\<close> and \<open>lo + 1\<close> units of \<open>10 ^ k\<close>.\<close>

definition pow10 :: "int \<Rightarrow> rat" where
  "pow10 k = (if 0 \<le> k then 10 ^ nat k else 1 / 10 ^ nat (- k))"

definition floorLog10 :: "rat \<Rightarrow> int" where
  "floorLog10 x =
     (case quotient_of x of (n, d) \<Rightarrow>
        let e = int (length (natText 10 (nat n))) - int (length (natText 10 (nat d))) in
        if pow10 e \<le> x then e else e - 1)"

definition decimalAt :: "rat \<Rightarrow> int \<Rightarrow> (nat \<times> int) option" where
  "decimalAt x k =
     (let lo = \<lfloor>x / pow10 k\<rfloor>; up = lo + 1;
          okLo = (toF64 (of_int lo * pow10 k) = Fin x); okUp = (toF64 (of_int up * pow10 k) = Fin x);
          pick = (if okLo \<and> okUp then Some (roundEven (x / pow10 k)) else if okLo then Some lo
                  else if okUp then Some up else None)
      in map_option (\<lambda>n. (nat n, k)) pick)"

text \<open>Seventeen digits always read back, so the loop over the digits ends there.\<close>

fun shortest :: "rat \<Rightarrow> int \<Rightarrow> nat \<Rightarrow> nat \<times> int" where
  "shortest x k 0 = (nat (roundEven (x / pow10 k)), k)"
| "shortest x k (Suc m) = (case decimalAt x k of Some nk \<Rightarrow> nk | None \<Rightarrow> shortest x (k - 1) m)"

definition fixedText :: "nat \<times> int \<Rightarrow> string" where
  "fixedText nk =
     (case nk of (n, k) \<Rightarrow>
        if 0 \<le> k then natText 10 (n * 10 ^ nat k)
        else (let m = nat (- k); r = n mod 10 ^ m; ds = natText 10 r in
              natText 10 (n div 10 ^ m)
              @ (if r = 0 then ''''
                 else ''.'' @ trimRightZeros (replicate (m - length ds) (CHR ''0'') @ ds))))"

fun formatFloat :: "f64 \<Rightarrow> string" where
  "formatFloat FNaN = ''NaN''"
| "formatFloat (FInf neg) = (if neg then ''-Inf'' else ''+Inf'')"
| "formatFloat (Fin x) =
     (if x = 0 then ''0''
      else (if x < 0 then ''-'' else '''') @ fixedText (shortest \<bar>x\<bar> (floorLog10 \<bar>x\<bar>) 17))"

declare formatFloat.simps [simp del]

section \<open>A fixed number of digits\<close>

definition padZeros :: "nat \<Rightarrow> string \<Rightarrow> string" where
  "padZeros m ds = replicate (m - length ds) (CHR ''0'') @ ds"

definition decimals2 :: "rat \<Rightarrow> string" where
  "decimals2 x =
     (let n = nat (roundEven (\<bar>x\<bar> * 100)) in
      (if x < 0 then ''-'' else '''') @ natText 10 (n div 100) @ ''.'' @ padZeros 2 (natText 10 (n mod 100)))"

text \<open>Twelve significant digits \<open>(n, e)\<close>: \<open>n\<close> has twelve digits and the value is \<open>n * 10 ^ (e - 11)\<close>.\<close>

definition digits12 :: "rat \<Rightarrow> nat \<times> int" where
  "digits12 x =
     (let e = floorLog10 x; n = nat (roundEven (x / pow10 (e - 11)))
      in if n = 10 ^ 12 then (10 ^ 11, e + 1) else (n, e))"

definition expText :: "int \<Rightarrow> string" where
  "expText e = (if e < 0 then ''e-'' else ''e+'') @ padZeros 2 (natText 10 (nat \<bar>e\<bar>))"

definition generalText :: "rat \<Rightarrow> string" where
  "generalText x =
     (if x = 0 then ''0''
      else (let (n, e) = digits12 \<bar>x\<bar>; ds = trimRightZeros (natText 10 n); nd = int (length ds);
                eprec = (if 12 > nd \<and> nd \<ge> e + 1 then nd else 12)
            in (if x < 0 then ''-'' else '''')
               @ (if e < - 4 \<or> e \<ge> eprec
                  then take 1 ds @ (if nd > 1 then ''.'' @ drop 1 ds else '''') @ expText e
                  else fixedText (n div 10 ^ (12 - length ds), e + 1 - nd))))"

end
