(* ===== verification/Clob.thy ===== *)
theory Clob
  imports LogEntry FloatText
begin

text \<open>
  The native order-book source, src/indexer/clob.go: it reads the markets, the resting orders and the
  trade log of the D-Chain and writes \<open>Market\<close>, \<open>Order\<close> and \<open>Fill\<close> entities.

  What the node answers to the requests of one poll is a \<open>clobView\<close>, None for any error of \<open>get\<close>; the
  answers to \<open>dex_get_orders\<close> and \<open>dex_get_trades\<close> may depend on how many requests came before.  The loop of
  \<open>drainTrades\<close> is a partial function, so not returning is the value None.  JSON decoding is input.
\<close>

section \<open>Rows of the read interface\<close>

record clobMarket =
  mkPoolID :: string
  mkSymbol :: string
  mkBase :: string
  mkQuote :: string
  mkAssetsBound :: bool
  mkOrders :: int
  mkRemaining :: f64
  mkBestBid :: f64
  mkBestAsk :: f64

record clobTrade =
  trHeight :: "64 word"
  trSeq :: "64 word"
  trTradeID :: "64 word"
  trPrice :: f64
  trSize :: f64
  trTakerSide :: string
  trMakerOrderID :: "64 word"
  trTakerOrderID :: "64 word"
  trTimestamp :: int

record clobOrder =
  orOrderID :: "64 word"
  orSide :: string
  orPrice :: f64
  orSize :: f64
  orRemaining :: f64
  orUser :: string

record clobSource =
  csBase :: string
  csStore :: store
  csLastTrade :: "64 word"
  csLatestBlock :: "64 word"
  csIndexedEvents :: "64 word"

definition clobTradePage :: nat where "clobTradePage = 1000"

definition trimRight :: "char \<Rightarrow> string \<Rightarrow> string" where
  "trimRight d s = rev (dropWhile (\<lambda>c. c = d) (rev s))"

definition NewCLOBSource :: "string \<Rightarrow> store \<Rightarrow> clobSource" where
  "NewCLOBSource base s =
     \<lparr>csBase = trimRight (CHR ''/'') base, csStore = s, csLastTrade = 0, csLatestBlock = 0,
      csIndexedEvents = 0\<rparr>"

text \<open>The address a request goes to; the order of the parameters is that of one map iteration.\<close>

definition getURL :: "clobSource \<Rightarrow> string \<Rightarrow> string gomap \<Rightarrow> string" where
  "getURL c meth params =
     csBase c @ ''/'' @ meth
     @ (if params = [] then '''' else ''?'' @ joinWith ''&'' (map (\<lambda>(k, v). k @ ''='' @ v) params))"

section \<open>Symbols of markets\<close>

definition printable :: "char \<Rightarrow> bool" where
  "printable c \<longleftrightarrow> \<not> (byteOf c = 0 \<or> byteOf c < 32 \<or> byteOf c > 126)"

definition decodeMarketSymbol :: "string \<Rightarrow> string" where
  "decodeMarketSymbol hexSym =
     (let s = trimPrefix hexSym ''0x'' in
      if length s mod 2 \<noteq> 0 then hexSym
      else case nibblePairs s of
             None \<Rightarrow> hexSym
           | Some raw \<Rightarrow>
               (let label = trimSpace (takeWhile printable raw) in
                if CHR ''/'' \<in> set label \<and> length label \<ge> 3 then label else hexSym))"

section \<open>Entities\<close>

definition uintText :: "64 word \<Rightarrow> string" where
  "uintText w = natText 10 (unat w)"

definition fillID :: "clobTrade \<Rightarrow> string" where
  "fillID t = uintText (trHeight t) @ '':'' @ uintText (trSeq t)"

definition fillRow :: "clobTrade \<Rightarrow> val" where
  "fillRow t = VMap
     [(''id'', VStr (fillID t)), (''tradeId'', VInt (uint (trTradeID t))),
      (''price'', VStr (formatFloat (trPrice t))), (''size'', VStr (formatFloat (trSize t))),
      (''side'', VStr (trTakerSide t)), (''makerOrderId'', VStr (uintText (trMakerOrderID t))),
      (''takerOrderId'', VStr (uintText (trTakerOrderID t))), (''height'', VInt (uint (trHeight t))),
      (''seq'', VInt (uint (trSeq t))), (''timestamp'', VInt (trTimestamp t))]"

definition writeTrade :: "clobTrade \<Rightarrow> store \<Rightarrow> store" where
  "writeTrade t s = SetEntity ''Fill'' (fillID t) (fillRow t) s"

definition orderKey :: "string \<Rightarrow> 64 word \<Rightarrow> string" where
  "orderKey poolID oid = poolID @ ''#'' @ uintText oid"

definition orderRow :: "string \<Rightarrow> clobOrder \<Rightarrow> val" where
  "orderRow poolID r = VMap
     [(''id'', VStr (orderKey poolID (orOrderID r))), (''orderId'', VInt (uint (orOrderID r))),
      (''market'', VStr poolID), (''side'', VStr (orSide r)), (''price'', VStr (formatFloat (orPrice r))),
      (''size'', VStr (formatFloat (orSize r))), (''remaining'', VStr (formatFloat (orRemaining r))),
      (''user'', VStr (orUser r))]"

definition writeOrder :: "string \<Rightarrow> clobOrder \<Rightarrow> store \<Rightarrow> store" where
  "writeOrder poolID r s = SetEntity ''Order'' (orderKey poolID (orOrderID r)) (orderRow poolID r) s"

definition bookRow :: "clobMarket \<Rightarrow> val gomap" where
  "bookRow m =
     [(''id'', VStr (mkPoolID m)), (''symbol'', VStr (decodeMarketSymbol (mkSymbol m))),
      (''baseToken'', VStr (mkBase m)), (''quoteToken'', VStr (mkQuote m)),
      (''assetsBound'', VBool (mkAssetsBound m)), (''openOrders'', VInt (mkOrders m)),
      (''remaining'', VStr (formatFloat (mkRemaining m))), (''bestBid'', VStr (formatFloat (mkBestBid m))),
      (''bestAsk'', VStr (formatFloat (mkBestAsk m)))]"

definition accruedKeys :: "string list" where
  "accruedKeys = [''volume24h'', ''tradeCount'', ''lastPrice'', ''lastUpdate'', ''feeTier'']"

definition carryKey :: "val gomap \<Rightarrow> val gomap \<Rightarrow> string \<Rightarrow> val gomap" where
  "carryKey em mk k = (case getKey em k of Some v \<Rightarrow> putKey k v mk | None \<Rightarrow> mk)"

definition writeMarket :: "clobMarket \<Rightarrow> store \<Rightarrow> store" where
  "writeMarket m s =
     (let mk = (case GetByType s ''Market'' (mkPoolID m) of
                  VMap em \<Rightarrow> foldl (carryKey em) (bookRow m) accruedKeys
                | _ \<Rightarrow> bookRow m)
      in SetEntity ''Market'' (mkPoolID m) (VMap mk) s)"

section \<open>Polling\<close>

record clobView =
  cvMarkets :: "(64 word \<times> clobMarket list) option"
  cvOrders :: "nat \<Rightarrow> string \<Rightarrow> clobOrder list option"
  cvTrades :: "nat \<Rightarrow> 64 word \<Rightarrow> clobTrade list option"

definition onClob :: "(store \<Rightarrow> store) \<Rightarrow> clobSource \<Rightarrow> clobSource" where
  "onClob f c = c\<lparr>csStore := f (csStore c)\<rparr>"

definition ingestTrade :: "clobSource \<Rightarrow> clobTrade \<Rightarrow> clobSource" where
  "ingestTrade c t = (onClob (writeTrade t) c)\<lparr>csIndexedEvents := csIndexedEvents c + 1\<rparr>"

definition highest :: "64 word \<Rightarrow> clobTrade list \<Rightarrow> 64 word" where
  "highest h ts = foldl (\<lambda>m t. if trHeight t > m then trHeight t else m) h ts"

definition sinceOf :: "clobSource \<Rightarrow> 64 word" where
  "sinceOf c = (if csLastTrade c = 0 then 0 else csLastTrade c + 1)"

partial_function (option) drainTrades ::
  "(nat \<Rightarrow> 64 word \<Rightarrow> clobTrade list option) \<Rightarrow> nat \<Rightarrow> clobSource \<Rightarrow> (bool \<times> clobSource) option" where
  "drainTrades ask i c =
     (case ask i (sinceOf c) of
        None \<Rightarrow> Some (False, c)
      | Some ts \<Rightarrow>
          if ts = [] then Some (True, c)
          else if highest (csLastTrade c) ts < csLastTrade c + 1 then Some (True, foldl ingestTrade c ts)
          else if length ts < clobTradePage
          then Some (True, (foldl ingestTrade c ts)\<lparr>csLastTrade := highest (csLastTrade c) ts\<rparr>)
          else drainTrades ask (Suc i) ((foldl ingestTrade c ts)\<lparr>csLastTrade := highest (csLastTrade c) ts\<rparr>))"

definition refreshOrders :: "clobOrder list option \<Rightarrow> string \<Rightarrow> store \<Rightarrow> store" where
  "refreshOrders answer poolID s =
     (case answer of None \<Rightarrow> s | Some rs \<Rightarrow> foldl (\<lambda>s r. writeOrder poolID r s) s rs)"

fun refreshMarkets :: "(nat \<Rightarrow> string \<Rightarrow> clobOrder list option) \<Rightarrow> nat \<Rightarrow> clobMarket list \<Rightarrow> store \<Rightarrow> store" where
  "refreshMarkets ask i [] s = s"
| "refreshMarkets ask i (m # ms) s =
     refreshMarkets ask (Suc i) ms (refreshOrders (ask i (mkPoolID m)) (mkPoolID m) (writeMarket m s))"

text \<open>The flag of the answer tells whether the poll returned no error.\<close>

definition pollClob :: "clobView \<Rightarrow> clobSource \<Rightarrow> (bool \<times> clobSource) option" where
  "pollClob v c =
     (case cvMarkets v of
        None \<Rightarrow> Some (False, c)
      | Some (height, ms) \<Rightarrow>
          drainTrades (cvTrades v) 0 (onClob (refreshMarkets (cvOrders v) 0 ms) (c\<lparr>csLatestBlock := height\<rparr>)))"

text \<open>The loop of \<open>Run\<close> with one view per tick; a poll error is logged and the next tick goes on.\<close>

fun runClob :: "clobView list \<Rightarrow> clobSource \<Rightarrow> clobSource option" where
  "runClob [] c = Some c"
| "runClob (v # vs) c = (case pollClob v c of None \<Rightarrow> None | Some (ok, c') \<Rightarrow> runClob vs c')"

section \<open>Keys of the rows\<close>

lemma uintText_no_mark [simp]: "CHR '':'' \<notin> set (uintText w)" "CHR ''#'' \<notin> set (uintText w)"
  using natText_digits[of "unat w"] by (auto simp: uintText_def list_all_iff decDigit_def byteOf_def)

lemma uintText_inj [simp]: "uintText a = uintText b \<longleftrightarrow> a = b"
proof
  assume "uintText a = uintText b"
  then have "scanDigits 10 0 (natText 10 (unat a)) = scanDigits 10 0 (natText 10 (unat b))"
    by (simp add: uintText_def)
  then show "a = b" by (simp add: scanDigits_natText word_unat_eq_iff)
qed simp

lemma split_at_mark:
  "c \<notin> set xs \<Longrightarrow> c \<notin> set xs' \<Longrightarrow> xs @ c # ys = xs' @ c # ys' \<longleftrightarrow> xs = xs' \<and> ys = ys'"
proof (induction xs arbitrary: xs')
  case Nil
  then show ?case by (cases xs') auto
next
  case (Cons a xs)
  then show ?case by (cases xs') auto
qed

lemma split_at_last_mark:
  assumes "c \<notin> set ys" "c \<notin> set ys'"
  shows "xs @ c # ys = xs' @ c # ys' \<longleftrightarrow> xs = xs' \<and> ys = ys'"
  using split_at_mark[of c "rev ys" "rev ys'" "rev xs" "rev xs'"] assms
  by (metis (no_types, opaque_lifting) append.assoc append_Cons append_Nil rev.simps(2) rev_append rev_is_rev_conv set_rev)

lemma fillID_inj: "fillID t = fillID u \<longleftrightarrow> trHeight t = trHeight u \<and> trSeq t = trSeq u"
  by (simp add: fillID_def split_at_mark)

lemma orderKey_inj: "orderKey p i = orderKey q j \<longleftrightarrow> p = q \<and> i = j"
  by (simp add: orderKey_def split_at_last_mark)

lemma clobTypes [simp]: "colonFree ''Fill''" "colonFree ''Order''" "colonFree ''Market''"
  by (simp_all add: colonFree_def)

lemma onClob_fields [simp]:
  "csStore (onClob f c) = f (csStore c)"
  "csLastTrade (onClob f c) = csLastTrade c"
  "csIndexedEvents (onClob f c) = csIndexedEvents c"
  by (simp_all add: onClob_def)

section \<open>One page\<close>

definition clobFill :: "clobSource \<Rightarrow> string \<Rightarrow> val" where
  "clobFill c i = GetByType (csStore c) ''Fill'' i"

lemma ingestTrade_fields [simp]: "csLastTrade (ingestTrade c t) = csLastTrade c"
  by (simp add: ingestTrade_def)

lemma ingest_fields [simp]: "csLastTrade (foldl ingestTrade c ts) = csLastTrade c"
  by (induction ts arbitrary: c) simp_all

lemma clobFill_cursor [simp]: "clobFill (c\<lparr>csLastTrade := h\<rparr>) i = clobFill c i"
  by (simp add: clobFill_def)

lemma clobFill_ingestTrade:
  "clobFill (ingestTrade c t) i = (if i = fillID t then fillRow t else clobFill c i)"
  by (simp add: clobFill_def ingestTrade_def writeTrade_def entities.get_put_same entities.get_put_other)

lemma clobFill_kept: "i \<notin> fillID ` set ts \<Longrightarrow> clobFill (foldl ingestTrade c ts) i = clobFill c i"
  by (induction ts arbitrary: c) (auto simp: clobFill_ingestTrade)

lemma clobFill_written:
  assumes "inj_on fillID (set ts)" "t \<in> set ts"
  shows "clobFill (foldl ingestTrade c ts) (fillID t) = fillRow t"
  using assms
proof (induction ts rule: rev_induct)
  case (snoc u ts)
  show ?case
  proof (cases "fillID t = fillID u")
    case True
    then have "t = u" using snoc.prems inj_onD[of fillID "set (ts @ [u])" t u] by simp
    then show ?thesis by (simp add: clobFill_ingestTrade)
  next
    case False
    then have "t \<in> set ts" using snoc.prems(2) by auto
    then show ?thesis using snoc False by (auto simp: clobFill_ingestTrade inj_on_def)
  qed
qed simp

lemma highest_simps [simp]:
  "highest h [] = h"
  "highest h (t # ts) = highest (if trHeight t > h then trHeight t else h) ts"
  by (simp_all add: highest_def)

lemma highest_ge: "h \<le> highest h ts"
proof (induction ts arbitrary: h)
  case (Cons u ts)
  then show ?case using Cons[of "trHeight u"] by (auto intro: order_trans less_imp_le)
qed simp

lemma highest_ge_mem: "t \<in> set ts \<Longrightarrow> trHeight t \<le> highest h ts"
proof (induction ts arbitrary: h)
  case (Cons u ts)
  then show ?case
    using highest_ge[of "trHeight u" ts] order_trans[OF _ highest_ge[of h ts], of "trHeight u"] by auto
qed simp

lemma highest_from: "highest h ts = h \<or> (\<exists>t \<in> set ts. highest h ts = trHeight t)"
proof (induction ts arbitrary: h)
  case (Cons u ts)
  then show ?case using Cons[of h] Cons[of "trHeight u"] by auto
qed simp

section \<open>A node that serves a log\<close>

text \<open>The trade log of the chain, as the comments of the source describe it: ordered by height, one row
  per coordinate, none in the genesis block.  The node answers its first rows from the height asked for.\<close>

definition goodLog :: "clobTrade list \<Rightarrow> bool" where
  "goodLog tlog \<longleftrightarrow> sorted (map trHeight tlog) \<and> distinct (map fillID tlog)
     \<and> (\<forall>t \<in> set tlog. 0 < trHeight t \<and> trHeight t < - 1)"

definition pageOf :: "clobTrade list \<Rightarrow> 64 word \<Rightarrow> clobTrade list" where
  "pageOf tlog since = take clobTradePage (filter (\<lambda>t. since \<le> trHeight t) tlog)"

definition honest :: "clobTrade list \<Rightarrow> nat \<Rightarrow> 64 word \<Rightarrow> clobTrade list option" where
  "honest tlog i since = Some (pageOf tlog since)"

definition drainStep :: "clobTrade list \<Rightarrow> clobSource \<Rightarrow> clobSource" where
  "drainStep tlog c =
     (let ts = pageOf tlog (sinceOf c) in
      (foldl ingestTrade c ts)\<lparr>csLastTrade := highest (csLastTrade c) ts\<rparr>)"

lemma pageOf_mem: "t \<in> set (pageOf tlog h) \<Longrightarrow> t \<in> set tlog \<and> h \<le> trHeight t"
  by (auto simp: pageOf_def dest: in_set_takeD)

lemma pageOf_short: "length (pageOf tlog h) < clobTradePage \<Longrightarrow> pageOf tlog h = filter (\<lambda>t. h \<le> trHeight t) tlog"
  by (auto simp: pageOf_def min_def split: if_splits)

lemma pageOf_inj: "goodLog tlog \<Longrightarrow> inj_on fillID (set (pageOf tlog h))"
  by (rule inj_on_subset[of _ "set tlog"]) (auto simp: goodLog_def distinct_map dest: pageOf_mem)

lemma pageOf_rest:
  assumes g: "goodLog tlog" and t: "t \<in> set tlog" "h \<le> trHeight t" "t \<notin> set (pageOf tlog h)"
  shows "length (pageOf tlog h) = clobTradePage" "\<forall>u \<in> set (pageOf tlog h). trHeight u \<le> trHeight t"
proof -
  let ?xs = "filter (\<lambda>t. h \<le> trHeight t) tlog"
  have "t \<in> set ?xs" using t by simp
  then have d: "t \<in> set (drop clobTradePage ?xs)"
    using t(3) by (metis Un_iff append_take_drop_id pageOf_def set_append)
  then show "length (pageOf tlog h) = clobTradePage" by (cases "clobTradePage < length ?xs") (auto simp: pageOf_def)
  have "sorted (map trHeight ?xs)" using g by (auto simp: goodLog_def intro: sorted_filter)
  then have "sorted (map trHeight (take clobTradePage ?xs) @ map trHeight (drop clobTradePage ?xs))"
    by (metis append_take_drop_id map_append)
  then show "\<forall>u \<in> set (pageOf tlog h). trHeight u \<le> trHeight t" using d by (auto simp: sorted_append pageOf_def)
qed

lemma pageOf_last:
  assumes g: "goodLog tlog" and u: "u \<in> set (pageOf tlog h)"
  shows "trHeight u \<le> trHeight (last (pageOf tlog h))"
proof -
  have "sorted (map trHeight (pageOf tlog h))"
    using g by (auto simp: goodLog_def pageOf_def simp flip: take_map intro: sorted_filter sorted_wrt_take)
  moreover obtain xs l where "pageOf tlog h = xs @ [l]" using u by (cases "pageOf tlog h" rule: rev_cases) auto
  ultimately show ?thesis using u by (auto simp: sorted_append)
qed

lemma sinceOf_cursor:
  assumes "csLastTrade c < - 1" "sinceOf c \<le> h" "0 < h"
  shows "csLastTrade c < h"
proof (cases "csLastTrade c = 0")
  case False
  have "1 + csLastTrade c \<noteq> 0" using assms(1) by (metis add.commute add_eq_0_iff order_less_irrefl)
  then have "unat (1 + csLastTrade c) = Suc (unat (csLastTrade c))" by (rule unatSuc)
  then show ?thesis using assms False by (simp add: sinceOf_def word_le_nat_alt word_less_nat_alt add.commute)
qed (use assms in simp)

lemma sinceOf_le: "csLastTrade c < h \<Longrightarrow> sinceOf c \<le> h"
  by (auto simp: sinceOf_def inc_le)

lemma drainStep_cursor:
  assumes "goodLog tlog" "csLastTrade c < - 1"
  shows "csLastTrade c \<le> csLastTrade (drainStep tlog c)" "csLastTrade (drainStep tlog c) < - 1"
    "pageOf tlog (sinceOf c) \<noteq> [] \<Longrightarrow> csLastTrade c < csLastTrade (drainStep tlog c)"
proof -
  let ?ts = "pageOf tlog (sinceOf c)"
  show "csLastTrade c \<le> csLastTrade (drainStep tlog c)"
    by (simp add: drainStep_def Let_def highest_ge)
  show "csLastTrade (drainStep tlog c) < - 1"
    using highest_from[of "csLastTrade c" ?ts] assms by (auto simp: drainStep_def Let_def goodLog_def dest!: pageOf_mem)
  assume "?ts \<noteq> []"
  then obtain t where t: "t \<in> set ?ts" by (meson last_in_set)
  then have "csLastTrade c < trHeight t"
    using assms pageOf_mem[OF t] by (auto simp: goodLog_def intro!: sinceOf_cursor)
  also have "\<dots> \<le> highest (csLastTrade c) ?ts" using t by (rule highest_ge_mem)
  finally show "csLastTrade c < csLastTrade (drainStep tlog c)" by (simp add: drainStep_def Let_def)
qed

lemma drain_unfold:
  assumes "goodLog tlog" "csLastTrade c < - 1"
  shows "drainTrades (honest tlog) i c =
     (if length (pageOf tlog (sinceOf c)) < clobTradePage then Some (True, drainStep tlog c)
      else drainTrades (honest tlog) (Suc i) (drainStep tlog c))"
proof (cases "pageOf tlog (sinceOf c) = []")
  case True
  then show ?thesis by (subst drainTrades.simps) (simp add: honest_def drainStep_def clobTradePage_def)
next
  case False
  then have "csLastTrade c < csLastTrade (drainStep tlog c)" using drainStep_cursor[OF assms] by simp
  then have "csLastTrade c + 1 \<le> highest (csLastTrade c) (pageOf tlog (sinceOf c))"
    by (simp add: drainStep_def Let_def inc_le)
  then show ?thesis using False by (subst drainTrades.simps) (simp add: honest_def drainStep_def Let_def not_less[symmetric])
qed

text \<open>The loop ends, and whatever every page keeps holds before the last one.\<close>

lemma drain_rule:
  assumes g: "goodLog tlog" and "csLastTrade c < - 1" "I c"
    and step: "\<And>c. I c \<Longrightarrow> csLastTrade c < - 1 \<Longrightarrow> I (drainStep tlog c)"
  shows "\<exists>d. drainTrades (honest tlog) i c = Some (True, drainStep tlog d) \<and> I d \<and> csLastTrade d < - 1
           \<and> length (pageOf tlog (sinceOf d)) < clobTradePage"
  using assms(2,3)
proof (induction "unat (- 1 - csLastTrade c)" arbitrary: c i rule: less_induct)
  case less
  show ?case
  proof (cases "length (pageOf tlog (sinceOf c)) < clobTradePage")
    case True
    then show ?thesis using less.prems drain_unfold[OF g less.prems(1), of i] by auto
  next
    case False
    then have "pageOf tlog (sinceOf c) \<noteq> []" by (auto simp: clobTradePage_def)
    note c = drainStep_cursor[OF g less.prems(1)]
    have "unat (csLastTrade c) < unat (csLastTrade (drainStep tlog c))"
      using c(3)[OF \<open>pageOf tlog (sinceOf c) \<noteq> []\<close>] by (simp add: word_less_nat_alt)
    moreover have "unat (- 1 - w) = unat (- 1 :: 64 word) - unat w" for w :: "64 word"
      by (rule unat_sub) simp
    moreover have "unat (- 1 :: 64 word) = 2 ^ 64 - 1" by code_simp
    ultimately have "unat (- 1 - csLastTrade (drainStep tlog c)) < unat (- 1 - csLastTrade c)"
      using unsigned_less[of "csLastTrade (drainStep tlog c)", where ?'a = nat] by simp
    from less.hyps[OF this c(2) step[OF less.prems(2,1)], of "Suc i"]
    show ?thesis using False drain_unfold[OF g less.prems(1), of i] by simp
  qed
qed

section \<open>What a poll indexes\<close>

lemma drainStep_written:
  assumes "goodLog tlog" "t \<in> set (pageOf tlog (sinceOf c))"
  shows "clobFill (drainStep tlog c) (fillID t) = fillRow t"
  using clobFill_written[OF pageOf_inj[OF assms(1)] assms(2)] by (simp add: drainStep_def Let_def)

lemma drainStep_kept:
  "fillID t \<notin> fillID ` set (pageOf tlog (sinceOf c)) \<Longrightarrow> clobFill (drainStep tlog c) (fillID t) = clobFill c (fillID t)"
  by (simp add: drainStep_def Let_def clobFill_kept)

lemma drainStep_stable:
  assumes "goodLog tlog" "t \<in> set tlog" "clobFill c (fillID t) = fillRow t"
  shows "clobFill (drainStep tlog c) (fillID t) = fillRow t"
proof (cases "fillID t \<in> fillID ` set (pageOf tlog (sinceOf c))")
  case True
  then obtain u where u: "u \<in> set (pageOf tlog (sinceOf c))" "fillID t = fillID u" by auto
  then have "t = u"
    using assms(1,2) pageOf_mem[OF u(1)] inj_onD[of fillID "set tlog" t u] by (simp add: goodLog_def distinct_map)
  then show ?thesis using u drainStep_written[OF assms(1)] by simp
qed (use assms in \<open>simp add: drainStep_kept\<close>)

text \<open>The row \<open>t\<close> lies beyond the last row of a full page, in the same block.\<close>

definition cutOff :: "clobTrade list \<Rightarrow> clobTrade \<Rightarrow> bool" where
  "cutOff tlog t \<longleftrightarrow> (\<exists>since. length (pageOf tlog since) = clobTradePage \<and> t \<notin> set (pageOf tlog since)
     \<and> trHeight t = trHeight (last (pageOf tlog since)))"

definition readUpTo :: "clobTrade list \<Rightarrow> clobSource \<Rightarrow> clobSource \<Rightarrow> bool" where
  "readUpTo tlog c d \<longleftrightarrow> csLastTrade c \<le> csLastTrade d \<and>
     (\<forall>t \<in> set tlog. sinceOf c \<le> trHeight t \<longrightarrow>
        sinceOf d \<le> trHeight t \<or> clobFill d (fillID t) = fillRow t \<or> cutOff tlog t)"

lemma readUpTo_step:
  assumes g: "goodLog tlog" and m: "csLastTrade d < - 1" and r: "readUpTo tlog c d"
  shows "readUpTo tlog c (drainStep tlog d)"
  unfolding readUpTo_def
proof (intro conjI ballI impI)
  show "csLastTrade c \<le> csLastTrade (drainStep tlog d)"
    using r drainStep_cursor(1)[OF g m] by (auto simp: readUpTo_def)
next
  fix t assume t: "t \<in> set tlog" "sinceOf c \<le> trHeight t"
  let ?ts = "pageOf tlog (sinceOf d)"
  consider "t \<in> set ?ts" | "sinceOf d \<le> trHeight t" "t \<notin> set ?ts"
    | "clobFill d (fillID t) = fillRow t" | "cutOff tlog t"
    using r t by (auto simp: readUpTo_def)
  then show "sinceOf (drainStep tlog d) \<le> trHeight t \<or> clobFill (drainStep tlog d) (fillID t) = fillRow t \<or> cutOff tlog t"
  proof cases
    case 2
    note rest = pageOf_rest[OF g t(1) 2]
    then have "?ts \<noteq> []" by (auto simp: clobTradePage_def)
    then have l: "trHeight (last ?ts) \<le> trHeight t" "last ?ts \<in> set ?ts" using rest by auto
    show ?thesis
    proof (cases "trHeight (last ?ts) = trHeight t")
      case False
      have "highest (csLastTrade d) ?ts < trHeight t"
        using highest_from[of "csLastTrade d" ?ts] pageOf_last[OF g, of _ "sinceOf d"] l False
          sinceOf_cursor[OF m, of "trHeight t"] 2(1) g t(1)
        by (metis goodLog_def order_le_less order_le_less_trans)
      then show ?thesis using sinceOf_le[of "drainStep tlog d" "trHeight t"] by (simp add: drainStep_def Let_def)
    qed (use 2 rest l in \<open>auto simp: cutOff_def\<close>)
  qed (use g t drainStep_written drainStep_stable in auto)
qed

lemma readUpTo_end:
  assumes g: "goodLog tlog" and m: "csLastTrade d < - 1" and r: "readUpTo tlog c d"
    and s: "length (pageOf tlog (sinceOf d)) < clobTradePage"
    and t: "t \<in> set tlog" "sinceOf c \<le> trHeight t"
  shows "clobFill (drainStep tlog d) (fillID t) = fillRow t \<or> cutOff tlog t"
    and "trHeight t \<le> csLastTrade (drainStep tlog d)"
proof -
  have e: "t \<in> set (pageOf tlog (sinceOf d)) \<longleftrightarrow> sinceOf d \<le> trHeight t"
    using t(1) by (simp add: pageOf_short[OF s])
  show "clobFill (drainStep tlog d) (fillID t) = fillRow t \<or> cutOff tlog t"
    using r t e drainStep_written[OF g] drainStep_stable[OF g t(1)] by (auto simp: readUpTo_def)
  show "trHeight t \<le> csLastTrade (drainStep tlog d)"
  proof (cases "sinceOf d \<le> trHeight t")
    case True
    then show ?thesis using e highest_ge_mem[of t] by (simp add: drainStep_def Let_def)
  next
    case False
    then have "trHeight t \<le> csLastTrade d" using sinceOf_le[of d "trHeight t"] by force
    then show ?thesis using drainStep_cursor(1)[OF g m] by simp
  qed
qed

lemma refresh_kept:
  assumes "t \<noteq> ''Market''" "t \<noteq> ''Order''" "colonFree t"
  shows "GetByType (refreshMarkets ask i ms s) t k = GetByType s t k"
proof (induction ms arbitrary: i s)
  case (Cons m ms)
  have o: "GetByType (foldl (\<lambda>s r. writeOrder p r s) s rs) t k = GetByType s t k" for p rs s
    using assms by (induction rs arbitrary: s) (simp_all add: writeOrder_def entities.get_put_other)
  show ?case
    using assms by (auto simp: Cons refreshOrders_def o writeMarket_def Let_def entities.get_put_other split: option.splits)
qed simp

lemma pollClob_answered:
  "cvMarkets v = Some (h, ms) \<Longrightarrow>
   \<exists>c0. pollClob v c = drainTrades (cvTrades v) 0 c0 \<and> csLastTrade c0 = csLastTrade c \<and> (\<forall>i. clobFill c0 i = clobFill c i)"
  by (intro exI[of _ "onClob (refreshMarkets (cvOrders v) 0 ms) (c\<lparr>csLatestBlock := h\<rparr>)"])
    (simp add: pollClob_def clobFill_def refresh_kept)


text \<open>A row the cursor has passed is never asked for again.\<close>

lemma drain_past:
  assumes g: "goodLog tlog" and c: "csLastTrade c < - 1" "trHeight t \<le> csLastTrade c" "0 < csLastTrade c"
  shows "\<exists>c'. drainTrades (honest tlog) i c = Some (True, c') \<and> csLastTrade c' < - 1 \<and>
    csLastTrade c \<le> csLastTrade c' \<and> clobFill c' (fillID t) = clobFill c (fillID t)"
proof -
  let ?I = "\<lambda>d. csLastTrade c \<le> csLastTrade d \<and> clobFill d (fillID t) = clobFill c (fillID t)"
  have step: "?I (drainStep tlog d)" if d: "?I d" "csLastTrade d < - 1" for d
  proof -
    have "fillID t \<notin> fillID ` set (pageOf tlog (sinceOf d))"
    proof
      assume "fillID t \<in> fillID ` set (pageOf tlog (sinceOf d))"
      then obtain u where "u \<in> set (pageOf tlog (sinceOf d))" "trHeight t = trHeight u"
        by (auto simp: fillID_inj)
      then have "csLastTrade d < trHeight t"
        using g d pageOf_mem[of u] sinceOf_cursor[of d "trHeight u"] by (auto simp: goodLog_def)
      then show False using d c by auto
    qed
    then show ?thesis using d drainStep_kept drainStep_cursor(1)[OF g d(2)] by force
  qed
  obtain d where d: "drainTrades (honest tlog) i c = Some (True, drainStep tlog d)" "?I d" "csLastTrade d < - 1"
    using drain_rule[OF g c(1), of ?I i] step by auto
  then show ?thesis using step[OF d(2,3)] drainStep_cursor(2)[OF g d(3)] by auto
qed

lemma poll_past:
  assumes "csLastTrade c < - 1" "trHeight t \<le> csLastTrade c" "0 < csLastTrade c"
    and "\<exists>tlog. goodLog tlog \<and> cvTrades v = honest tlog"
  shows "\<exists>ok c'. pollClob v c = Some (ok, c') \<and> csLastTrade c' < - 1 \<and>
    csLastTrade c \<le> csLastTrade c' \<and> clobFill c' (fillID t) = clobFill c (fillID t)"
proof (cases "cvMarkets v")
  case None
  then show ?thesis using assms(1) by (intro exI[of _ False] exI[of _ c]) (simp add: pollClob_def)
next
  case (Some hm)
  then obtain c0 where "pollClob v c = drainTrades (cvTrades v) 0 c0" "csLastTrade c0 = csLastTrade c"
      "\<forall>i. clobFill c0 i = clobFill c i"
    using pollClob_answered[of v "fst hm" "snd hm"] by (metis prod.collapse)
  then show ?thesis using drain_past[of _ c0 t 0] assms by force
qed

lemma run_past:
  assumes "csLastTrade c < - 1" "trHeight t \<le> csLastTrade c" "0 < csLastTrade c"
    and "\<forall>v \<in> set vs. \<exists>tlog. goodLog tlog \<and> cvTrades v = honest tlog"
  shows "\<exists>c'. runClob vs c = Some c' \<and> clobFill c' (fillID t) = clobFill c (fillID t)"
  using assms
proof (induction vs arbitrary: c)
  case (Cons v vs)
  then obtain ok c1 where c1: "pollClob v c = Some (ok, c1)" "csLastTrade c1 < - 1"
      "csLastTrade c \<le> csLastTrade c1" "clobFill c1 (fillID t) = clobFill c (fillID t)"
    using poll_past[of c t v] by auto
  then show ?case using Cons.IH[of c1] Cons.prems by auto
qed simp

text \<open>C7: When a full page ends inside a block, the rows of that block that did not fit are lost: no later poll stores them,
however often the source polls and however the log of the node grows.\<close>

theorem full_page_loses_block_tail:
  assumes "goodLog tlog" "csLastTrade c < - 1" "cvMarkets v = Some (h, ms)" "cvTrades v = honest tlog"
    and "t \<in> set tlog" "length (pageOf tlog (sinceOf c)) = clobTradePage" "t \<notin> set (pageOf tlog (sinceOf c))"
    and "trHeight t = trHeight (last (pageOf tlog (sinceOf c)))"
    and "GetByType (csStore c) ''Fill'' (fillID t) = VNil"
    and "\<forall>w \<in> set vs. \<exists>tlog'. goodLog tlog' \<and> cvTrades w = honest tlog'"
  shows "\<exists>c'. runClob (v # vs) c = Some c' \<and> GetByType (csStore c') ''Fill'' (fillID t) = VNil"
proof -
  let ?ts = "pageOf tlog (sinceOf c)"
  obtain c0 where c0: "pollClob v c = drainTrades (honest tlog) 0 c0" "csLastTrade c0 = csLastTrade c"
      "\<forall>i. clobFill c0 i = clobFill c i"
    using pollClob_answered[OF assms(3)] assms(4) by metis
  have s: "sinceOf c0 = sinceOf c" using c0(2) by (simp add: sinceOf_def)
  define c1 where "c1 = drainStep tlog c0"
  have "?ts \<noteq> []" using assms(6) by (auto simp: clobTradePage_def)
  then have "trHeight t \<le> csLastTrade c1" "0 < csLastTrade c1" "csLastTrade c1 < - 1"
    using highest_ge_mem[OF last_in_set, of ?ts "csLastTrade c"] assms(2,8) s c0(2)
      drainStep_cursor(2,3)[OF assms(1), of c0] by (auto simp: c1_def drainStep_def Let_def word_gt_0 intro: le_less_trans)
  note past = this(3,1,2)
  have "fillID t \<notin> fillID ` set ?ts"
    using pageOf_mem[of _ tlog] assms(1,5,7) inj_onD[of fillID "set tlog" t]
    by (auto simp: goodLog_def distinct_map)
  then have k: "clobFill c1 (fillID t) = VNil"
    using drainStep_kept[of t tlog c0] c0(3) s assms(9) by (simp add: c1_def clobFill_def)
  have "pollClob v c = drainTrades (honest tlog) 1 c1"
    using drain_unfold[OF assms(1), of c0 0] c0 s assms(2,6) by (simp add: c1_def)
  then obtain c2 where c2: "pollClob v c = Some (True, c2)" "csLastTrade c2 < - 1"
      "csLastTrade c1 \<le> csLastTrade c2" "clobFill c2 (fillID t) = VNil"
    using drain_past[OF assms(1) past, of 1] k by auto
  then show ?thesis
    using run_past[of c2 t vs] past(2,3) assms(10) by (force simp: clobFill_def)
qed

section \<open>Orders and markets\<close>

lemma drain_frame:
  assumes "drainTrades ask i c = Some r"
  shows "GetByType (csStore (snd r)) ''Order'' k = GetByType (csStore c) ''Order'' k"
proof (rule drainTrades.raw_induct[where P = "\<lambda>ask i c r. GetByType (csStore (snd r)) ''Order'' k = GetByType (csStore c) ''Order'' k", OF _ assms])
  fix drain :: "(nat \<Rightarrow> 64 word \<Rightarrow> clobTrade list option) \<Rightarrow> nat \<Rightarrow> clobSource \<Rightarrow> (bool \<times> clobSource) option" and ask i c r
  assume ih: "\<And>ask i c r. drain ask i c = Some r \<Longrightarrow> GetByType (csStore (snd r)) ''Order'' k = GetByType (csStore c) ''Order'' k"
  have ts: "GetByType (csStore (foldl ingestTrade c ts)) ''Order'' k = GetByType (csStore c) ''Order'' k" for ts c
    by (induction ts arbitrary: c) (simp_all add: ingestTrade_def writeTrade_def entities.get_put_other)
  assume "(case ask i (sinceOf c) of None \<Rightarrow> Some (False, c)
      | Some ts \<Rightarrow>
          if ts = [] then Some (True, c)
          else if highest (csLastTrade c) ts < csLastTrade c + 1 then Some (True, foldl ingestTrade c ts)
          else if length ts < clobTradePage
          then Some (True, (foldl ingestTrade c ts)\<lparr>csLastTrade := highest (csLastTrade c) ts\<rparr>)
          else drain ask (Suc i) ((foldl ingestTrade c ts)\<lparr>csLastTrade := highest (csLastTrade c) ts\<rparr>)) = Some r"
  then show "GetByType (csStore (snd r)) ''Order'' k = GetByType (csStore c) ''Order'' k"
    by (auto simp: ts split: option.splits if_splits dest!: ih)
qed

lemma refreshMarkets_absent:
  assumes "\<forall>i rs. ask i pool = Some rs \<longrightarrow> oid \<notin> orOrderID ` set rs"
  shows "GetByType (refreshMarkets ask i ms s) ''Order'' (orderKey pool oid) = GetByType s ''Order'' (orderKey pool oid)"
proof (induction ms arbitrary: i s)
  case (Cons m ms)
  have o: "GetByType (foldl (\<lambda>s r. writeOrder p r s) s rs) ''Order'' (orderKey pool oid) = GetByType s ''Order'' (orderKey pool oid)"
    if "p = pool \<longrightarrow> oid \<notin> orOrderID ` set rs" for p rs s
    using that by (induction rs arbitrary: s) (auto simp: writeOrder_def entities.get_put_other orderKey_inj)
  have "GetByType (refreshOrders (ask i (mkPoolID m)) (mkPoolID m) s) ''Order'' (orderKey pool oid) = GetByType s ''Order'' (orderKey pool oid)" for s
    using assms by (auto simp: refreshOrders_def split: option.splits intro!: o)
  then show ?case by (simp add: Cons writeMarket_def Let_def entities.get_put_other)
qed simp

text \<open>An order that leaves the book is never taken down: as long as no answer of the node lists it, its Order row stays
exactly as it was, after any number of polls and whatever else they answer.\<close>

theorem gone_orders_stay_listed:
  assumes "runClob vs c = Some c'"
    and "\<forall>v \<in> set vs. \<forall>i rs. cvOrders v i pool = Some rs \<longrightarrow> oid \<notin> orOrderID ` set rs"
  shows "GetByType (csStore c') ''Order'' (orderKey pool oid) = GetByType (csStore c) ''Order'' (orderKey pool oid)"
  using assms
proof (induction vs arbitrary: c)
  case (Cons v vs)
  then obtain ok c1 where c1: "pollClob v c = Some (ok, c1)" "runClob vs c1 = Some c'"
    by (auto split: option.splits)
  have "GetByType (csStore c1) ''Order'' (orderKey pool oid) = GetByType (csStore c) ''Order'' (orderKey pool oid)"
  proof (cases "cvMarkets v")
    case None
    then show ?thesis using c1 by (simp add: pollClob_def)
  next
    case (Some hm)
    then show ?thesis
      using c1(1) Cons.prems(2) refreshMarkets_absent[of "cvOrders v" pool oid]
      by (auto simp: pollClob_def dest!: drain_frame[where k = "orderKey pool oid"] split: prod.splits)
  qed
  then show ?case using Cons.IH[OF c1(2)] Cons.prems(2) by simp
qed simp

definition storedField :: "store \<Rightarrow> string \<Rightarrow> string \<Rightarrow> string \<Rightarrow> val option" where
  "storedField s ty i k = (case GetByType s ty i of VMap m \<Rightarrow> getKey m k | _ \<Rightarrow> None)"

lemma getKey_carry:
  "getKey (foldl (carryKey em) mk ks) k = (if k \<in> set ks \<and> getKey em k \<noteq> None then getKey em k else getKey mk k)"
  by (induction ks arbitrary: mk) (auto simp: carryKey_def split: option.splits)

text \<open>Refreshing a market takes every figure of the book from the answer and keeps the accrued figures (volume, trade
count, last price, last update, fee tier) of the row that was stored, so it never loses what the EVM path wrote.\<close>

theorem market_refresh_keeps_accrued:
  "\<exists>mk. GetByType (writeMarket m s) ''Market'' (mkPoolID m) = VMap mk \<and>
     (\<forall>k. getKey mk k = (if k \<in> set accruedKeys \<and> storedField s ''Market'' (mkPoolID m) k \<noteq> None
                         then storedField s ''Market'' (mkPoolID m) k else getKey (bookRow m) k))"
proof (cases "GetByType s ''Market'' (mkPoolID m)")
  case (VMap em)
  show ?thesis by (rule exI, rule conjI, simp add: writeMarket_def VMap entities.get_put_same)
    (auto simp: getKey_carry storedField_def VMap)
qed (simp_all add: writeMarket_def entities.get_put_same storedField_def)

section \<open>Symbols read back\<close>

lemma hexOf_not_prefixed: "trimPrefix (hexOf bs) ''0x'' = hexOf bs"
proof -
  have "digitVal (CHR ''x'') \<noteq> Some d" if "d < 16" for d using that by (simp add: digitVal_def byteOf_def)
  then have "digitChar d \<noteq> CHR ''x''" if "d < 16" for d using that digitVal_digitChar[of d] by fastforce
  then show ?thesis by (cases bs) (auto simp: trimPrefix_def hasPrefix_def)
qed

text \<open>A pair name the chain wrote into a market's symbol is read back: the hexadecimal text of the name, padded with
zero bytes and with or without the prefix, decodes to the name, for every printable name of at least three bytes that
has a slash and neither starts nor ends with a space.\<close>

theorem market_symbol_round_trip:
  assumes "list_all printable p" "CHR ''/'' \<in> set p" "3 \<le> length p" "hd p \<noteq> CHR '' ''" "last p \<noteq> CHR '' ''"
    and "pre = '''' \<or> pre = ''0x''"
  shows "decodeMarketSymbol (pre @ hexOf (p @ replicate k (CHR 0x00))) = p"
proof -
  let ?raw = "p @ replicate k (CHR 0x00)"
  have s: "trimPrefix (pre @ hexOf ?raw) ''0x'' = hexOf ?raw"
    using assms(6) hexOf_not_prefixed[of ?raw] trimPrefix_append[of "''0x''" "hexOf ?raw"] by auto
  have t: "takeWhile printable ?raw = p"
    using assms(1) by (cases k) (simp_all add: takeWhile_append list_all_iff takeWhile_eq_all_conv printable_def byteOf_def)
  have solid: "solid c" if "printable c" "c \<noteq> CHR '' ''" for c
  proof -
    have "byteOf c \<noteq> 32"
    proof
      assume "byteOf c = 32"
      then have "c = char_of (32 :: nat)" using char_of_byteOf[of c] by simp
      also have "\<dots> = CHR '' ''" by code_simp
      finally show False using that by simp
    qed
    then show ?thesis using that(1) by (simp add: solid_def asciiSpace_def printable_def)
  qed
  have "p \<noteq> []" using assms(3) by auto
  then have "trimSpace p = p"
    using assms(1,4,5) solid[of "hd p"] solid[of "last p"] by (intro trimSpace_id) (simp add: list_all_iff)
  then show ?thesis
    using assms(2,3) by (simp add: decodeMarketSymbol_def s t nibblePairs_hexOf Let_def)
qed

section \<open>Witnesses\<close>

definition exFillTrade :: clobTrade where
  "exFillTrade = \<lparr>trHeight = 1, trSeq = 0, trTradeID = 7, trPrice = Fin 2, trSize = Fin 3, trTakerSide = ''buy'',
     trMakerOrderID = 5, trTakerOrderID = 6, trTimestamp = 100\<rparr>"

definition bulk :: "nat \<Rightarrow> clobTrade list" where
  "bulk n = map (\<lambda>i. exFillTrade\<lparr>trSeq := of_nat i\<rparr>) [0..<n]"

definition exClob :: clobSource where "exClob = NewCLOBSource ''http://node/dex/'' NewStore"

definition exClobView :: "clobTrade list \<Rightarrow> clobOrder list \<Rightarrow> clobView" where
  "exClobView tlog rs = \<lparr>cvMarkets = Some (9, [\<lparr>mkPoolID = ''p'', mkSymbol = ''00'', mkBase = ''0xa'', mkQuote = ''0xb'',
       mkAssetsBound = True, mkOrders = 1, mkRemaining = Fin 1, mkBestBid = Fin 1, mkBestAsk = Fin 2\<rparr>]),
     cvOrders = (\<lambda>i p. Some rs), cvTrades = honest tlog\<rparr>"

lemma top_word: "(0 :: 64 word) < - 1" "(1 :: 64 word) < - 1"
  by code_simp+

lemma goodLog_bulk:
  assumes "n \<le> 2000"
  shows "goodLog (bulk n)"
proof -
  have "take_bit 64 x = x" if "x < n" for x :: nat
    using that assms by (intro take_bit_nat_eq_self) simp
  then have "distinct (map fillID (bulk n))"
    by (auto simp: bulk_def exFillTrade_def o_def distinct_map inj_on_def fillID_inj word_of_nat_eq_iff)
  moreover have "sorted (map trHeight (bulk n))"
    by (simp add: bulk_def exFillTrade_def o_def map_replicate_const)
  ultimately show ?thesis using top_word by (auto simp: goodLog_def bulk_def exFillTrade_def)
qed

lemma length_bulk: "length (bulk n) = n"
  by (simp add: bulk_def)

lemma pageOf_bulk: "n \<le> 1000 \<Longrightarrow> n \<le> m \<Longrightarrow> m \<le> 1000 \<or> n = 1000 \<Longrightarrow> pageOf (bulk m) 0 = bulk (min m 1000)"
  by (auto simp: pageOf_def bulk_def clobTradePage_def take_map take_upt min_def)

lemma bulk_mem: "exFillTrade\<lparr>trSeq := of_nat i\<rparr> \<in> set (bulk n) \<longleftrightarrow> i < n" if "i \<le> 2000" "n \<le> 2000"
proof
  assume "exFillTrade\<lparr>trSeq := of_nat i\<rparr> \<in> set (bulk n)"
  then obtain j where j: "j < n" "(of_nat i :: 64 word) = of_nat j" by (auto simp: bulk_def exFillTrade_def)
  have "unat (of_nat i :: 64 word) = i" "unat (of_nat j :: 64 word) = j"
    using that j(1) by (simp_all add: unat_of_nat)
  then show "i < n" using j by metis
qed (auto simp: bulk_def)


theorem full_page_loses_block_tail_witness:
  "\<exists>c'. runClob [exClobView (bulk 1001) [], exClobView (bulk 1001) []] exClob = Some c' \<and>
     GetByType (csStore c') ''Fill'' (fillID (exFillTrade\<lparr>trSeq := 1000\<rparr>)) = VNil"
proof -
  have s: "sinceOf exClob = 0" "csLastTrade exClob < - 1"
    by (simp_all add: sinceOf_def exClob_def NewCLOBSource_def top_word)
  have p: "pageOf (bulk 1001) 0 = bulk 1000" using pageOf_bulk[of 1000 1001] by simp
  have n: "exFillTrade\<lparr>trSeq := 1000\<rparr> \<notin> set (bulk 1000)" "exFillTrade\<lparr>trSeq := 1000\<rparr> \<in> set (bulk 1001)"
    using bulk_mem[of 1000 1000] bulk_mem[of 1000 1001] by simp_all
  have l: "length (bulk 1000) = clobTradePage" by (simp add: length_bulk clobTradePage_def)
  have h: "trHeight (last (bulk 1000)) = 1"
    by (simp add: bulk_def last_map exFillTrade_def del: upt_Suc upt_rec_numeral)
  show ?thesis
    by (rule full_page_loses_block_tail[of "bulk 1001"])
      (use s p n l h goodLog_bulk[of 1001] in \<open>auto simp: exClobView_def exFillTrade_def exClob_def NewCLOBSource_def NewStore_def GetByType_def getKey_def\<close>)
qed

definition exOrder :: clobOrder where
  "exOrder = \<lparr>orOrderID = 7, orSide = ''buy'', orPrice = Fin 1, orSize = Fin 1, orRemaining = Fin 1, orUser = ''0xu''\<rparr>"

definition exListed :: clobSource where "exListed = onClob (writeOrder ''p'' exOrder) exClob"

theorem gone_orders_stay_listed_witness:
  "\<exists>c'. runClob [exClobView [] []] exListed = Some c' \<and>
     GetByType (csStore c') ''Order'' (orderKey ''p'' 7) = orderRow ''p'' exOrder"
proof -
  have "pageOf [] h = []" for h by (simp add: pageOf_def)
  then obtain c' where c: "runClob [exClobView [] []] exListed = Some c'"
    by (simp add: exClobView_def pollClob_def drainTrades.simps honest_def)
  have "GetByType (csStore exListed) ''Order'' (orderKey ''p'' 7) = orderRow ''p'' exOrder"
    using entities.get_put_same by (simp add: exListed_def writeOrder_def exOrder_def)
  moreover have "GetByType (csStore c') ''Order'' (orderKey ''p'' 7) = GetByType (csStore exListed) ''Order'' (orderKey ''p'' 7)"
    by (rule gone_orders_stay_listed[OF c]) (simp add: exClobView_def)
  ultimately show ?thesis using c by metis
qed

theorem market_symbol_round_trip_witness:
  "decodeMarketSymbol (''0x'' @ hexOf (''LUX/LUSD'' @ replicate 24 (CHR 0x00))) = ''LUX/LUSD''"
  by (rule market_symbol_round_trip) (simp_all add: printable_def byteOf_def)

end
