(* ===== verification/SwapTimes.thy ===== *)
theory SwapTimes
  imports Cursor
begin

text \<open>
  Dating the trades an older build stored, src/indexer/blocks.go (\<open>healSwapTimes\<close>, \<open>keepSwapTimes\<close>).

  Such a row holds its block number where the time belongs and no block.  One pass reads the headers of
  a bounded window of these rows and rewrites the rows it got a time for.  \<open>keepSwapTimes\<close> is given what
  the node answers to each pass; it leaves its loop only when a pass finds no such row, so its flag is
  False as long as it still runs.
\<close>

definition maxValuedSwaps :: nat where "maxValuedSwaps = 50000"

definition undated :: "seedSwap \<Rightarrow> bool" where
  "undated sw \<longleftrightarrow> \<not> (Dated sw \<or> swTimestamp sw \<le> 0)"

definition blockOf :: "seedSwap \<Rightarrow> 64 word" where
  "blockOf sw = word_of_int (swTimestamp sw)"

definition staleBlocks :: "seedSwap gomap \<Rightarrow> 64 word list" where
  "staleBlocks stale =
     foldl (\<lambda>bs (k, sw). if blockOf sw \<in> set bs then bs else bs @ [blockOf sw]) [] stale"

definition healRow :: "(64 word \<Rightarrow> int option) \<Rightarrow> store \<times> nat \<Rightarrow> string \<times> seedSwap \<Rightarrow> store \<times> nat" where
  "healRow clock st kv =
     (let block = blockOf (snd kv) in
      case clock block of
        None \<Rightarrow> st
      | Some ts \<Rightarrow> (SeedSwap (fst kv) ((snd kv)\<lparr>swBlock := block, swTimestamp := ts\<rparr>) (fst st), Suc (snd st)))"

record healed =
  hlFound :: nat
  hlHealed :: nat
  hlError :: bool
  hlStore :: store

definition healSwapTimes :: "(64 word list \<Rightarrow> batchAnswer option) \<Rightarrow> store \<Rightarrow> healed" where
  "healSwapTimes headers s =
     (let stale = UndatedSwapsRaw s maxValuedSwaps; blocks = staleBlocks stale; found = length stale in
      if found = 0 then \<lparr>hlFound = 0, hlHealed = 0, hlError = False, hlStore = s\<rparr>
      else
        (let clock = blockTimes headers blocks (\<lambda>_. None) in
         if list_all (\<lambda>b. clock b = None) blocks
         then \<lparr>hlFound = found, hlHealed = 0, hlError = True, hlStore = s\<rparr>
         else (case foldl (healRow clock) (s, 0) stale of
                 (s', n) \<Rightarrow> \<lparr>hlFound = found, hlHealed = n, hlError = False, hlStore = s'\<rparr>)))"

fun keepSwapTimes :: "(64 word list \<Rightarrow> batchAnswer option) list \<Rightarrow> store \<Rightarrow> bool \<times> store" where
  "keepSwapTimes [] s = (False, s)"
| "keepSwapTimes (headers # rest) s =
     (let r = healSwapTimes headers s in
      if hlFound r = 0 \<and> \<not> hlError r then (True, hlStore r) else keepSwapTimes rest (hlStore r))"

section \<open>Rows rewritten in place\<close>

lemma putKey_in_place:
  "distinct (map fst m) \<Longrightarrow> k \<in> fst ` set m \<Longrightarrow> putKey k w m = map (\<lambda>(k', v). (k', if k' = k then w else v)) m"
proof (induction m)
  case (Cons a m)
  have "map (\<lambda>(k', v). (k', if k' = k then w else v)) m = m" if "k \<notin> fst ` set m" for m :: "(string \<times> 'a) list"
    using that by (induction m) auto
  then show ?case using Cons by (cases a) (auto simp: putKey_def)
qed simp

definition healedRow :: "(64 word \<Rightarrow> int option) \<Rightarrow> seedSwap \<Rightarrow> seedSwap" where
  "healedRow clock sw =
     (case clock (blockOf sw) of None \<Rightarrow> sw | Some ts \<Rightarrow> sw\<lparr>swBlock := blockOf sw, swTimestamp := ts\<rparr>)"

lemma healRow_rows:
  assumes "distinct (map fst (dbSwaps s))" "getKey (dbSwaps s) k = Some sw"
  shows "fst (healRow clock (s, n) (k, sw)) =
    s\<lparr>dbSwaps := map (\<lambda>(k', v). (k', if k' = k then healedRow clock v else v)) (dbSwaps s)\<rparr>"
proof -
  have k: "k \<in> fst ` set (dbSwaps s)" using assms(2) by (auto simp: getKey_def dest: map_of_SomeD intro: rev_image_eqI)
  have v: "v = sw" if "(k, v) \<in> set (dbSwaps s)" for v
    using that assms by (simp add: getKey_def)
  show ?thesis
  proof (cases "clock (blockOf sw)")
    case None
    have "map (\<lambda>(k', v). (k', if k' = k then healedRow clock v else v)) (dbSwaps s) = dbSwaps s"
      by (rule map_idI) (auto simp: healedRow_def None dest!: v)
    then show ?thesis using None by (simp add: healRow_def)
  next
    case (Some ts)
    have "map (\<lambda>(k', v). (k', if k' = k then healedRow clock v else v)) (dbSwaps s)
        = putKey k (sw\<lparr>swBlock := blockOf sw, swTimestamp := ts\<rparr>) (dbSwaps s)"
      unfolding putKey_in_place[OF assms(1) k] by (auto simp: healedRow_def Some dest!: v)
    then show ?thesis using Some by (simp add: healRow_def SeedSwap_def Let_def)
  qed
qed

lemma heal_rows:
  assumes "distinct (map fst (dbSwaps s))" "distinct (map fst stale)" "\<forall>(k, sw) \<in> set stale. getKey (dbSwaps s) k = Some sw"
  shows "fst (foldl (healRow clock) (s, n) stale) =
    s\<lparr>dbSwaps := map (\<lambda>(k, v). (k, if k \<in> fst ` set stale then healedRow clock v else v)) (dbSwaps s)\<rparr>"
  using assms
proof (induction stale arbitrary: s n)
  case (Cons kv stale)
  obtain k sw where kv: "kv = (k, sw)" by fastforce
  let ?f = "\<lambda>(k', v). (k', if k' = k then healedRow clock v else v)"
  let ?s = "s\<lparr>dbSwaps := map ?f (dbSwaps s)\<rparr>"
  have h: "fst (healRow clock (s, n) kv) = ?s" using healRow_rows[of s k sw] Cons.prems by (simp add: kv)
  have fsts: "map fst (map ?f m) = map fst m" for m by (induction m) auto
  have "getKey (map ?f m) k' = getKey m k'" if "k' \<noteq> k" for k' m
    using that unfolding getKey_def by (induction m) auto
  note other = this[of _ "dbSwaps s"]
  have "\<forall>(k', sw') \<in> set stale. getKey (dbSwaps ?s) k' = Some sw'"
  proof (clarify)
    fix k' sw' assume m: "(k', sw') \<in> set stale"
    then have "k' \<noteq> k" using Cons.prems(2) by (force simp: kv)
    then show "getKey (dbSwaps ?s) k' = Some sw'" using other Cons.prems(3) m by auto
  qed
  moreover have "distinct (map fst (dbSwaps ?s))" using fsts[of "dbSwaps s"] Cons.prems(1) by (simp del: map_map)
  ultimately have "fst (foldl (healRow clock) (?s, snd (healRow clock (s, n) kv)) stale) =
    ?s\<lparr>dbSwaps := map (\<lambda>(k, v). (k, if k \<in> fst ` set stale then healedRow clock v else v)) (dbSwaps ?s)\<rparr>"
    using Cons.prems(2) by (intro Cons.IH) simp_all
  moreover have "foldl (healRow clock) (s, n) (kv # stale) = foldl (healRow clock) (?s, snd (healRow clock (s, n) kv)) stale"
    using h by (metis foldl_Cons prod.collapse)
  moreover have "map (\<lambda>(k, v). (k, if k \<in> fst ` set stale then healedRow clock v else v)) (map ?f m) =
      map (\<lambda>(k', v). (k', if k' \<in> fst ` set (kv # stale) then healedRow clock v else v)) m" for m
    using Cons.prems(2) by (induction m) (auto simp: kv)
  ultimately show ?case by simp
qed (simp add: case_prod_beta)

section \<open>A node that answers\<close>

text \<open>Every batch of headers is answered, with a time for every block asked for.\<close>

definition answersAll :: "(64 word list \<Rightarrow> batchAnswer option) \<Rightarrow> (64 word \<Rightarrow> int) \<Rightarrow> bool" where
  "answersAll headers timeOf \<longleftrightarrow>
     (\<forall>batch. \<exists>ans. headers batch = Some ans \<and>
        (\<forall>i < length batch. \<exists>t. rpcBatch ans (int i + 1) = Some (Some t) \<and> headerTime t = Some (timeOf (batch ! i))))"

lemma timesOf_answered:
  assumes "\<forall>i < length bs. \<exists>t. res (n + int i) = Some (Some t) \<and> headerTime t = Some (timeOf (bs ! i))"
  shows "timesOf res n bs out b = (if b \<in> set bs then Some (timeOf b) else out b)"
  using assms
proof (induction bs arbitrary: n out)
  case (Cons a bs)
  have "res n = Some (Some t) \<Longrightarrow> headerTime t = Some (timeOf a) \<Longrightarrow> ?case" for t
  proof -
    assume t: "res n = Some (Some t)" "headerTime t = Some (timeOf a)"
    have "\<forall>i < length bs. \<exists>t. res (n + 1 + int i) = Some (Some t) \<and> headerTime t = Some (timeOf (bs ! i))"
    proof (intro allI impI)
      fix i assume "i < length bs"
      then show "\<exists>t. res (n + 1 + int i) = Some (Some t) \<and> headerTime t = Some (timeOf (bs ! i))"
        using Cons.prems[rule_format, of "Suc i"] by (simp add: algebra_simps)
    qed
    from Cons.IH[OF this] show ?case using t by auto
  qed
  then show ?case using Cons.prems[rule_format, of 0] by auto
qed simp

lemma blockTimes_answered:
  assumes "answersAll headers timeOf"
  shows "blockTimes headers blocks out b = (if b \<in> set blocks then Some (timeOf b) else out b)"
proof (induction "length blocks" arbitrary: blocks out rule: less_induct)
  case less
  show ?case
  proof (cases "blocks = []")
    case False
    let ?batch = "take blockTimeBatch blocks"
    obtain ans where ans: "headers ?batch = Some ans"
        "\<forall>i < length ?batch. \<exists>t. rpcBatch ans (int i + 1) = Some (Some t) \<and> headerTime t = Some (timeOf (?batch ! i))"
      using assms unfolding answersAll_def by blast
    have "timesOf (rpcBatch ans) 1 ?batch out b = (if b \<in> set ?batch then Some (timeOf b) else out b)" for b
      using ans(2) by (intro timesOf_answered) (simp add: add.commute)
    moreover have "length (drop blockTimeBatch blocks) < length blocks" using False by (simp add: blockTimeBatch_def)
    note less.hyps[OF this]
    moreover have "set blocks = set ?batch \<union> set (drop blockTimeBatch blocks)"
      by (metis append_take_drop_id set_append)
    ultimately show ?thesis using False ans(1) by (subst blockTimes.simps) (auto simp: Let_def)
  qed (simp add: blockTimes.simps)
qed

lemma staleBlocks_set: "set (staleBlocks stale) = blockOf ` snd ` set stale"
proof -
  have "set (foldl (\<lambda>bs (k, sw). if blockOf sw \<in> set bs then bs else bs @ [blockOf sw]) bs stale)
      = set bs \<union> blockOf ` snd ` set stale" for bs
    by (induction stale arbitrary: bs) auto
  then show ?thesis by (simp add: staleBlocks_def)
qed

section \<open>One pass, all passes\<close>

text \<open>The row with the block it named and that block's time, the row as it was if it needs neither.\<close>

definition dateRow :: "(64 word \<Rightarrow> int) \<Rightarrow> seedSwap \<Rightarrow> seedSwap" where
  "dateRow timeOf sw = (if undated sw then sw\<lparr>swBlock := blockOf sw, swTimestamp := timeOf (blockOf sw)\<rparr> else sw)"

definition undatedRows :: "store \<Rightarrow> seedSwap gomap" where
  "undatedRows s = filter (\<lambda>(_, sw). undated sw) (dbSwaps s)"

definition swapsDated :: "(64 word \<Rightarrow> int) \<Rightarrow> store \<Rightarrow> store" where
  "swapsDated timeOf s = s\<lparr>dbSwaps := map (\<lambda>(k, sw). (k, dateRow timeOf sw)) (dbSwaps s)\<rparr>"

text \<open>Distinct keys, and times that are 64-bit integers, as in Go.\<close>

definition swapTable :: "store \<Rightarrow> bool" where
  "swapTable s \<longleftrightarrow> distinct (map fst (dbSwaps s)) \<and> (\<forall>(_, sw) \<in> set (dbSwaps s). swTimestamp sw < 2 ^ 63)"

lemma dateRow_dated [simp]: "swTimestamp sw < 2 ^ 63 \<Longrightarrow> \<not> undated (dateRow timeOf sw)"
proof -
  assume "swTimestamp sw < 2 ^ 63"
  then have "undated sw \<Longrightarrow> blockOf sw \<noteq> 0"
    by (auto simp: undated_def blockOf_def word_of_int_eq_0_iff dvd_def)
  then show ?thesis by (auto simp: dateRow_def undated_def Dated_def)
qed

lemma filter_keys_drop:
  "distinct (map fst xs) \<Longrightarrow> filter (\<lambda>x. fst x \<notin> fst ` set (take n xs)) xs = drop n xs"
proof -
  assume d: "distinct (map fst xs)"
  have "\<forall>x \<in> set (drop n xs). fst x \<notin> fst ` set (take n xs)"
    using d by (metis append_take_drop_id disjoint_iff distinct_append image_eqI list.set_map map_append)
  then have "filter (\<lambda>x. fst x \<notin> fst ` set (take n xs)) (take n xs) @ filter (\<lambda>x. fst x \<notin> fst ` set (take n xs)) (drop n xs) = drop n xs"
    by (simp add: filter_empty_conv)
  then show ?thesis by (metis append_take_drop_id filter_append)
qed

lemma undatedRows_Raw: "UndatedSwapsRaw s n = take n (undatedRows s)"
  by (simp add: UndatedSwapsRaw_def undatedRows_def undated_def)

lemma undatedRows_distinct: "swapTable s \<Longrightarrow> distinct (map fst (undatedRows s))"
  by (simp add: swapTable_def undatedRows_def distinct_map_filter)

lemma heal_store:
  assumes a: "answersAll headers timeOf" and t: "swapTable s" and ne: "undatedRows s \<noteq> []"
  defines "ks \<equiv> fst ` set (take maxValuedSwaps (undatedRows s))"
  shows "hlFound (healSwapTimes headers s) \<noteq> 0" "\<not> hlError (healSwapTimes headers s)"
    and "hlStore (healSwapTimes headers s) = s\<lparr>dbSwaps := map (\<lambda>(k, v). (k, if k \<in> ks then dateRow timeOf v else v)) (dbSwaps s)\<rparr>"
proof -
  let ?stale = "take maxValuedSwaps (undatedRows s)"
  let ?clock = "blockTimes headers (staleBlocks ?stale) (\<lambda>_. None)"
  have st: "?stale \<noteq> []" using ne by (simp add: maxValuedSwaps_def)
  have c: "?clock b = (if b \<in> blockOf ` snd ` set ?stale then Some (timeOf b) else None)" for b
    using blockTimes_answered[OF a] staleBlocks_set by simp
  have sub: "set ?stale \<subseteq> set (dbSwaps s)" using set_take_subset by (fastforce simp: undatedRows_def)
  have d: "distinct (map fst ?stale)" using undatedRows_distinct[OF t] by (metis distinct_take take_map)
  have g: "\<forall>(k, sw) \<in> set ?stale. getKey (dbSwaps s) k = Some sw"
    using sub t by (auto simp: getKey_def swapTable_def)
  have e: "\<not> list_all (\<lambda>b. ?clock b = None) (staleBlocks ?stale)"
    using st c by (auto simp: list_all_iff staleBlocks_set intro!: bexI[of _ "hd ?stale"])
  have h: "healSwapTimes headers s = (case foldl (healRow ?clock) (s, 0) ?stale of
      (s', n) \<Rightarrow> \<lparr>hlFound = length ?stale, hlHealed = n, hlError = False, hlStore = s'\<rparr>)"
    using st e by (simp add: healSwapTimes_def undatedRows_Raw Let_def)
  then show "hlFound (healSwapTimes headers s) \<noteq> 0" "\<not> hlError (healSwapTimes headers s)"
    using st by (simp_all add: split_beta)
  have "hlStore (healSwapTimes headers s) = fst (foldl (healRow ?clock) (s, 0) ?stale)" by (simp add: h split_beta)
  also have "\<dots> = s\<lparr>dbSwaps := map (\<lambda>(k, v). (k, if k \<in> ks then healedRow ?clock v else v)) (dbSwaps s)\<rparr>"
    using heal_rows[OF _ d g] t by (simp add: swapTable_def ks_def)
  also have "map (\<lambda>(k, v). (k, if k \<in> ks then healedRow ?clock v else v)) (dbSwaps s)
      = map (\<lambda>(k, v). (k, if k \<in> ks then dateRow timeOf v else v)) (dbSwaps s)"
  proof (rule map_cong[OF refl], clarify, rule conjI, simp)
    fix k v assume m: "(k, v) \<in> set (dbSwaps s)"
    show "(if k \<in> ks then healedRow ?clock v else v) = (if k \<in> ks then dateRow timeOf v else v)"
    proof (cases "k \<in> ks")
      case True
      then obtain w where w: "(k, w) \<in> set ?stale" by (auto simp: ks_def)
      then have "(k, w) \<in> set (dbSwaps s)" using sub by blast
      then have "w = v" using m t by (auto simp: swapTable_def dest: eq_key_imp_eq_value)
      then have "(k, v) \<in> set ?stale" using w by simp
      moreover have "undated v" using \<open>(k, v) \<in> set ?stale\<close> set_take_subset by (fastforce simp: undatedRows_def)
      moreover have "blockOf v \<in> blockOf ` snd ` set ?stale" using \<open>(k, v) \<in> set ?stale\<close> by force
      ultimately show ?thesis using c by (simp add: healedRow_def dateRow_def)
    qed simp
  qed
  finally show "hlStore (healSwapTimes headers s) = s\<lparr>dbSwaps := map (\<lambda>(k, v). (k, if k \<in> ks then dateRow timeOf v else v)) (dbSwaps s)\<rparr>" .
qed

lemma heal_pass:
  assumes a: "answersAll headers timeOf" and r: "\<forall>b. timeOf b < 2 ^ 63" and t: "swapTable s" and ne: "undatedRows s \<noteq> []"
  defines "s' \<equiv> hlStore (healSwapTimes headers s)"
  shows "undatedRows s' = drop maxValuedSwaps (undatedRows s)" "swapTable s'" "swapsDated timeOf s' = swapsDated timeOf s"
proof -
  define ks where "ks = fst ` set (take maxValuedSwaps (undatedRows s))"
  let ?f = "\<lambda>(k, v). (k, if k \<in> ks then dateRow timeOf v else v)"
  have s': "s' = s\<lparr>dbSwaps := map ?f (dbSwaps s)\<rparr>" using heal_store(3)[OF a t ne] by (simp add: s'_def ks_def)
  have fsts: "map fst (map ?f m) = map fst m" for m by (induction m) auto
  have bound: "\<forall>(k, v) \<in> set (dbSwaps s). swTimestamp v < 2 ^ 63" using t by (simp add: swapTable_def)
  have "undatedRows s' = filter (\<lambda>(k, v). undated v \<and> k \<notin> ks) (dbSwaps s)"
  proof -
    have "filter (\<lambda>(_, v). undated v) (map ?f m) = filter (\<lambda>(k, v). undated v \<and> k \<notin> ks) m"
      if "\<forall>(k, v) \<in> set m. swTimestamp v < 2 ^ 63" for m
      using that by (induction m) (auto split: if_splits)
    from this[OF bound] show ?thesis by (simp add: undatedRows_def s')
  qed
  then show "undatedRows s' = drop maxValuedSwaps (undatedRows s)"
    using filter_keys_drop[OF undatedRows_distinct[OF t], of maxValuedSwaps]
    by (simp add: undatedRows_def ks_def case_prod_unfold conj_commute)
  show "swapTable s'" using t r fsts[of "dbSwaps s"] by (auto simp: swapTable_def s' dateRow_def simp del: map_map)
  have "dateRow timeOf (dateRow timeOf v) = dateRow timeOf v" if "swTimestamp v < 2 ^ 63" for v
    using dateRow_dated[OF that] by (simp add: dateRow_def[of _ "dateRow timeOf v"])
  then have "map (\<lambda>(k, sw). (k, dateRow timeOf sw)) (map ?f (dbSwaps s)) = map (\<lambda>(k, sw). (k, dateRow timeOf sw)) (dbSwaps s)"
    using bound by (auto simp del: map_eq_conv simp: o_def intro!: map_cong)
  then show "swapsDated timeOf s' = swapsDated timeOf s" by (simp add: swapsDated_def s')
qed

lemma swapsDated_none: "undatedRows s = [] \<Longrightarrow> swapsDated timeOf s = s"
proof -
  assume "undatedRows s = []"
  then have "\<forall>(k, v) \<in> set (dbSwaps s). dateRow timeOf v = v"
    by (auto simp: undatedRows_def filter_empty_conv dateRow_def)
  then have "map (\<lambda>(k, sw). (k, dateRow timeOf sw)) (dbSwaps s) = dbSwaps s" by (intro map_idI) auto
  then show ?thesis by (simp add: swapsDated_def)
qed


definition exStale :: store where
  "exStale = NewStore\<lparr>dbSwaps := [(''0xt#1'', \<lparr>swTimestamp = 7, swBlock = 0, swPool = ''0xp'', swAmount0 = ''1'', swAmount1 = ''2'',
     swAmountUSD = '''', swSender = ''''\<rparr>)]\<rparr>"

definition exHeaders :: "64 word list \<Rightarrow> batchAnswer option" where
  "exHeaders batch = Some (map (\<lambda>i. (int i + 1, Some (Some ''0x64''))) [0..<length batch])"

lemma exHeaders_all: "answersAll exHeaders (\<lambda>_. 100)"
proof -
  have f: "foldl (\<lambda>res (i, r). case r of Some raw \<Rightarrow> res(i := Some raw) | None \<Rightarrow> res) m
      (map (\<lambda>i. (int i + 1, Some (Some ''0x64''))) [0..<n]) (int j + 1) = (if j < n then Some (Some ''0x64'') else m (int j + 1))"
    for m n j by (induction n) auto
  have "headerTime ''0x64'' = Some 100" by code_simp
  then show ?thesis by (auto simp: answersAll_def exHeaders_def rpcBatch_def f)
qed


end
