(* ===== verification/Valuation.thy ===== *)
theory Valuation
  imports SwapTimes StoreQuery FloatText
begin

text \<open>
  What pools and trades are worth, src/indexer/valuation.go: balances read at the head, prices relaxed
  outward from the stable coins through the pools, one value per trade.  DaySeries groups the same trades by
  day and Revalue is the pass that joins the two.

  A Go map of floats is an association list whose order is one iteration order; the prices are read by
  key only.  Balances come from one batch of calls; what it answered is the parameter.
\<close>

section \<open>Amounts\<close>

definition isAddress :: "string \<Rightarrow> bool" where
  "isAddress s \<longleftrightarrow> length s = 42 \<and> hasPrefix s ''0x''
     \<and> list_all (\<lambda>c. c \<in> set ''0123456789abcdefABCDEF'') (drop 2 s)"

definition padAddress :: "string \<Rightarrow> string" where
  "padAddress addr = replicate 24 (CHR ''0'') @ toLower (trimPrefix addr ''0x'')"

definition selBalanceOf :: string where "selBalanceOf = ''0x70a08231''"

definition decimalsOf :: "string \<Rightarrow> seedToken gomap \<Rightarrow> int" where
  "decimalsOf tok tokens =
     (case getKey tokens tok of
        Some t \<Rightarrow> if stDecimals t > 0 then stDecimals t
                   else (case getKey tokens (toLower tok) of
                           Some t' \<Rightarrow> if stDecimals t' > 0 then stDecimals t' else defaultDecimals
                         | None \<Rightarrow> defaultDecimals)
      | None \<Rightarrow> (case getKey tokens (toLower tok) of
                    Some t' \<Rightarrow> if stDecimals t' > 0 then stDecimals t' else defaultDecimals
                  | None \<Rightarrow> defaultDecimals))"

text \<open>The quotient is rounded at the precision of the amount's own \<open>big.Float\<close>, then to a float64.\<close>

definition normalizeAmt :: "int \<Rightarrow> int \<Rightarrow> f64" where
  "normalizeAmt n decimals0 =
     (let decimals = (if decimals0 < 0 \<or> decimals0 > 36 then defaultDecimals else decimals0)
      in toF64 (roundPrec (max (bitLen n) 64) (of_int n / 10 ^ nat decimals)))"

definition decodeBalance :: "string \<Rightarrow> int \<Rightarrow> f64 option" where
  "decodeBalance raw decimals =
     (let h = trimPrefix raw ''0x'' in
      if length h < 64 then None
      else (case setString 16 (drop (length h - 64) h) of (n, ok) \<Rightarrow> if ok then Some (normalizeAmt n decimals) else None))"

section \<open>Formats\<close>

definition fmtUSD :: "f64 \<Rightarrow> string" where
  "fmtUSD v = (case v of Fin x \<Rightarrow> decimals2 x | _ \<Rightarrow> ''0.00'')"

definition fmtPrice :: "f64 \<Rightarrow> string" where
  "fmtPrice v = (case v of Fin x \<Rightarrow> if x \<le> 0 then '''' else generalText x | _ \<Rightarrow> '''')"

definition fmtRatio :: "f64 \<Rightarrow> f64 \<Rightarrow> string" where
  "fmtRatio num den =
     (if fle den (Fin 0) \<or> isNaN num \<or> isNaN den then ''0''
      else case fdiv num den of
             Fin x \<Rightarrow> generalText x | FInf neg \<Rightarrow> if neg then ''-Inf'' else ''+Inf'' | FNaN \<Rightarrow> ''NaN'')"

definition derivedNative :: "f64 \<Rightarrow> f64 \<Rightarrow> bool \<Rightarrow> string" where
  "derivedNative priceUSD nativeUSD priced =
     (if \<not> priced \<or> fle nativeUSD (Fin 0) then '''' else fmtPrice (fdiv priceUSD nativeUSD))"

section \<open>Balances\<close>

record valuedPool =
  vpId :: string
  vpT0 :: string
  vpT1 :: string
  vpBal0 :: f64
  vpBal1 :: f64
  vpHeld0 :: bool
  vpHeld1 :: bool

definition maxValuedPools :: nat where "maxValuedPools = 5000"

definition addPool :: "valuedPool list \<Rightarrow> string \<times> seedPool \<Rightarrow> valuedPool list" where
  "addPool vps kv =
     (if \<not> isAddress (fst kv) \<or> length vps \<ge> maxValuedPools then vps
      else vps @ [\<lparr>vpId = fst kv, vpT0 = toLower (spToken0 (snd kv)), vpT1 = toLower (spToken1 (snd kv)),
                   vpBal0 = Fin 0, vpBal1 = Fin 0, vpHeld0 = False, vpHeld1 = False\<rparr>])"

text \<open>The legs asked for, in order: index of the pool, whether it is the first token, and the token.\<close>

definition legsOf :: "valuedPool list \<Rightarrow> (nat \<times> bool \<times> string) list" where
  "legsOf vps =
     filter (\<lambda>(_, _, tok). isAddress tok)
       (concat (map (\<lambda>(n, vp). [(n, True, vpT0 vp), (n, False, vpT1 vp)]) (enumerate 0 vps)))"

definition balanceCall :: "valuedPool list \<Rightarrow> nat \<times> bool \<times> string \<Rightarrow> string \<times> string" where
  "balanceCall vps l = (snd (snd l), selBalanceOf @ padAddress (vpId (vps ! fst l)))"

definition setLeg :: "(int \<Rightarrow> string option option) \<Rightarrow> seedToken gomap \<Rightarrow> valuedPool list \<Rightarrow> nat \<times> nat \<times> bool \<times> string \<Rightarrow> valuedPool list" where
  "setLeg results tokens vps il =
     (case il of (i, n, isT0, tok) \<Rightarrow>
        (case results (int i + 1) of
           Some (Some word) \<Rightarrow>
             (case decodeBalance word (decimalsOf tok tokens) of
                None \<Rightarrow> vps
              | Some bal \<Rightarrow>
                  vps[n := if isT0 then (vps ! n)\<lparr>vpBal0 := bal, vpHeld0 := True\<rparr>
                           else (vps ! n)\<lparr>vpBal1 := bal, vpHeld1 := True\<rparr>])
         | _ \<Rightarrow> vps))"

text \<open>\<open>answer\<close> is what the node gave for the list of calls, None for a failed request.\<close>

definition readBalances ::
  "((string \<times> string) list \<Rightarrow> batchAnswer option) \<Rightarrow> seedPool gomap \<Rightarrow> seedToken gomap \<Rightarrow> valuedPool list" where
  "readBalances answer pools tokens =
     (let vps = foldl addPool [] pools; legs = legsOf vps; calls = map (balanceCall vps) legs in
      if calls = [] then []
      else case answer calls of
             None \<Rightarrow> []
           | Some out \<Rightarrow> foldl (setLeg (rpcBatch out) tokens) vps (enumerate 0 legs))"

section \<open>Prices\<close>

definition stableSymbols :: "string list" where
  "stableSymbols = [''USDC'', ''USDT'', ''DAI'', ''LUSD'', ''USDS'', ''BUSD'', ''FRAX'', ''TUSD'', ''USDP'',
     ''PYUSD'', ''USDE'', ''GUSD'', ''ZUSD'']"

definition priceRelaxRounds :: nat where "priceRelaxRounds = 6"

definition isStable :: "seedToken \<Rightarrow> bool" where
  "isStable t \<longleftrightarrow> upperText (trimSpace (stSymbol t)) \<in> set stableSymbols"

definition anchors :: "seedToken gomap \<Rightarrow> f64 gomap" where
  "anchors tokens = foldl (\<lambda>ps (addr, t). if isStable t then putKey (toLower addr) (Fin 1) ps else ps) [] tokens"

record quote =
  qtPrice :: f64
  qtDepth :: f64

definition offer :: "string \<Rightarrow> quote \<Rightarrow> quote gomap \<Rightarrow> quote gomap" where
  "offer tok q best =
     (case getKey best tok of
        Some q' \<Rightarrow> if fless (qtDepth q') (qtDepth q) then putKey tok q best else best
      | None \<Rightarrow> putKey tok q best)"

definition quotePool :: "f64 gomap \<Rightarrow> quote gomap \<Rightarrow> valuedPool \<Rightarrow> quote gomap" where
  "quotePool prices best vp =
     (if fle (vpBal0 vp) (Fin 0) \<or> fle (vpBal1 vp) (Fin 0) then best
      else case (getKey prices (vpT0 vp), getKey prices (vpT1 vp)) of
             (Some p0, None) \<Rightarrow>
               (let d = fmul (vpBal0 vp) p0 in offer (vpT1 vp) \<lparr>qtPrice = fdiv d (vpBal1 vp), qtDepth = d\<rparr> best)
           | (None, Some p1) \<Rightarrow>
               (let d = fmul (vpBal1 vp) p1 in offer (vpT0 vp) \<lparr>qtPrice = fdiv d (vpBal0 vp), qtDepth = d\<rparr> best)
           | _ \<Rightarrow> best)"

definition usable :: "f64 \<Rightarrow> bool" where
  "usable p \<longleftrightarrow> fless (Fin 0) p \<and> \<not> isInf p \<and> \<not> isNaN p"

definition adopt :: "f64 gomap \<Rightarrow> string \<times> quote \<Rightarrow> f64 gomap" where
  "adopt prices aq = (if usable (qtPrice (snd aq)) then putKey (fst aq) (qtPrice (snd aq)) prices else prices)"

fun relax :: "nat \<Rightarrow> valuedPool list \<Rightarrow> f64 gomap \<Rightarrow> f64 gomap" where
  "relax 0 vps prices = prices"
| "relax (Suc n) vps prices =
     (let best = foldl (quotePool prices) [] vps in
      if best = [] then prices else relax n vps (foldl adopt prices best))"

definition priceTokens :: "valuedPool list \<Rightarrow> seedToken gomap \<Rightarrow> f64 gomap" where
  "priceTokens vps tokens =
     (let prices = anchors tokens in if prices = [] then prices else relax priceRelaxRounds vps prices)"

section \<open>Trades\<close>

record trade =
  tdId :: string
  tdTs :: int
  tdBlock :: "64 word"
  tdDated :: bool
  tdPool :: string
  tdT0 :: string
  tdT1 :: string
  tdAmt0 :: f64
  tdAmt1 :: f64
  tdUsd0 :: f64
  tdUsd1 :: f64
  tdOk0 :: bool
  tdOk1 :: bool

definition usdOf :: "trade \<Rightarrow> f64 option" where
  "usdOf t =
     (if tdOk0 t \<and> tdOk1 t then Some (fdiv (fadd (tdUsd0 t) (tdUsd1 t)) (Fin 2))
      else if tdOk0 t then Some (tdUsd0 t)
      else if tdOk1 t then Some (tdUsd1 t) else None)"

definition swapLeg :: "string \<Rightarrow> string \<Rightarrow> seedToken gomap \<Rightarrow> f64 gomap \<Rightarrow> f64 \<times> f64 \<times> bool" where
  "swapLeg raw tok tokens prices =
     (if raw = '''' then (Fin 0, Fin 0, False)
      else case setString 10 raw of
             (n, False) \<Rightarrow> (Fin 0, Fin 0, False)
           | (n, True) \<Rightarrow>
               (let n' = (if n \<ge> 2 ^ 255 then n - 2 ^ 256 else n); amt = normalizeAmt \<bar>n'\<bar> (decimalsOf tok tokens)
                in case getKey prices tok of
                     None \<Rightarrow> (amt, Fin 0, False)
                   | Some price \<Rightarrow> (amt, fmul amt price, True)))"

definition usdLeg :: "f64 \<Rightarrow> string \<Rightarrow> f64 gomap \<Rightarrow> f64 option" where
  "usdLeg bal tok prices = map_option (fmul bal) (getKey prices tok)"

text \<open>A missing key of a map of floats reads as zero.\<close>

definition getF :: "f64 gomap \<Rightarrow> string \<Rightarrow> f64" where
  "getF m k = (case getKey m k of Some v \<Rightarrow> v | None \<Rightarrow> Fin 0)"

definition addF :: "string \<Rightarrow> f64 \<Rightarrow> f64 gomap \<Rightarrow> f64 gomap" where
  "addF k v m = putKey k (fadd (getF m k) v) m"

text \<open>The volume per pool and the worth of each trade.\<close>

definition valueTrade :: "f64 gomap \<times> string gomap \<Rightarrow> trade \<Rightarrow> f64 gomap \<times> string gomap" where
  "valueTrade st t =
     (case usdOf t of
        None \<Rightarrow> st
      | Some usd \<Rightarrow> (addF (tdPool t) usd (fst st), putKey (tdId t) (fmtUSD usd) (snd st)))"

definition valueSwaps :: "trade list \<Rightarrow> valuedPool list \<Rightarrow> f64 gomap \<times> string gomap" where
  "valueSwaps trades vps =
     foldl valueTrade (foldl (\<lambda>m vp. putKey (vpId vp) (Fin 0) m) [] vps, []) trades"

section \<open>All-time volume\<close>

definition dollars :: "string \<Rightarrow> f64" where
  "dollars s = (case parseFloat s of Some (Fin x) \<Rightarrow> Fin x | _ \<Rightarrow> Fin 0)"

definition addTraded :: "(int \<times> f64) gomap \<Rightarrow> string \<times> seedSwap \<Rightarrow> (int \<times> f64) gomap" where
  "addTraded out kv =
     (let k = toLower (swPool (snd kv)); t = (case getKey out k of Some t \<Rightarrow> t | None \<Rightarrow> (0, Fin 0))
      in putKey k (fst t + 1, fadd (snd t) (dollars (swAmountUSD (snd kv)))) out)"

definition TradedByPool :: "store \<Rightarrow> (int \<times> f64) gomap" where
  "TradedByPool s = foldl addTraded [] (dbSwaps s)"

definition publishAnchor :: "string \<Rightarrow> f64 gomap \<Rightarrow> store \<Rightarrow> f64 \<times> store" where
  "publishAnchor native prices s =
     (let usd = getF prices native in
      if fle usd (Fin 0) then (Fin 0, s) else (usd, SeedBundle ''1'' \<lparr>sbEthPriceUSD = fmtPrice usd\<rparr> s))"

section \<open>Where a price comes from\<close>

definition live :: "valuedPool \<Rightarrow> bool" where
  "live vp \<longleftrightarrow> \<not> fle (vpBal0 vp) (Fin 0) \<and> \<not> fle (vpBal1 vp) (Fin 0)"

definition quoteOf :: "f64 \<Rightarrow> f64 \<Rightarrow> f64 \<Rightarrow> quote" where
  "quoteOf bal p other = \<lparr>qtPrice = fdiv (fmul bal p) other, qtDepth = fmul bal p\<rparr>"

text \<open>The quotes one round takes for a token: one per live pool whose other side has a price.\<close>

definition cand :: "f64 gomap \<Rightarrow> valuedPool \<Rightarrow> (string \<times> quote) option" where
  "cand prices vp =
     (if \<not> live vp then None
      else case (getKey prices (vpT0 vp), getKey prices (vpT1 vp)) of
             (Some p0, None) \<Rightarrow> Some (vpT1 vp, quoteOf (vpBal0 vp) p0 (vpBal1 vp))
           | (None, Some p1) \<Rightarrow> Some (vpT0 vp, quoteOf (vpBal1 vp) p1 (vpBal0 vp))
           | _ \<Rightarrow> None)"

definition quotesFor :: "f64 gomap \<Rightarrow> valuedPool list \<Rightarrow> string \<Rightarrow> quote list" where
  "quotesFor prices vps a = map snd (filter (\<lambda>aq. fst aq = a) (List.map_filter (cand prices) vps))"

lemma quotePool_cand:
  "quotePool prices best vp = (case cand prices vp of None \<Rightarrow> best | Some (a, q) \<Rightarrow> offer a q best)"
  by (auto simp: quotePool_def cand_def live_def quoteOf_def Let_def split: option.splits)

lemma quotesFor_simps [simp]:
  "quotesFor prices [] a = []"
  "quotesFor prices (vps @ [vp]) a =
     quotesFor prices vps a @ (case cand prices vp of Some (b, q) \<Rightarrow> if b = a then [q] else [] | None \<Rightarrow> [])"
  by (auto simp: quotesFor_def map_filter_def split: option.splits)

lemma quotesFor_unpriced: "q \<in> set (quotesFor prices vps a) \<Longrightarrow> getKey prices a = None"
  by (auto simp: quotesFor_def map_filter_def cand_def split: option.splits if_splits)

definition deepest :: "quote list \<Rightarrow> quote \<Rightarrow> bool" where
  "deepest qs w \<longleftrightarrow> w \<in> set qs \<and> (\<forall>q \<in> set qs. \<not> fless (qtDepth w) (qtDepth q))"

lemma offer_other: "b \<noteq> a \<Longrightarrow> getKey (offer b q best) a = getKey best a"
  by (simp add: offer_def split: option.splits)

lemma deepest_first: "deepest [q] q"
  by (cases "qtDepth q") (simp_all add: deepest_def)

lemma deepest_more:
  "deepest qs w \<Longrightarrow> deepest (qs @ [q]) (if fless (qtDepth w) (qtDepth q) then q else w)"
  using fless_trans[of "qtDepth w" "qtDepth q"] deepest_first[of q] by (auto simp: deepest_def)

lemma round_deepest:
  "case getKey (foldl (quotePool prices) [] vps) a of
     None \<Rightarrow> quotesFor prices vps a = []
   | Some w \<Rightarrow> deepest (quotesFor prices vps a) w"
proof (induction vps rule: rev_induct)
  case (snoc vp vps)
  let ?best = "foldl (quotePool prices) [] vps"
  show ?case
  proof (cases "cand prices vp")
    case None
    then show ?thesis using snoc by (simp add: quotePool_cand[of _ _ vp] split: option.splits)
  next
    case (Some bq)
    then obtain b q where bq: "cand prices vp = Some (b, q)" by (cases bq) auto
    have step: "foldl (quotePool prices) [] (vps @ [vp]) = offer b q ?best" by (simp add: quotePool_cand[of _ _ vp] bq)
    show ?thesis
    proof (cases "b = a")
      case False
      then show ?thesis using snoc bq by (simp add: step offer_other split: option.splits del: foldl_append)
    next
      case True
      show ?thesis
      proof (cases "getKey ?best a")
        case None
        then show ?thesis using snoc bq True by (simp add: step offer_def deepest_first del: foldl_append)
      next
        case (Some w)
        then have "deepest (quotesFor prices vps a @ [q]) (if fless (qtDepth w) (qtDepth q) then q else w)"
          using snoc by (simp add: deepest_more)
        then show ?thesis using bq True Some by (auto simp: step offer_def simp del: foldl_append split: if_splits)
      qed
    qed
  qed
qed (simp add: getKey_def)

lemma deepest_pool:
  "(\<forall>w. getKey (foldl (quotePool prices) [] vps) a = Some w \<longrightarrow>
      deepest (quotesFor prices vps a) w \<and> getKey prices a = None) \<and>
   (getKey (foldl (quotePool prices) [] vps) a = None \<longleftrightarrow> quotesFor prices vps a = [])"
  using round_deepest[of prices vps a] quotesFor_unpriced[of _ prices vps a]
  by (auto simp: deepest_def split: option.splits)

text \<open>In one round of pricing a token takes the quote of the deepest live pool whose other side has a price, and only
a token without a price takes one.\<close>

theorem deepest_pool_quotes:
  "case getKey (foldl (quotePool prices) [] vps) a of
     None \<Rightarrow> quotesFor prices vps a = []
   | Some w \<Rightarrow> deepest (quotesFor prices vps a) w \<and> getKey prices a = None"
  using deepest_pool[of prices vps a] by (simp split: option.splits)

section \<open>Rounds\<close>

text \<open>A price that is one at a stable coin, or the quote of a live pool from such a price, \<open>n\<close> pools away.\<close>

inductive quoted :: "valuedPool list \<Rightarrow> seedToken gomap \<Rightarrow> nat \<Rightarrow> string \<Rightarrow> f64 \<Rightarrow> bool"
  for vps tokens where
  stable: "(addr, t) \<in> set tokens \<Longrightarrow> isStable t \<Longrightarrow> quoted vps tokens 0 (toLower addr) (Fin 1)"
| first: "quoted vps tokens n (vpT0 vp) p \<Longrightarrow> vp \<in> set vps \<Longrightarrow> live vp \<Longrightarrow>
    quoted vps tokens (Suc n) (vpT1 vp) (qtPrice (quoteOf (vpBal0 vp) p (vpBal1 vp)))"
| second: "quoted vps tokens n (vpT1 vp) p \<Longrightarrow> vp \<in> set vps \<Longrightarrow> live vp \<Longrightarrow>
    quoted vps tokens (Suc n) (vpT0 vp) (qtPrice (quoteOf (vpBal1 vp) p (vpBal0 vp)))"

text \<open>Connected to a stable coin by at most \<open>n\<close> live pools.\<close>

inductive linked :: "valuedPool list \<Rightarrow> seedToken gomap \<Rightarrow> nat \<Rightarrow> string \<Rightarrow> bool"
  for vps tokens where
  "(addr, t) \<in> set tokens \<Longrightarrow> isStable t \<Longrightarrow> linked vps tokens n (toLower addr)"
| "linked vps tokens n a \<Longrightarrow> vp \<in> set vps \<Longrightarrow> live vp \<Longrightarrow>
    a = vpT0 vp \<and> b = vpT1 vp \<or> a = vpT1 vp \<and> b = vpT0 vp \<Longrightarrow> linked vps tokens (Suc n) b"

text \<open>A quote on the way is no usable price: it overflows, or it underflows to zero.\<close>

definition unusableQuote :: "valuedPool list \<Rightarrow> seedToken gomap \<Rightarrow> bool" where
  "unusableQuote vps tokens \<longleftrightarrow> (\<exists>n a p. quoted vps tokens n a p \<and> \<not> usable p)"

lemma distinct_offer: "distinct (map fst best) \<Longrightarrow> distinct (map fst (offer a q best))"
  by (simp add: offer_def split: option.splits)

lemma distinct_round: "distinct (map fst best) \<Longrightarrow> distinct (map fst (foldl (quotePool prices) best vps))"
  by (induction vps arbitrary: best) (auto simp: quotePool_cand distinct_offer split: option.splits)

lemma getKey_adopts:
  "distinct (map fst best) \<Longrightarrow>
   getKey (foldl adopt prices best) a =
     (case getKey best a of Some q \<Rightarrow> if usable (qtPrice q) then Some (qtPrice q) else getKey prices a
                          | None \<Rightarrow> getKey prices a)"
proof (induction best arbitrary: prices)
  case (Cons bq best)
  obtain b q where bq: "bq = (b, q)" by fastforce
  have "getKey best b = None" using Cons.prems by (simp add: bq getKey_def map_of_eq_None_iff)
  then show ?case using Cons by (auto simp: bq adopt_def getKey_def[of "_ # _"] split: option.splits)
       (auto simp: getKey_def)
qed (simp add: getKey_def)

lemma getKey_round:
  "getKey (foldl adopt prices (foldl (quotePool prices) [] vps)) a =
     (case getKey (foldl (quotePool prices) [] vps) a of
        Some q \<Rightarrow> if usable (qtPrice q) then Some (qtPrice q) else getKey prices a
      | None \<Rightarrow> getKey prices a)"
  by (rule getKey_adopts) (simp add: distinct_round)

lemma getKey_anchors:
  "getKey (anchors tokens) a =
     (if \<exists>(addr, t) \<in> set tokens. isStable t \<and> a = toLower addr then Some (Fin 1) else None)"
proof -
  have "getKey (foldl (\<lambda>ps (addr, t). if isStable t then putKey (toLower addr) (Fin 1) ps else ps) ps tokens) a =
     (if \<exists>(addr, t) \<in> set tokens. isStable t \<and> a = toLower addr then Some (Fin 1) else getKey ps a)" for ps
    by (induction tokens arbitrary: ps) (auto split: if_splits)
  from this[of "[]"] show ?thesis by (simp add: anchors_def getKey_def[of "[]"])
qed

lemma quotesFor_from:
  assumes "q \<in> set (quotesFor prices vps a)"
  shows "\<exists>vp \<in> set vps. live vp \<and>
     ((\<exists>p. getKey prices (vpT0 vp) = Some p \<and> a = vpT1 vp \<and> q = quoteOf (vpBal0 vp) p (vpBal1 vp))
      \<or> (\<exists>p. getKey prices (vpT1 vp) = Some p \<and> a = vpT0 vp \<and> q = quoteOf (vpBal1 vp) p (vpBal0 vp)))"
  using assms by (force simp: quotesFor_def map_filter_def cand_def split: option.splits if_splits)

lemma round_quoted:
  assumes "\<forall>a p. getKey prices a = Some p \<longrightarrow> (\<exists>n \<le> k. quoted vps tokens n a p)"
    and q: "q \<in> set (quotesFor prices vps a)"
  shows "\<exists>n \<le> Suc k. quoted vps tokens n a (qtPrice q)"
proof -
  obtain vp where vp: "vp \<in> set vps" "live vp" and q: "(\<exists>p. getKey prices (vpT0 vp) = Some p \<and> a = vpT1 vp \<and> q = quoteOf (vpBal0 vp) p (vpBal1 vp))
      \<or> (\<exists>p. getKey prices (vpT1 vp) = Some p \<and> a = vpT0 vp \<and> q = quoteOf (vpBal1 vp) p (vpBal0 vp))"
    using quotesFor_from[OF q] by (elim bexE conjE)
  from q show ?thesis
  proof (elim disjE exE conjE)
    fix p assume p: "getKey prices (vpT0 vp) = Some p" "a = vpT1 vp" "q = quoteOf (vpBal0 vp) p (vpBal1 vp)"
    obtain n where "n \<le> k" "quoted vps tokens n (vpT0 vp) p" using assms(1)[rule_format, OF p(1)] by (elim exE conjE)
    then show ?thesis using quoted.first[OF _ vp] p(2,3) by (intro exI[of _ "Suc n"]) simp
  next
    fix p assume p: "getKey prices (vpT1 vp) = Some p" "a = vpT0 vp" "q = quoteOf (vpBal1 vp) p (vpBal0 vp)"
    obtain n where "n \<le> k" "quoted vps tokens n (vpT1 vp) p" using assms(1)[rule_format, OF p(1)] by (elim exE conjE)
    then show ?thesis using quoted.second[OF _ vp] p(2,3) by (intro exI[of _ "Suc n"]) simp
  qed
qed

lemma upto_mono: "\<exists>n \<le> (k :: nat). P n \<Longrightarrow> k \<le> m \<Longrightarrow> \<exists>n \<le> m. P n"
  by (meson order_trans)

lemma relax_sound:
  assumes "\<forall>a p. getKey prices a = Some p \<longrightarrow> (\<exists>n \<le> k. quoted vps tokens n a p) \<and> usable p"
    and "getKey (relax m vps prices) a = Some p"
  shows "(\<exists>n \<le> k + m. quoted vps tokens n a p) \<and> usable p"
  using assms
proof (induction m arbitrary: prices k)
  case (Suc m)
  let ?best = "foldl (quotePool prices) [] vps"
  show ?case
  proof (cases "?best = []")
    case True
    then have "getKey prices a = Some p" using Suc.prems(2) by simp
    from Suc.prems(1)[rule_format, OF this] show ?thesis by (simp add: upto_mono[of k _ "Suc (k + m)"])
  next
    case False
    have "(\<exists>n \<le> Suc k. quoted vps tokens n a p) \<and> usable p" if g: "getKey (foldl adopt prices ?best) a = Some p" for a p
    proof (cases "getKey ?best a")
      case None
      then have "getKey prices a = Some p" using g by (simp add: getKey_round)
      from Suc.prems(1)[rule_format, OF this] show ?thesis by (simp add: upto_mono[of k _ "Suc k"])
    next
      case (Some q)
      then have "q \<in> set (quotesFor prices vps a)" "getKey prices a = None"
        using deepest_pool[of prices vps a] by (auto simp: deepest_def)
      moreover have "\<forall>a p. getKey prices a = Some p \<longrightarrow> (\<exists>n \<le> k. quoted vps tokens n a p)" using Suc.prems(1) by simp
      ultimately have "\<exists>n \<le> Suc k. quoted vps tokens n a (qtPrice q)" by (intro round_quoted)
      then show ?thesis using g Some \<open>getKey prices a = None\<close> by (auto simp: getKey_round split: if_splits)
    qed
    then show ?thesis using Suc.IH[of "foldl adopt prices ?best" "Suc k"] Suc.prems(2) False by simp
  qed
qed auto

lemma linked_mono: "linked vps tokens n a \<Longrightarrow> n \<le> m \<Longrightarrow> linked vps tokens m a"
proof (induction n a arbitrary: m rule: linked.induct)
  case (2 n a vp b)
  then obtain m' where "m = Suc m'" "n \<le> m'" by (cases m) auto
  then show ?case using 2 linked.intros(2) by blast
qed (rule linked.intros(1))

definition soundPrices :: "valuedPool list \<Rightarrow> seedToken gomap \<Rightarrow> f64 gomap \<Rightarrow> bool" where
  "soundPrices vps tokens prices \<longleftrightarrow> (\<forall>a p. getKey prices a = Some p \<longrightarrow> (\<exists>n. quoted vps tokens n a p))"

lemma soundPrices_quote:
  assumes "soundPrices vps tokens prices" "q \<in> set (quotesFor prices vps a)"
  shows "\<exists>n. quoted vps tokens n a (qtPrice q)"
  using quotesFor_from[OF assms(2)] assms(1) unfolding soundPrices_def
  by (elim bexE conjE disjE exE) (metis quoted.first, metis quoted.second)

lemma soundPrices_round:
  assumes s: "soundPrices vps tokens prices"
  shows "soundPrices vps tokens (foldl adopt prices (foldl (quotePool prices) [] vps))"
  unfolding soundPrices_def
proof (intro allI impI)
  fix a p assume g: "getKey (foldl adopt prices (foldl (quotePool prices) [] vps)) a = Some p"
  show "\<exists>n. quoted vps tokens n a p"
  proof (cases "getKey (foldl (quotePool prices) [] vps) a")
    case None
    then show ?thesis using g s by (simp add: getKey_round soundPrices_def)
  next
    case (Some q)
    then have q: "q \<in> set (quotesFor prices vps a)" "getKey prices a = None"
      using deepest_pool[of prices vps a] by (auto simp: deepest_def)
    show ?thesis using soundPrices_quote[OF s q(1)] g q(2) Some by (auto simp: getKey_round split: if_splits)
  qed
qed

lemma neighbour_quoted:
  assumes "vp \<in> set vps" "live vp" "b = vpT0 vp \<and> a = vpT1 vp \<or> b = vpT1 vp \<and> a = vpT0 vp"
    and "getKey prices b \<noteq> None" "getKey prices a = None"
  shows "quotesFor prices vps a \<noteq> []"
proof -
  obtain q where "cand prices vp = Some (a, q)" using assms by (auto simp: cand_def)
  then have "(a, q) \<in> set (List.map_filter (cand prices) vps)" using assms(1) by (force simp: map_filter_def)
  then show ?thesis by (simp add: quotesFor_def filter_empty_conv) (auto intro: bexI[of _ "(a, q)"])
qed

lemma round_complete:
  assumes u: "\<not> unusableQuote vps tokens" and s: "soundPrices vps tokens prices"
    and k: "\<forall>a. linked vps tokens k a \<longrightarrow> getKey prices a \<noteq> None" and c: "linked vps tokens (Suc k) a"
  shows "getKey (foldl adopt prices (foldl (quotePool prices) [] vps)) a \<noteq> None"
proof (cases "getKey prices a")
  case (Some p)
  then have "getKey (foldl (quotePool prices) [] vps) a = None" using deepest_pool[of prices vps a] by fastforce
  then show ?thesis using Some by (simp add: getKey_round)
next
  case None
  from c have "quotesFor prices vps a \<noteq> []"
  proof (cases rule: linked.cases)
    case (2 b vp)
    then show ?thesis using neighbour_quoted[of vp vps b a prices] None k by auto
  qed (use None k linked.intros(1) in blast)
  then obtain w where w: "getKey (foldl (quotePool prices) [] vps) a = Some w" "w \<in> set (quotesFor prices vps a)"
    using deepest_pool[of prices vps a] by (auto simp: deepest_def)
  then have "usable (qtPrice w)" using soundPrices_quote[OF s w(2)] u by (auto simp: unusableQuote_def)
  then show ?thesis using w by (simp add: getKey_round)
qed

lemma fixpoint_complete:
  assumes "foldl (quotePool prices) [] vps = []" "linked vps tokens n a"
    and "\<forall>a. linked vps tokens 0 a \<longrightarrow> getKey prices a \<noteq> None"
  shows "getKey prices a \<noteq> None"
  using assms(2,1,3)
proof (induction n a rule: linked.induct)
  case (2 n a vp b)
  then have "quotesFor prices vps b = []" using deepest_pool[of prices vps b] by (simp add: getKey_def)
  then show ?case using neighbour_quoted[of vp vps a b prices] 2 by auto
qed (use linked.intros(1) in blast)

lemma relax_complete:
  assumes u: "\<not> unusableQuote vps tokens" and "soundPrices vps tokens prices"
    and "\<forall>a. linked vps tokens k a \<longrightarrow> getKey prices a \<noteq> None" and "linked vps tokens (k + m) a"
  shows "getKey (relax m vps prices) a \<noteq> None"
  using assms(2-)
proof (induction m arbitrary: prices k)
  case (Suc m)
  let ?next = "foldl adopt prices (foldl (quotePool prices) [] vps)"
  show ?case
  proof (cases "foldl (quotePool prices) [] vps = []")
    case True
    moreover have "\<forall>a. linked vps tokens 0 a \<longrightarrow> getKey prices a \<noteq> None"
      using Suc.prems(2) linked_mono by blast
    ultimately show ?thesis using fixpoint_complete[OF _ Suc.prems(3)] by simp
  next
    case False
    have "\<forall>a. linked vps tokens (Suc k) a \<longrightarrow> getKey ?next a \<noteq> None"
      using round_complete[OF u Suc.prems(1,2)] by blast
    then show ?thesis using False Suc.IH[OF soundPrices_round[OF Suc.prems(1)], of "Suc k"] Suc.prems(3) by simp
  qed
qed simp

lemma quoted_linked: "quoted vps tokens n a p \<Longrightarrow> linked vps tokens n a"
  by (induction rule: quoted.induct) (auto intro: linked.intros)

lemma priceTokens_relax: "priceTokens vps tokens = relax priceRelaxRounds vps (anchors tokens)"
proof -
  have "cand [] vp = None" for vp by (simp add: cand_def getKey_def)
  then have "foldl (quotePool []) [] vps = []" by (induction vps) (simp_all add: quotePool_cand)
  then have "relax n vps [] = []" for n by (cases n) simp_all
  then show ?thesis by (simp add: priceTokens_def Let_def)
qed

lemma priceTokens_sound:
  assumes "getKey (priceTokens vps tokens) a = Some p"
  shows "(\<exists>n \<le> 6. quoted vps tokens n a p) \<and> usable p"
proof -
  have "\<forall>a p. getKey (anchors tokens) a = Some p \<longrightarrow> (\<exists>n \<le> 0. quoted vps tokens n a p) \<and> usable p"
    by (auto simp: getKey_anchors usable_def intro: quoted.stable split: if_splits)
  from relax_sound[OF this] assms show ?thesis by (simp add: priceTokens_relax priceRelaxRounds_def)
qed

lemma priceTokens_complete:
  assumes "\<not> unusableQuote vps tokens" "linked vps tokens n a" "n \<le> 6"
  shows "getKey (priceTokens vps tokens) a \<noteq> None"
proof -
  have "soundPrices vps tokens (anchors tokens)"
    by (auto simp: soundPrices_def getKey_anchors intro: quoted.stable split: if_splits)
  moreover have "getKey (anchors tokens) a \<noteq> None" if "linked vps tokens 0 a" for a
    using that by (cases rule: linked.cases) (auto simp: getKey_anchors)
  moreover have "linked vps tokens (0 + 6) a" using linked_mono[OF assms(2,3)] by simp
  ultimately show ?thesis
    using relax_complete[OF assms(1), of "anchors tokens" 0 6 a] by (simp add: priceTokens_relax priceRelaxRounds_def)
qed


text \<open>A leg of a trade that an older build stored through an unsigned decode is worth what the signed leg is: any signed
256-bit amount and its two's complement give the same amount, the same value and the same verdict.\<close>

theorem unsigned_leg_healed:
  assumes "- (2 ^ 255) \<le> n" "n < 2 ^ 255"
  shows "swapLeg (intText 10 (n mod 2 ^ 256)) tok tokens prices = swapLeg (intText 10 n) tok tokens prices"
proof -
  have r: "setString 10 (intText 10 m) = (m, True)" for m
    by (rule setString_intText) simp_all
  have ne: "intText 10 m \<noteq> ''''" for m by (simp add: intText_def)
  have m: "(if n mod 2 ^ 256 \<ge> 2 ^ 255 then n mod 2 ^ 256 - 2 ^ 256 else n mod 2 ^ 256) = n"
  proof (cases "n < 0")
    case True
    then have "(n + 2 ^ 256) mod 2 ^ 256 = n + 2 ^ 256" using assms by (intro mod_pos_pos_trivial) simp_all
    then show ?thesis using True assms by simp
  qed (use assms in \<open>simp add: mod_pos_pos_trivial\<close>)
  have s: "(if n \<ge> 2 ^ 255 then n - 2 ^ 256 else n) = n" using assms by simp
  show ?thesis unfolding swapLeg_def r Let_def prod.case bool.case m s using ne by simp
qed

section \<open>An example\<close>

definition exCoin :: "string \<Rightarrow> seedToken" where
  "exCoin nm = \<lparr>stSymbol = nm, stName = nm, stDecimals = 6, stTotalSupply = '''', stStaked = '''', stVolumeUSD = '''',
     stTotalValueLockedUSD = '''', stDerivedETH = '''', stTxCount = 0\<rparr>"

definition exCoins :: "seedToken gomap" where "exCoins = [(''s'', exCoin ''usdc''), (''x'', exCoin ''X'')]"

definition exValued :: "string \<Rightarrow> int \<Rightarrow> int \<Rightarrow> valuedPool" where
  "exValued i b0 b1 = \<lparr>vpId = i, vpT0 = ''s'', vpT1 = ''x'', vpBal0 = Fin (of_int b0), vpBal1 = Fin (of_int b1),
     vpHeld0 = True, vpHeld1 = True\<rparr>"

lemma exCoins_stable: "(addr, t) \<in> set exCoins \<and> isStable t \<longleftrightarrow> addr = ''s'' \<and> t = exCoin ''usdc''"
proof -
  have "isStable (exCoin ''usdc'')" "\<not> isStable (exCoin ''X'')" by code_simp+
  then show ?thesis by (auto simp: exCoins_def)
qed

lemma exAnchors: "anchors exCoins = [(''s'', Fin 1)]"
proof -
  have "isStable (exCoin ''usdc'')" "\<not> isStable (exCoin ''X'')" by code_simp+
  moreover have "toLower ''s'' = ''s''" by code_simp
  ultimately show ?thesis by (simp add: anchors_def exCoins_def putKey_def)
qed

lemma quoteOf_int:
  assumes "\<bar>b * p\<bar> < 2 ^ 53" "b * p = q * d" "\<bar>q\<bar> < 2 ^ 53" "d \<noteq> 0"
  shows "quoteOf (Fin (of_int b)) (Fin (of_int p)) (Fin (of_int d)) = \<lparr>qtPrice = Fin (of_int q), qtDepth = Fin (of_int (b * p))\<rparr>"
proof -
  have "toF64 (of_int b * of_int p) = Fin (of_int (b * p))" using toF64_int[OF assms(1)] by simp
  moreover have "(of_int (b * p) / of_int d :: rat) = of_int q" using assms(2,4) by (simp add: field_simps flip: of_int_mult)
  ultimately show ?thesis using assms(4) toF64_int[OF assms(3)] by (simp add: quoteOf_def)
qed

lemma exPrices:
  "priceTokens [exValued ''p'' 2 1, exValued ''q'' 2 2] exCoins = [(''s'', Fin 1), (''x'', Fin 2)]"
  "priceTokens [exValued ''q'' 2 2, exValued ''p'' 2 1] exCoins = [(''s'', Fin 1), (''x'', Fin 1)]"
proof -
  have q: "quoteOf (Fin 2) (Fin 1) (Fin 1) = \<lparr>qtPrice = Fin 2, qtDepth = Fin 2\<rparr>"
      "quoteOf (Fin 2) (Fin 1) (Fin 2) = \<lparr>qtPrice = Fin 1, qtDepth = Fin 2\<rparr>"
    using quoteOf_int[of 2 1 2 1] quoteOf_int[of 2 1 1 2] by simp_all
  have c: "cand [(''s'', Fin 1)] (exValued i 2 1) = Some (''x'', \<lparr>qtPrice = Fin 2, qtDepth = Fin 2\<rparr>)"
      "cand [(''s'', Fin 1)] (exValued i 2 2) = Some (''x'', \<lparr>qtPrice = Fin 1, qtDepth = Fin 2\<rparr>)"
      "0 < r \<Longrightarrow> cand [(''s'', Fin 1), (''x'', Fin r)] (exValued i a b) = None" for i a b r
    by (simp_all add: cand_def exValued_def live_def fle_def getKey_def q)
  show "priceTokens [exValued ''p'' 2 1, exValued ''q'' 2 2] exCoins = [(''s'', Fin 1), (''x'', Fin 2)]"
    "priceTokens [exValued ''q'' 2 2, exValued ''p'' 2 1] exCoins = [(''s'', Fin 1), (''x'', Fin 1)]"
    by (simp_all add: priceTokens_relax priceRelaxRounds_def exAnchors quotePool_cand c offer_def getKey_def[of "[]"]
        numeral_eq_Suc putKey_def adopt_def usable_def getKey_def)
qed

text \<open>Equal depths are settled by the order the pools are visited in, which is the order of a Go map: two pools with the
same depth and different ratios price a token at two or at one, by that order alone.\<close>

theorem tied_pools_price_by_order:
  "getKey (priceTokens [exValued ''p'' 2 1, exValued ''q'' 2 2] exCoins) ''x'' = Some (Fin 2) \<and>
   getKey (priceTokens [exValued ''q'' 2 2, exValued ''p'' 2 1] exCoins) ''x'' = Some (Fin 1)"
  by (simp add: exPrices getKey_def)

theorem unsigned_leg_healed_witness:
  "swapLeg (intText 10 (2 ^ 256 - 5)) ''x'' exCoins [] = swapLeg ''-5'' ''x'' exCoins []"
proof -
  have "(- 5 :: int) mod 2 ^ 256 = 2 ^ 256 - 5" by simp
  moreover have "intText 10 (- 5) = ''-5''" by code_simp
  ultimately show ?thesis using unsigned_leg_healed[of "- 5" "''x''" exCoins "[]"] by simp
qed

lemma exQuoted: "quoted [exValued ''p'' 2 1] exCoins n a p \<Longrightarrow> a = ''s'' \<and> p = Fin 1 \<or> a = ''x'' \<and> p = Fin 2"
proof (induction rule: quoted.induct)
  case (stable addr t)
  have "toLower ''s'' = ''s''" by code_simp
  then show ?case using stable exCoins_stable[of addr t] by simp
next
  case (first n vp p)
  have "quoteOf (Fin 2) (Fin 1) (Fin 1) = \<lparr>qtPrice = Fin 2, qtDepth = Fin 2\<rparr>" using quoteOf_int[of 2 1 2 1] by simp
  then show ?case using first by (auto simp: exValued_def)
next
  case (second n vp p)
  have "quoteOf (Fin 1) (Fin 2) (Fin 2) = \<lparr>qtPrice = Fin 1, qtDepth = Fin 2\<rparr>" using quoteOf_int[of 1 2 1 2] by simp
  then show ?case using second by (auto simp: exValued_def)
qed


end
