(* ===== verification/DaySeries.thy ===== *)
theory DaySeries
  imports Valuation
begin

text \<open>
  The day series, src/indexer/series.go: the stored trades of a pass, valued and put in the chain's order,
  and the fold of them into one cell per subject and UTC day.

  A \<open>days\<close> map is an association list of cells by entity id.  The rows are written as the documents their
  JSON tags give, which is what the store keeps of them.
\<close>

section \<open>Days\<close>

definition dayLength :: int where "dayLength = 86400"

text \<open>\<open>%\<close> and \<open>/\<close> truncate towards zero.\<close>

definition dayStart :: "int \<Rightarrow> int" where
  "dayStart ts = ts - ts smod dayLength"

definition dayID :: "string \<Rightarrow> int \<Rightarrow> string" where
  "dayID subject date = toLower subject @ ''-'' @ intText 10 (date sdiv dayLength)"

section \<open>The trades of a pass\<close>

definition logIndexOf :: "string \<Rightarrow> nat" where
  "logIndexOf i =
     (let h = (case lastIndexByte i (CHR ''#'') of Some k \<Rightarrow> drop (k + 1) i | None \<Rightarrow> i)
      in case parseUint 16 (trimPrefix h ''0x'') of (n, ok) \<Rightarrow> if ok then n else 0)"

definition spanDay :: "int \<times> int \<Rightarrow> string \<times> seedSwap \<Rightarrow> int \<times> int" where
  "spanDay lohi kv =
     (let d = dayStart (swTimestamp (snd kv)) in
      (if fst lohi = 0 \<or> d < fst lohi then d else fst lohi, if d > snd lohi then d else snd lohi))"

definition wholeDays :: "seedSwap gomap \<Rightarrow> nat \<Rightarrow> bool \<Rightarrow> seedSwap gomap" where
  "wholeDays swaps limit oldest =
     (if length swaps < limit then swaps
      else
        (let (lo, hi) = foldl spanDay (0, 0) swaps in
         if lo = hi then swaps
         else filter (\<lambda>(_, sw). dayStart (swTimestamp sw) \<noteq> (if oldest then lo else hi)) swaps))"

definition valuedTrade :: "valuedPool list \<Rightarrow> seedToken gomap \<Rightarrow> f64 gomap \<Rightarrow> string \<times> seedSwap \<Rightarrow> trade option" where
  "valuedTrade vps tokens prices kv =
     (let sw = snd kv in
      case find (\<lambda>vp. vpId vp = toLower (swPool sw)) (rev vps) of
        None \<Rightarrow> None
      | Some vp \<Rightarrow>
          (case swapLeg (swAmount0 sw) (vpT0 vp) tokens prices of
             (a0, u0, ok0) \<Rightarrow>
               (case swapLeg (swAmount1 sw) (vpT1 vp) tokens prices of
                  (a1, u1, ok1) \<Rightarrow>
                    Some \<lparr>tdId = fst kv, tdTs = swTimestamp sw, tdBlock = swBlock sw, tdDated = Dated sw,
                          tdPool = vpId vp, tdT0 = vpT0 vp, tdT1 = vpT1 vp, tdAmt0 = a0, tdAmt1 = a1,
                          tdUsd0 = u0, tdUsd1 = u1, tdOk0 = ok0, tdOk1 = ok1\<rparr>)))"

definition before :: "trade \<Rightarrow> trade \<Rightarrow> bool" where
  "before a b \<longleftrightarrow>
     (if tdTs a \<noteq> tdTs b then tdTs a < tdTs b
      else if tdBlock a \<noteq> tdBlock b then tdBlock a < tdBlock b
      else logIndexOf (tdId a) < logIndexOf (tdId b))"

text \<open>\<open>sort.Slice\<close> is not stable; inserting from the right is one of the orders it may give to trades that
  compare equal.\<close>

fun insertTrade :: "trade \<Rightarrow> trade list \<Rightarrow> trade list" where
  "insertTrade t [] = [t]"
| "insertTrade t (u # us) = (if before u t then u # insertTrade t us else t # u # us)"

definition sortTrades :: "trade list \<Rightarrow> trade list" where
  "sortTrades ts = foldr insertTrade ts []"

definition tailReach :: "int \<Rightarrow> string \<times> seedSwap \<Rightarrow> int" where
  "tailReach mark kv = (if swTimestamp (snd kv) > mark then swTimestamp (snd kv) else mark)"

definition windowSwaps :: "store \<Rightarrow> seedSwap gomap \<times> int" where
  "windowSwaps s =
     (let heads = wholeDays (RecentSwapsRaw s maxValuedSwaps) maxValuedSwaps True;
          rest = wholeDays (SwapsAfter s (PricedThrough s) maxValuedSwaps) maxValuedSwaps False
      in (foldl (\<lambda>m (k, sw). putKey k sw m) heads rest, foldl tailReach 0 rest))"

definition valuedTrades :: "valuedPool list \<Rightarrow> seedToken gomap \<Rightarrow> f64 gomap \<Rightarrow> store \<Rightarrow> trade list \<times> int" where
  "valuedTrades vps tokens prices s =
     (let (swaps, mark) = windowSwaps s in
      (sortTrades (List.map_filter (valuedTrade vps tokens prices) swaps), mark))"

section \<open>Cells\<close>

record cell =
  clSubject :: string
  clDate :: int
  clVolume :: f64
  clVolumeUSD :: f64
  clTxCount :: int
  clOpen :: f64
  clHigh :: f64
  clLow :: f64
  clClose :: f64
  clPriced :: bool
  clLocked :: f64
  clLockedUSD :: f64
  clHeld :: bool

definition newCell :: "string \<Rightarrow> int \<Rightarrow> cell" where
  "newCell subject date =
     \<lparr>clSubject = subject, clDate = date, clVolume = Fin 0, clVolumeUSD = Fin 0, clTxCount = 0, clOpen = Fin 0,
      clHigh = Fin 0, clLow = Fin 0, clClose = Fin 0, clPriced = False, clLocked = Fin 0, clLockedUSD = Fin 0,
      clHeld = False\<rparr>"

definition observe :: "f64 \<Rightarrow> cell \<Rightarrow> cell" where
  "observe price c0 =
     (if fle price (Fin 0) \<or> isNaN price \<or> isInf price then c0
      else
        (let c1 = (if \<not> clPriced c0 then c0\<lparr>clOpen := price, clHigh := price, clLow := price, clPriced := True\<rparr> else c0);
             c2 = (if fless (clHigh c1) price then c1\<lparr>clHigh := price\<rparr> else c1);
             c3 = (if fless price (clLow c2) then c2\<lparr>clLow := price\<rparr> else c2)
         in c3\<lparr>clClose := price\<rparr>))"

definition emptyCell :: "cell \<Rightarrow> bool" where
  "emptyCell c \<longleftrightarrow> \<not> clPriced c \<and> feq (clVolumeUSD c) (Fin 0) \<and> \<not> clHeld c"

text \<open>\<open>at\<close> finds or makes the cell of the day; what the caller then does to it is \<open>f\<close>.\<close>

definition atDay :: "string \<Rightarrow> int \<Rightarrow> (cell \<Rightarrow> cell) \<Rightarrow> cell gomap \<Rightarrow> cell gomap" where
  "atDay subject ts f d =
     (let date = dayStart ts; i = dayID subject date;
          c = (case getKey d i of Some c \<Rightarrow> c | None \<Rightarrow> newCell subject date)
      in putKey i (f c) d)"

record snapshot =
  snNow :: int
  snTrades :: "trade list"
  snPrices :: "f64 gomap"
  snRatio :: "f64 gomap"
  snPoolTVL :: "f64 gomap"
  snTokenTVL :: "f64 gomap"
  snTokenBal :: "f64 gomap"
  snPools :: "seedPool gomap"
  snTokens :: "seedToken gomap"

record allDays =
  dyTokens :: "cell gomap"
  dyPools :: "cell gomap"
  dyFactory :: "cell gomap"

definition factorySubject :: string where "factorySubject = ''1''"

definition bump :: "f64 \<Rightarrow> cell \<Rightarrow> cell" where
  "bump usd c = c\<lparr>clTxCount := clTxCount c + 1, clVolumeUSD := fadd (clVolumeUSD c) usd\<rparr>"

definition poolCell :: "trade \<Rightarrow> f64 \<Rightarrow> cell \<Rightarrow> cell" where
  "poolCell t usd c =
     (let c1 = bump usd c in
      if fless (Fin 0) (tdAmt1 t) then observe (fdiv (tdAmt0 t) (tdAmt1 t)) c1 else c1)"

text \<open>A token's side of a trade: its own amount and value, and the other side's value for the price.\<close>

definition tokenCell :: "f64 \<Rightarrow> bool \<Rightarrow> f64 \<Rightarrow> bool \<Rightarrow> f64 \<Rightarrow> cell \<Rightarrow> cell" where
  "tokenCell amt ok usd okOther usdOther c =
     (let c1 = c\<lparr>clVolume := fadd (clVolume c) amt\<rparr>;
          c2 = (if ok then c1\<lparr>clVolumeUSD := fadd (clVolumeUSD c1) usd\<rparr> else c1)
      in if okOther \<and> fless (Fin 0) amt then observe (fdiv usdOther amt) c2 else c2)"

definition rollTrade :: "allDays \<Rightarrow> trade \<Rightarrow> allDays" where
  "rollTrade d t =
     (if \<not> tdDated t then d
      else
        (let usd = (case usdOf t of Some v \<Rightarrow> v | None \<Rightarrow> Fin 0) in
         \<lparr>dyTokens =
            atDay (tdT1 t) (tdTs t) (tokenCell (tdAmt1 t) (tdOk1 t) (tdUsd1 t) (tdOk0 t) (tdUsd0 t))
              (atDay (tdT0 t) (tdTs t) (tokenCell (tdAmt0 t) (tdOk0 t) (tdUsd0 t) (tdOk1 t) (tdUsd1 t)) (dyTokens d)),
          dyPools = atDay (tdPool t) (tdTs t) (poolCell t usd) (dyPools d),
          dyFactory = atDay factorySubject (tdTs t) (bump usd) (dyFactory d)\<rparr>))"

definition stampPool :: "snapshot \<Rightarrow> cell gomap \<times> f64 \<Rightarrow> string \<times> f64 \<Rightarrow> cell gomap \<times> f64" where
  "stampPool s st pt =
     (atDay (fst pt) (snNow s)
        (\<lambda>c. observe (getF (snRatio s) (fst pt)) (c\<lparr>clLockedUSD := snd pt, clHeld := True\<rparr>)) (fst st),
      fadd (snd st) (snd pt))"

definition rollDays :: "snapshot \<Rightarrow> allDays" where
  "rollDays s =
     (let d = foldl rollTrade \<lparr>dyTokens = [], dyPools = [], dyFactory = []\<rparr> (snTrades s);
          (pools, totalTVL) = foldl (stampPool s) (dyPools d, Fin 0) (snPoolTVL s);
          tokens1 = foldl (\<lambda>m (tok, price). atDay tok (snNow s) (observe price) m) (dyTokens d) (snPrices s);
          tokens2 = foldl (\<lambda>m (tok, tvl). atDay tok (snNow s)
             (\<lambda>c. c\<lparr>clLockedUSD := tvl, clLocked := getF (snTokenBal s) tok, clHeld := True\<rparr>) m) tokens1 (snTokenTVL s)
      in \<lparr>dyTokens = tokens2, dyPools = pools,
          dyFactory = atDay factorySubject (snNow s) (\<lambda>c. c\<lparr>clLockedUSD := totalTVL, clHeld := True\<rparr>) (dyFactory d)\<rparr>)"

section \<open>Rows\<close>

definition fmtAmount :: "f64 \<Rightarrow> string" where
  "fmtAmount v = (case v of Fin x \<Rightarrow> generalText x | _ \<Rightarrow> ''0'')"

definition heldText :: "bool \<Rightarrow> string \<Rightarrow> string" where
  "heldText observed v = (if observed then v else '''')"

definition tokenDoc :: "string \<Rightarrow> string \<Rightarrow> string \<Rightarrow> int \<Rightarrow> string \<Rightarrow> string \<Rightarrow> string \<Rightarrow> int \<Rightarrow> val" where
  "tokenDoc i symb nm decs volUSD tvlUSD derived txs = VMap
     [(''id'', VStr i), (''symbol'', VStr symb), (''name'', VStr nm), (''decimals'', VInt decs),
      (''totalSupply'', VStr ''''), (''volume'', VStr ''''), (''volumeUSD'', VStr volUSD),
      (''untrackedVolumeUSD'', VStr ''''), (''feesUSD'', VStr ''''), (''txCount'', VInt txs), (''poolCount'', VInt 0),
      (''totalValueLocked'', VStr ''''), (''totalValueLockedUSD'', VStr tvlUSD), (''totalLiquidity'', VStr ''''),
      (''derivedETH'', VStr derived), (''tradeVolume'', VStr ''''), (''tradeVolumeUSD'', VStr '''')]"

definition tokenRef :: "string \<Rightarrow> seedToken gomap \<Rightarrow> val" where
  "tokenRef addr tokens =
     (case (case getKey tokens addr of Some t \<Rightarrow> Some t | None \<Rightarrow> getKey tokens (toLower addr)) of
        None \<Rightarrow> tokenDoc addr '''' '''' 0 '''' '''' '''' 0
      | Some t \<Rightarrow> tokenDoc addr (stSymbol t) (stName t) (stDecimals t) (stVolumeUSD t) (stTotalValueLockedUSD t)
                   (stDerivedETH t) (stTxCount t))"

definition poolDoc :: "string \<Rightarrow> val \<Rightarrow> val \<Rightarrow> int \<Rightarrow> val" where
  "poolDoc i t0 t1 fee = VMap
     [(''id'', VStr i), (''createdAtTimestamp'', VInt 0), (''createdAtBlockNumber'', VInt 0), (''token0'', t0),
      (''token1'', t1), (''feeTier'', VInt fee), (''liquidity'', VStr ''''), (''sqrtPrice'', VStr ''''),
      (''token0Price'', VStr ''''), (''token1Price'', VStr ''''), (''tick'', VInt 0), (''volumeToken0'', VStr ''''),
      (''volumeToken1'', VStr ''''), (''volumeUSD'', VStr ''''), (''feesUSD'', VStr ''''), (''txCount'', VInt 0),
      (''totalValueLockedToken0'', VStr ''''), (''totalValueLockedToken1'', VStr ''''),
      (''totalValueLockedETH'', VStr ''''), (''totalValueLockedUSD'', VStr '''')]"

definition poolRefDoc :: "string \<Rightarrow> seedPool gomap \<Rightarrow> seedToken gomap \<Rightarrow> val" where
  "poolRefDoc i pools tokens =
     (case getKey pools i of
        None \<Rightarrow> poolDoc i VNil VNil 0
      | Some p \<Rightarrow> poolDoc i (tokenRef (toLower (spToken0 p)) tokens) (tokenRef (toLower (spToken1 p)) tokens) (spFeeTier p))"

definition tokenDayRow :: "snapshot \<Rightarrow> cell \<Rightarrow> val" where
  "tokenDayRow s c = VMap
     [(''id'', VStr (dayID (clSubject c) (clDate c))), (''date'', VInt (clDate c)),
      (''token'', tokenRef (clSubject c) (snTokens s)), (''volume'', VStr (fmtAmount (clVolume c))),
      (''volumeUSD'', VStr (fmtUSD (clVolumeUSD c))),
      (''totalValueLocked'', VStr (heldText (clHeld c) (fmtAmount (clLocked c)))),
      (''totalValueLockedUSD'', VStr (heldText (clHeld c) (fmtUSD (clLockedUSD c)))),
      (''priceUSD'', VStr (fmtPrice (clClose c))), (''open'', VStr (fmtPrice (clOpen c))),
      (''high'', VStr (fmtPrice (clHigh c))), (''low'', VStr (fmtPrice (clLow c))),
      (''close'', VStr (fmtPrice (clClose c)))]"

definition poolDayRow :: "snapshot \<Rightarrow> cell \<Rightarrow> val" where
  "poolDayRow s c = VMap
     [(''id'', VStr (dayID (clSubject c) (clDate c))), (''date'', VInt (clDate c)),
      (''pool'', poolRefDoc (clSubject c) (snPools s) (snTokens s)), (''liquidity'', VStr ''''),
      (''volumeUSD'', VStr (fmtUSD (clVolumeUSD c))), (''feesUSD'', VStr ''''),
      (''tvlUSD'', VStr (heldText (clHeld c) (fmtUSD (clLockedUSD c)))), (''txCount'', VInt (clTxCount c)),
      (''open'', VStr (fmtPrice (clOpen c))), (''high'', VStr (fmtPrice (clHigh c))),
      (''low'', VStr (fmtPrice (clLow c))), (''close'', VStr (fmtPrice (clClose c)))]"

definition factoryDayRow :: "cell \<Rightarrow> val" where
  "factoryDayRow c = VMap
     [(''id'', VStr (dayID (clSubject c) (clDate c))), (''date'', VInt (clDate c)),
      (''volumeUSD'', VStr (fmtUSD (clVolumeUSD c))),
      (''tvlUSD'', VStr (heldText (clHeld c) (fmtUSD (clLockedUSD c)))), (''txCount'', VInt (clTxCount c))]"

text \<open>\<open>idx.written\<close> remembers the cells behind the rows; \<open>prev == *c\<close> compares floats, so a cell with a NaN
  never equals itself.\<close>

definition sameCell :: "cell \<Rightarrow> cell \<Rightarrow> bool" where
  "sameCell a b \<longleftrightarrow> clSubject a = clSubject b \<and> clDate a = clDate b \<and> clTxCount a = clTxCount b
     \<and> clPriced a = clPriced b \<and> clHeld a = clHeld b \<and> feq (clVolume a) (clVolume b)
     \<and> feq (clVolumeUSD a) (clVolumeUSD b) \<and> feq (clOpen a) (clOpen b) \<and> feq (clHigh a) (clHigh b)
     \<and> feq (clLow a) (clLow b) \<and> feq (clClose a) (clClose b) \<and> feq (clLocked a) (clLocked b)
     \<and> feq (clLockedUSD a) (clLockedUSD b)"

definition putRow :: "string \<Rightarrow> (cell \<Rightarrow> val) \<Rightarrow> cell gomap \<times> store \<Rightarrow> string \<times> cell \<Rightarrow> cell gomap \<times> store" where
  "putRow entityType row ws kc =
     (let c = snd kc; i = dayID (clSubject c) (clDate c); key = entityType @ '':'' @ i in
      if emptyCell c then ws
      else if (case getKey (fst ws) key of Some prev \<Rightarrow> sameCell prev c | None \<Rightarrow> False) then ws
      else (putKey key c (fst ws), SetEntity entityType i (row c) (snd ws)))"

definition writeSeries :: "snapshot \<Rightarrow> cell gomap \<times> store \<Rightarrow> cell gomap \<times> store" where
  "writeSeries s ws =
     (let d = rollDays s;
          ws1 = foldl (putRow ''TokenDayData'' (tokenDayRow s)) ws (dyTokens d);
          ws2 = foldl (putRow ''PoolDayData'' (poolDayRow s)) ws1 (dyPools d)
      in foldl (putRow ''FactoryDayData'' factoryDayRow) ws2 (dyFactory d))"

section \<open>Candles\<close>

definition validPrice :: "f64 \<Rightarrow> bool" where
  "validPrice p \<longleftrightarrow> \<not> (fle p (Fin 0) \<or> isNaN p \<or> isInf p)"

lemma validPrice_Fin: "validPrice p \<longleftrightarrow> (\<exists>x > 0. p = Fin x)"
  by (cases p) (auto simp: validPrice_def fle_def)

text \<open>The candle of a list of prices: the first, the last, one that none exceeds and one that exceeds none.\<close>

definition candleOf :: "f64 list \<Rightarrow> cell \<Rightarrow> bool" where
  "candleOf qs c \<longleftrightarrow>
     (if qs = [] then \<not> clPriced c
      else clPriced c \<and> clOpen c = hd qs \<and> clClose c = last qs
        \<and> clHigh c \<in> set qs \<and> (\<forall>q \<in> set qs. \<not> fless (clHigh c) q)
        \<and> clLow c \<in> set qs \<and> (\<forall>q \<in> set qs. \<not> fless q (clLow c)))"

lemma observe_invalid: "\<not> validPrice p \<Longrightarrow> observe p c = c"
  by (simp add: observe_def validPrice_def)

lemma observe_fields [simp]:
  "clTxCount (observe p c) = clTxCount c" "clVolume (observe p c) = clVolume c" "clVolumeUSD (observe p c) = clVolumeUSD c"
  "clHeld (observe p c) = clHeld c" "clSubject (observe p c) = clSubject c" "clDate (observe p c) = clDate c"
  "clLocked (observe p c) = clLocked c" "clLockedUSD (observe p c) = clLockedUSD c"
  by (simp_all add: observe_def Let_def)

lemma observe_candle:
  assumes "candleOf qs c" "\<forall>q \<in> set qs. validPrice q" "validPrice p"
  shows "candleOf (qs @ [p]) (observe p c)"
proof (cases "qs = []")
  case True
  then show ?thesis using assms by (auto simp: candleOf_def observe_def validPrice_Fin fle_def)
next
  case False
  obtain x where p: "p = Fin x" "x > 0" using assms(3) by (auto simp: validPrice_Fin)
  have c: "clHigh c \<in> set qs" "clLow c \<in> set qs" using assms(1) False by (auto simp: candleOf_def)
  obtain h l where hl: "clHigh c = Fin h" "clLow c = Fin l"
    using c assms(2) unfolding validPrice_Fin by blast
  have b: "y \<le> h \<and> l \<le> y" if "Fin y \<in> set qs" for y
    using assms(1) that False hl by (fastforce simp: candleOf_def)
  have f: "q \<in> set qs \<Longrightarrow> \<exists>y. q = Fin y \<and> l \<le> y \<and> y \<le> h" for q using assms(2) b by (fastforce simp: validPrice_Fin)
  have "Fin h \<in> set qs" "Fin l \<in> set qs" using c hl by simp_all
  then show ?thesis using assms(1) False p hl b[of l]
    by (auto simp: candleOf_def observe_def fle_def Let_def dest!: f)
qed

definition ratioOf :: "trade \<Rightarrow> f64" where
  "ratioOf t = fdiv (tdAmt0 t) (tdAmt1 t)"

text \<open>The prices a pool shows in its trades, in order: the ratio of each that moved the second token.\<close>

definition poolPrices :: "trade list \<Rightarrow> f64 list" where
  "poolPrices ts = filter validPrice (map ratioOf (filter (\<lambda>t. fless (Fin 0) (tdAmt1 t)) ts))"

definition worth :: "trade \<Rightarrow> f64" where
  "worth t = (case usdOf t of Some v \<Rightarrow> v | None \<Rightarrow> Fin 0)"

lemma bump_candle: "candleOf qs (bump usd c) = candleOf qs c"
  by (simp add: bump_def candleOf_def)

lemma pool_cells:
  defines "fill \<equiv> \<lambda>c ts. foldl (\<lambda>c t. poolCell t (worth t) c) c ts"
  shows "clTxCount (fill (newCell p d) ts) = int (length ts) \<and> clVolumeUSD (fill (newCell p d) ts) = foldl fadd (Fin 0) (map worth ts)
    \<and> clSubject (fill (newCell p d) ts) = p \<and> clDate (fill (newCell p d) ts) = d \<and> \<not> clHeld (fill (newCell p d) ts)
    \<and> candleOf (poolPrices ts) (fill (newCell p d) ts)"
proof (induction ts rule: rev_induct)
  case Nil
  show ?case by (simp add: fill_def newCell_def candleOf_def poolPrices_def)
next
  case (snoc t ts)
  have v: "\<forall>q \<in> set (poolPrices ts). validPrice q" by (simp add: poolPrices_def)
  have s: "fill (newCell p d) (ts @ [t]) = poolCell t (worth t) (fill (newCell p d) ts)" by (simp add: fill_def)
  have "poolPrices (ts @ [t]) = poolPrices ts @ (if fless (Fin 0) (tdAmt1 t) \<and> validPrice (ratioOf t) then [ratioOf t] else [])"
    by (simp add: poolPrices_def)
  then have "candleOf (poolPrices (ts @ [t])) (fill (newCell p d) (ts @ [t]))"
    using snoc observe_candle[OF _ v] by (auto simp: s poolCell_def Let_def bump_candle observe_invalid ratioOf_def[symmetric])
  then show ?case using snoc by (simp add: s poolCell_def Let_def) (simp add: bump_def)
qed

section \<open>Days by key\<close>

lemma getKey_atDay:
  "getKey (atDay subject ts f d) i =
     (if i = dayID subject (dayStart ts)
      then Some (f (case getKey d i of Some c \<Rightarrow> c | None \<Rightarrow> newCell subject (dayStart ts))) else getKey d i)"
  by (simp add: atDay_def Let_def)

definition dayKey :: "trade \<Rightarrow> string" where
  "dayKey t = dayID (tdPool t) (dayStart (tdTs t))"

definition poolDayTrades :: "string \<Rightarrow> trade list \<Rightarrow> trade list" where
  "poolDayTrades i ts = filter (\<lambda>t. tdDated t \<and> dayKey t = i) ts"

lemma rollTrade_pools:
  "dyPools (rollTrade d t) = (if tdDated t then atDay (tdPool t) (tdTs t) (poolCell t (worth t)) (dyPools d) else dyPools d)"
  by (simp add: rollTrade_def Let_def worth_def)

lemma roll_pools:
  "getKey (dyPools (foldl rollTrade \<lparr>dyTokens = [], dyPools = [], dyFactory = []\<rparr> ts)) i =
     (let mine = poolDayTrades i ts in
      if mine = [] then None
      else Some (foldl (\<lambda>c t. poolCell t (worth t) c) (newCell (tdPool (hd mine)) (dayStart (tdTs (hd mine)))) mine))"
proof (induction ts rule: rev_induct)
  case (snoc t ts)
  then show ?case
    by (auto simp: rollTrade_pools getKey_atDay poolDayTrades_def dayKey_def Let_def split: option.splits if_splits)
qed (simp add: poolDayTrades_def getKey_def)

lemma stamp_pools:
  assumes "\<forall>(p, v) \<in> set tvl. dayID p (dayStart (snNow s)) \<noteq> i"
  shows "getKey (fst (foldl (stampPool s) st tvl)) i = getKey (fst st) i"
  using assms by (induction tvl arbitrary: st) (auto simp: stampPool_def getKey_atDay)


section \<open>Writing only what moved\<close>

definition rowKey :: "string \<Rightarrow> cell \<Rightarrow> string" where
  "rowKey ty c = entityKey ty (dayID (clSubject c) (clDate c))"

definition dayKeyed :: "cell gomap \<Rightarrow> bool" where
  "dayKeyed d \<longleftrightarrow> distinct (map fst d) \<and> (\<forall>(i, c) \<in> set d. i = dayID (clSubject c) (clDate c))"

lemma putKey_cases: "x \<in> set (putKey k v m) \<Longrightarrow> x = (k, v) \<or> x \<in> set m"
  by (induction m) (auto simp: putKey_def split: if_splits)

lemma atDay_keyed:
  assumes d: "dayKeyed d" and f: "\<And>c. clSubject (f c) = clSubject c \<and> clDate (f c) = clDate c"
  shows "dayKeyed (atDay subject ts f d)"
proof -
  let ?i = "dayID subject (dayStart ts)"
  let ?c = "case getKey d ?i of Some c \<Rightarrow> c | None \<Rightarrow> newCell subject (dayStart ts)"
  have "dayID (clSubject ?c) (clDate ?c) = ?i"
    using d by (auto simp: dayKeyed_def getKey_def newCell_def split: option.splits dest!: map_of_SomeD)
  then show ?thesis using d f by (fastforce simp: atDay_def Let_def dayKeyed_def dest!: putKey_cases)
qed

lemma cell_updates [simp]:
  "clSubject (bump usd c) = clSubject c" "clDate (bump usd c) = clDate c"
  "clSubject (poolCell t usd c) = clSubject c" "clDate (poolCell t usd c) = clDate c"
  "clSubject (tokenCell a ok u ok' u' c) = clSubject c" "clDate (tokenCell a ok u ok' u' c) = clDate c"
  by (simp_all add: bump_def poolCell_def tokenCell_def Let_def)

lemma foldl_keyed: "dayKeyed d \<Longrightarrow> (\<And>d x. dayKeyed d \<Longrightarrow> dayKeyed (g d x)) \<Longrightarrow> dayKeyed (foldl g d xs)"
  by (induction xs arbitrary: d) auto

lemma rollTrade_keyed:
  assumes "dayKeyed (dyTokens d)" "dayKeyed (dyPools d)" "dayKeyed (dyFactory d)"
  shows "dayKeyed (dyTokens (foldl rollTrade d ts)) \<and> dayKeyed (dyPools (foldl rollTrade d ts)) \<and> dayKeyed (dyFactory (foldl rollTrade d ts))"
  using assms by (induction ts arbitrary: d) (auto simp: rollTrade_def Let_def atDay_keyed)

lemma stamp_keyed: "dayKeyed (fst st) \<Longrightarrow> dayKeyed (fst (foldl (stampPool s) st tvl))"
  by (induction tvl arbitrary: st) (auto simp: stampPool_def atDay_keyed)

lemma rollDays_keyed:
  "dayKeyed (dyTokens (rollDays s))" "dayKeyed (dyPools (rollDays s))" "dayKeyed (dyFactory (rollDays s))"
proof -
  let ?d = "foldl rollTrade \<lparr>dyTokens = [], dyPools = [], dyFactory = []\<rparr> (snTrades s)"
  have d: "dayKeyed (dyTokens ?d)" "dayKeyed (dyPools ?d)" "dayKeyed (dyFactory ?d)"
    using rollTrade_keyed[of "\<lparr>dyTokens = [], dyPools = [], dyFactory = []\<rparr>"] by (simp_all add: dayKeyed_def)
  show "dayKeyed (dyTokens (rollDays s))"
    using d(1) by (auto simp: rollDays_def Let_def split_beta intro!: foldl_keyed atDay_keyed)
  show "dayKeyed (dyPools (rollDays s))"
    using d(2) stamp_keyed[of "(dyPools ?d, Fin 0)"] by (simp add: rollDays_def Let_def split_beta)
  show "dayKeyed (dyFactory (rollDays s))"
    using d(3) by (simp add: rollDays_def Let_def split_beta atDay_keyed)
qed

text \<open>Every row of \<open>d\<close> that says something is already remembered as it is.\<close>

definition settledRows :: "string \<Rightarrow> cell gomap \<Rightarrow> cell gomap \<Rightarrow> bool" where
  "settledRows ty d w \<longleftrightarrow> (\<forall>(i, c) \<in> set d. emptyCell c \<or> (\<exists>prev. getKey w (rowKey ty c) = Some prev \<and> sameCell prev c))"

lemma putRow_alt:
  "putRow ty row ws kc =
     (if emptyCell (snd kc) \<or> (\<exists>prev. getKey (fst ws) (rowKey ty (snd kc)) = Some prev \<and> sameCell prev (snd kc)) then ws
      else (putKey (rowKey ty (snd kc)) (snd kc) (fst ws),
            SetEntity ty (dayID (clSubject (snd kc)) (clDate (snd kc))) (row (snd kc)) (snd ws)))"
  by (auto simp: putRow_def rowKey_def entityKey_def Let_def split: option.splits)

lemma settledRows_skip: "settledRows ty d (fst ws) \<Longrightarrow> foldl (putRow ty row) ws d = ws"
  by (induction d arbitrary: ws) (auto simp: settledRows_def putRow_alt)

lemma putRows_frame:
  "(\<forall>(i, c) \<in> set d. k \<noteq> rowKey ty c) \<Longrightarrow> getKey (fst (foldl (putRow ty row) ws d)) k = getKey (fst ws) k"
  by (induction d arbitrary: ws) (auto simp: putRow_alt)

lemma putRows_settle:
  assumes "dayKeyed d" "\<forall>(i, c) \<in> set d. sameCell c c" "colonFree ty"
  shows "settledRows ty d (fst (foldl (putRow ty row) ws d))"
  using assms
proof (induction d rule: rev_induct)
  case (snoc ic d)
  obtain i c where ic: "ic = (i, c)" by fastforce
  let ?ws = "foldl (putRow ty row) ws d"
  have d: "dayKeyed d" using snoc.prems(1) by (auto simp: dayKeyed_def)
  then have s: "settledRows ty d (fst ?ws)" using snoc by auto
  have other: "rowKey ty c' \<noteq> rowKey ty c" if "(i', c') \<in> set d" for i' c'
    using that snoc.prems(1,3) by (force simp: dayKeyed_def rowKey_def entityKey_inj ic)
  have step: "foldl (putRow ty row) ws (d @ [ic]) = putRow ty row ?ws (i, c)" by (simp add: ic)
  have k: "getKey (fst (putRow ty row ?ws (i, c))) (rowKey ty c') = getKey (fst ?ws) (rowKey ty c')"
    if "(i', c') \<in> set d" for i' c'
    using other[OF that] by (simp add: putRow_alt)
  have "sameCell c c" using snoc.prems(2) by (simp add: ic)
  then have "emptyCell c \<or> (\<exists>prev. getKey (fst (putRow ty row ?ws (i, c))) (rowKey ty c) = Some prev \<and> sameCell prev c)"
    by (simp add: putRow_alt)
  moreover have "settledRows ty d (fst (putRow ty row ?ws (i, c)))"
    unfolding settledRows_def
  proof (clarify)
    fix i' c' assume m: "(i', c') \<in> set d" "\<nexists>prev. getKey (fst (putRow ty row ?ws (i, c))) (rowKey ty c') = Some prev \<and> sameCell prev c'"
    then show "emptyCell c'" using s k[OF m(1)] by (auto simp: settledRows_def)
  qed
  ultimately show ?case by (simp add: settledRows_def step ic)
qed (simp add: settledRows_def)

lemma settledRows_other:
  assumes "settledRows ty d (fst ws)" "colonFree ty" "colonFree ty'" "ty \<noteq> ty'"
  shows "settledRows ty d (fst (foldl (putRow ty' row) ws d'))"
proof -
  have "getKey (fst (foldl (putRow ty' row) ws d')) (rowKey ty c) = getKey (fst ws) (rowKey ty c)" for c
    using assms(2-4) by (intro putRows_frame) (auto simp: rowKey_def entityKey_inj)
  then show ?thesis using assms(1) by (simp add: settledRows_def)
qed

lemma dayTypes [simp]: "colonFree ''TokenDayData''" "colonFree ''PoolDayData''" "colonFree ''FactoryDayData''"
  by (simp_all add: colonFree_def)


section \<open>Whole days\<close>

lemma dayStart_mod: "0 \<le> ts \<Longrightarrow> dayStart ts = 86400 * (ts div 86400)"
proof -
  assume "0 \<le> ts"
  then have "ts smod 86400 = ts mod 86400" by (cases "ts = 0") (simp_all add: signed_modulo_int_def)
  then show ?thesis by (simp add: dayStart_def dayLength_def minus_mod_eq_mult_div)
qed

lemma dayStart_mono: "0 \<le> a \<Longrightarrow> a \<le> b \<Longrightarrow> dayStart a \<le> dayStart b"
  by (simp add: dayStart_mod zdiv_mono1)

lemma dayStart_pos: "86400 \<le> ts \<Longrightarrow> 0 < dayStart ts"
  using zdiv_mono1[of 86400 ts 86400] by (simp add: dayStart_mod)

definition dayOf :: "string \<times> seedSwap \<Rightarrow> int" where "dayOf kv = dayStart (swTimestamp (snd kv))"

lemma spanDay_bounds:
  assumes "foldl spanDay (lo, hi) xs = (lo', hi')" "0 < lo" "lo \<le> hi" "\<forall>x \<in> set xs. 0 < dayOf x"
  shows "lo' \<le> lo \<and> hi \<le> hi' \<and> 0 < lo' \<and> (\<forall>x \<in> set xs. lo' \<le> dayOf x \<and> dayOf x \<le> hi')
     \<and> (lo' = lo \<or> lo' \<in> dayOf ` set xs) \<and> (hi' = hi \<or> hi' \<in> dayOf ` set xs)"
  using assms
proof (induction xs arbitrary: lo hi)
  case (Cons x xs)
  define l h where "l = (if dayOf x < lo then dayOf x else lo)" and "h = (if dayOf x > hi then dayOf x else hi)"
  have "spanDay (lo, hi) x = (l, h)"
    using Cons.prems(2) by (simp add: spanDay_def Let_def dayOf_def[symmetric] l_def h_def)
  then have "foldl spanDay (l, h) xs = (lo', hi')" using Cons.prems(1) by simp
  from Cons.IH[OF this] have "lo' \<le> l \<and> h \<le> hi' \<and> 0 < lo' \<and> (\<forall>x \<in> set xs. lo' \<le> dayOf x \<and> dayOf x \<le> hi')
     \<and> (lo' = l \<or> lo' \<in> dayOf ` set xs) \<and> (hi' = h \<or> hi' \<in> dayOf ` set xs)"
    using Cons.prems(2-4) by (simp add: l_def h_def)
  then show ?case by (auto simp: l_def h_def split: if_splits)
qed simp

lemma spanDay_range:
  assumes "xs \<noteq> []" "\<forall>x \<in> set xs. 0 < dayOf x" "foldl spanDay (0, 0) xs = (lo, hi)"
  shows "(\<forall>x \<in> set xs. lo \<le> dayOf x \<and> dayOf x \<le> hi) \<and> lo \<in> dayOf ` set xs \<and> hi \<in> dayOf ` set xs"
proof -
  obtain x ys where xs: "xs = x # ys" using assms(1) by (cases xs) auto
  have "spanDay (0, 0) x = (dayOf x, dayOf x)"
    using assms(2) by (simp add: xs spanDay_def Let_def dayOf_def[symmetric])
  then have "foldl spanDay (dayOf x, dayOf x) ys = (lo, hi)" using assms(3) by (simp add: xs)
  from spanDay_bounds[OF this] show ?thesis using assms(2) by (auto simp: xs)
qed

text \<open>A list cut after \<open>n\<close> rows of a sorted one, and the rows its cut cannot have split.\<close>

lemma sorted_rest:
  assumes "x \<in> set (take n (sort_key f xs))" "y \<in> set xs" "y \<notin> set (take n (sort_key f xs))"
  shows "f x \<le> f y \<and> n \<le> length xs"
proof -
  have "y \<in> set (drop n (sort_key f xs))"
    using assms(2,3) by (metis Un_iff append_take_drop_id set_append set_sort)
  moreover have "sorted (map f (take n (sort_key f xs)) @ map f (drop n (sort_key f xs)))"
    by (metis append_take_drop_id map_append sorted_sort_key)
  moreover have "n \<le> length xs" using \<open>y \<in> set (drop n (sort_key f xs))\<close> by (cases "n \<le> length xs") auto
  ultimately show ?thesis using assms(1) by (auto simp: sorted_append)
qed

definition realTimes :: "store \<Rightarrow> bool" where
  "realTimes s \<longleftrightarrow> (\<forall>(k, sw) \<in> set (dbSwaps s). dayLength \<le> swTimestamp sw)"

text \<open>Every row of the window lies in one day.\<close>

definition oneDay :: "seedSwap gomap \<Rightarrow> bool" where
  "oneDay swaps \<longleftrightarrow> (\<forall>x \<in> set swaps. \<forall>y \<in> set swaps. dayOf x = dayOf y)"

lemma wholeDays_kept:
  assumes "x \<in> set (wholeDays swaps n oldest)" "\<forall>x \<in> set swaps. 0 < dayOf x" "\<not> oneDay swaps"
  shows "x \<in> set swaps"
    and "length swaps < n \<or> (\<exists>y \<in> set swaps. if oldest then dayOf y < dayOf x else dayOf x < dayOf y)"
    and "y \<in> set swaps \<Longrightarrow> dayOf y = dayOf x \<Longrightarrow> y \<in> set (wholeDays swaps n oldest)"
proof -
  show m: "x \<in> set swaps" using assms(1) by (auto simp: wholeDays_def split: if_splits prod.splits)
  show "length swaps < n \<or> (\<exists>y \<in> set swaps. if oldest then dayOf y < dayOf x else dayOf x < dayOf y)"
  proof (cases "length swaps < n")
    case False
    obtain lo hi where lh: "foldl spanDay (0, 0) swaps = (lo, hi)" by fastforce
    have "swaps \<noteq> []" using m by auto
    note r = spanDay_range[OF this assms(2) lh]
    have "lo \<noteq> hi"
    proof
      assume "lo = hi"
      then have "\<forall>x \<in> set swaps. dayOf x = lo" using r by (auto intro: order_antisym)
      then show False using assms(3) by (simp add: oneDay_def)
    qed
    then have "dayOf x \<noteq> (if oldest then lo else hi)" using assms(1) False lh by (auto simp: wholeDays_def dayOf_def)
    then show ?thesis using r m by (fastforce split: if_splits)
  qed simp
  show "y \<in> set swaps \<Longrightarrow> dayOf y = dayOf x \<Longrightarrow> y \<in> set (wholeDays swaps n oldest)"
    using assms(1) by (cases "foldl spanDay (0, 0) swaps")
      (auto simp: wholeDays_def dayOf_def Let_def split: if_splits prod.splits)
qed

lemma realTimes_days: "realTimes s \<Longrightarrow> x \<in> set (dbSwaps s) \<Longrightarrow> 0 < dayOf x \<and> 0 \<le> swTimestamp (snd x)"
  using dayStart_pos by (auto simp: realTimes_def dayOf_def dayLength_def)

lemma kept_head_days:
  assumes "realTimes s" "(k', sw') \<in> set (dbSwaps s)" "dayStart (swTimestamp sw') = dayStart (swTimestamp sw)"
    "(k, sw) \<in> set (wholeDays (RecentSwapsRaw s n) n True)"
  shows "oneDay (RecentSwapsRaw s n) \<or> (k', sw') \<in> set (wholeDays (RecentSwapsRaw s n) n True)"
proof -
  have d: "0 < dayOf x" "0 \<le> swTimestamp (snd x)" if "x \<in> set (dbSwaps s)" for x
    using realTimes_days[OF assms(1) that] by simp_all
  have same: "dayOf (k', sw') = dayOf (k, sw)" using assms(3) by (simp add: dayOf_def)
  let ?xs = "RecentSwapsRaw s n" and ?f = "\<lambda>kv. - swTimestamp (snd kv)"
  note k = assms(4)
  show ?thesis
  proof (rule disjCI)
    assume o: "(k', sw') \<notin> set (wholeDays ?xs n True)"
    have sub: "set ?xs \<subseteq> set (dbSwaps s)" using set_take_subset by (fastforce simp: RecentSwapsRaw_def)
    show "oneDay ?xs"
    proof (rule ccontr)
      assume "\<not> oneDay ?xs"
      note w = wholeDays_kept[OF k _ this]
      have pos: "\<forall>x \<in> set ?xs. 0 < dayOf x" using sub d by auto
      have n: "(k', sw') \<notin> set ?xs" using w(3)[OF pos _ same] o by auto
      obtain y where y: "y \<in> set ?xs" "dayOf y < dayOf (k, sw)"
        using w(1,2)[OF pos] sorted_rest[of "(k, sw)" n ?f "dbSwaps s" "(k', sw')"] n assms(2)
        by (auto simp: RecentSwapsRaw_def case_prod_unfold)
      have "- swTimestamp (snd y) \<le> - swTimestamp sw'"
        using sorted_rest[of y n ?f "dbSwaps s" "(k', sw')"] y(1) n assms(2) by (auto simp: RecentSwapsRaw_def case_prod_unfold)
      then have "dayOf (k', sw') \<le> dayOf y"
        using dayStart_mono[of "swTimestamp sw'" "swTimestamp (snd y)"] d(2)[OF assms(2)] by (simp add: dayOf_def)
      then show False using y(2) same by simp
    qed
  qed
qed

lemma kept_tail_days:
  assumes "realTimes s" "(k', sw') \<in> set (dbSwaps s)" "dayStart (swTimestamp sw') = dayStart (swTimestamp sw)"
    "(k, sw) \<in> set (wholeDays (SwapsAfter s ts n) n False)" "ts < swTimestamp sw'"
  shows "oneDay (SwapsAfter s ts n) \<or> (k', sw') \<in> set (wholeDays (SwapsAfter s ts n) n False)"
proof -
  have d: "0 < dayOf x" "0 \<le> swTimestamp (snd x)" if "x \<in> set (dbSwaps s)" for x
    using realTimes_days[OF assms(1) that] by simp_all
  have same: "dayOf (k', sw') = dayOf (k, sw)" using assms(3) by (simp add: dayOf_def)
  let ?xs = "SwapsAfter s ts n" and ?f = "\<lambda>kv. swTimestamp (snd kv)"
  let ?db = "filter (\<lambda>(_, sw). swTimestamp sw > ts) (dbSwaps s)"
  note k = assms(4) and t = assms(5)
  have m: "(k', sw') \<in> set ?db" using assms(2) t by simp
  show ?thesis
  proof (rule disjCI)
    assume o: "(k', sw') \<notin> set (wholeDays ?xs n False)"
    have sub: "set ?xs \<subseteq> set (dbSwaps s)" using set_take_subset by (fastforce simp: SwapsAfter_def)
    show "oneDay ?xs"
    proof (rule ccontr)
      assume "\<not> oneDay ?xs"
      note w = wholeDays_kept[OF k _ this]
      have pos: "\<forall>x \<in> set ?xs. 0 < dayOf x" using sub d by auto
      have n: "(k', sw') \<notin> set ?xs" using w(3)[OF pos _ same] o by auto
      obtain y where y: "y \<in> set ?xs" "dayOf (k, sw) < dayOf y"
        using w(1,2)[OF pos] sorted_rest[of "(k, sw)" n ?f ?db "(k', sw')"] n m
        by (auto simp: SwapsAfter_def case_prod_unfold)
      have "swTimestamp (snd y) \<le> swTimestamp sw'"
        using sorted_rest[of y n ?f ?db "(k', sw')"] y(1) n m by (auto simp: SwapsAfter_def case_prod_unfold)
      then have "dayOf y \<le> dayOf (k', sw')"
        using dayStart_mono[of "swTimestamp (snd y)" "swTimestamp sw'"] d(2)[of y] sub y(1) by (auto simp: dayOf_def)
      then show False using y(2) same by simp
    qed
  qed
qed

text \<open>A day that survives the cut of a read is whole: if the head window or the tail batch keeps one trade of a day, it
keeps every stored trade of that day (for the tail, every one after the mark), unless all it read lies in one day.\<close>

theorem kept_days_are_whole:
  assumes "realTimes s" "(k', sw') \<in> set (dbSwaps s)" "dayStart (swTimestamp sw') = dayStart (swTimestamp sw)"
  shows "((k, sw) \<in> set (wholeDays (RecentSwapsRaw s n) n True) \<longrightarrow>
        oneDay (RecentSwapsRaw s n) \<or> (k', sw') \<in> set (wholeDays (RecentSwapsRaw s n) n True)) \<and>
     ((k, sw) \<in> set (wholeDays (SwapsAfter s ts n) n False) \<longrightarrow> ts < swTimestamp sw' \<longrightarrow>
        oneDay (SwapsAfter s ts n) \<or> (k', sw') \<in> set (wholeDays (SwapsAfter s ts n) n False))"
  using kept_head_days[OF assms] kept_tail_days[OF assms] by blast

section \<open>Examples\<close>

definition exDayTrade :: trade where
  "exDayTrade = \<lparr>tdId = ''0xt#1'', tdTs = 90000, tdBlock = 7, tdDated = True, tdPool = ''p'', tdT0 = ''s'', tdT1 = ''x'',
     tdAmt0 = Fin 2, tdAmt1 = Fin 1, tdUsd0 = Fin 2, tdUsd1 = Fin 0, tdOk0 = True, tdOk1 = False\<rparr>"

definition exSnap :: snapshot where
  "exSnap = \<lparr>snNow = 864000, snTrades = [exDayTrade], snPrices = [], snRatio = [], snPoolTVL = [], snTokenTVL = [],
     snTokenBal = [], snPools = [], snTokens = []\<rparr>"

lemma exDayIDs:
  "dayStart 90000 = 86400" "dayStart 864000 = 864000" "dayID ''p'' 86400 = ''p-1''" "dayID ''s'' 86400 = ''s-1''"
  "dayID ''x'' 86400 = ''x-1''" "dayID ''1'' 86400 = ''1-1''" "dayID ''1'' 864000 = ''1-10''"
  by code_simp+

lemma exFloats: "toF64 0 = Fin 0" "toF64 1 = Fin 1" "toF64 2 = Fin 2"
  using toF64_int[of 0] toF64_int[of 1] toF64_int[of 2] by simp_all



definition exSwapAt :: "int \<Rightarrow> seedSwap" where
  "exSwapAt ts = \<lparr>swTimestamp = ts, swBlock = 1, swPool = ''0xp'', swAmount0 = ''1'', swAmount1 = ''2'', swAmountUSD = '''', swSender = ''''\<rparr>"

definition exDays :: store where
  "exDays = NewStore\<lparr>dbSwaps := [(''a'', exSwapAt 90000), (''b'', exSwapAt 180000), (''c'', exSwapAt 190000)]\<rparr>"

theorem kept_days_are_whole_witness:
  "(''c'', exSwapAt 190000) \<in> set (wholeDays (RecentSwapsRaw exDays 3) 3 True)"
proof -
  have f: "realTimes exDays" "(''c'', exSwapAt 190000) \<in> set (dbSwaps exDays)" "dayStart (swTimestamp (exSwapAt 190000)) = dayStart (swTimestamp (exSwapAt 180000))"
    "(''b'', exSwapAt 180000) \<in> set (wholeDays (RecentSwapsRaw exDays 3) 3 True)" "\<not> oneDay (RecentSwapsRaw exDays 3)"
    by code_simp+
  show ?thesis using kept_days_are_whole[OF f(1-3), of "''b''" 3 0] f(4,5) by argo
qed

end
