(* ===== verification/Revalue.thy ===== *)
theory Revalue
  imports DaySeries
begin

text \<open>
  The valuation pass, src/indexer/valuation.go (\<open>revalue\<close>) and src/indexer/supply.go: balances, prices, trades, the
  aggregates of pools, tokens and the factory, the supply of the native coin and the day series, in the
  code's order.

  The state is the store with the cells \<open>writeSeries\<close> remembers.  What the node answers and the clock are the
  \<open>valView\<close>.  The writes of the map backend return no error, so the branches for a failed write are not
  taken; logging is left out.
\<close>

section \<open>The supply of the native coin\<close>

record valConfig =
  vcNative :: string
  vcGenesisSupply :: string
  vcTreasury :: string
  vcRPC :: string

record valView =
  vvHead :: "64 word option"
  vvBalances :: "(string \<times> string) list \<Rightarrow> batchAnswer option"
  vvBalanceOf :: "string \<Rightarrow> string option"
  vvStake :: "string \<Rightarrow> string option"
  vvNow :: int

record nativeSupply =
  nsMinted :: f64
  nsUndistributed :: f64
  nsStaked :: f64

definition fmtUnits :: "f64 \<Rightarrow> string" where
  "fmtUnits v = formatFloat v"

definition Circulating :: "nativeSupply \<Rightarrow> f64" where
  "Circulating n =
     (let c = fsub (fsub (nsMinted n) (nsUndistributed n)) (nsStaked n) in if fless c (Fin 0) then Fin 0 else c)"

text \<open>A quotient of an integer and a constant, at the precision of the integer's \<open>big.Float\<close>.\<close>

definition bigUnits :: "int \<Rightarrow> rat \<Rightarrow> f64" where
  "bigUnits n d = toF64 (roundPrec (max (bitLen n) 64) (of_int n / d))"

definition nativeBalance :: "(string \<Rightarrow> string option) \<Rightarrow> string \<Rightarrow> f64 option" where
  "nativeBalance answer addr =
     (case answer addr of
        None \<Rightarrow> None
      | Some hex \<Rightarrow> (case setString 16 (trimPrefix hex ''0x'') of (n, ok) \<Rightarrow> if ok then Some (bigUnits n (10 ^ 18)) else None))"

fun findText :: "string \<Rightarrow> string \<Rightarrow> nat option" where
  "findText pat [] = (if pat = [] then Some 0 else None)"
| "findText pat (c # cs) = (if hasPrefix (c # cs) pat then Some 0 else map_option Suc (findText pat cs))"

definition platformEndpoint :: "string \<Rightarrow> string option" where
  "platformEndpoint evmRPC =
     (case findText ''/chain/'' evmRPC of None \<Rightarrow> None | Some i \<Rightarrow> Some (take i evmRPC @ ''/chain/p''))"

definition totalStake :: "(string \<Rightarrow> string option) \<Rightarrow> string \<Rightarrow> f64 option" where
  "totalStake answer platform =
     (case answer (platform @ ''/ops/stake/total'') of
        None \<Rightarrow> None
      | Some stake \<Rightarrow> (case setString 10 stake of (n, ok) \<Rightarrow> if ok then Some (bigUnits n (10 ^ 6)) else None))"

definition readNativeSupply :: "valConfig \<Rightarrow> valView \<Rightarrow> nativeSupply option" where
  "readNativeSupply cfg view =
     (case parseFloat (vcGenesisSupply cfg) of
        None \<Rightarrow> None
      | Some minted \<Rightarrow>
          if fle minted (Fin 0) then None
          else Some
            \<lparr>nsMinted = minted,
             nsUndistributed =
               (if vcTreasury cfg = '''' then Fin 0
                else case nativeBalance (vvBalanceOf view) (vcTreasury cfg) of Some bal \<Rightarrow> bal | None \<Rightarrow> Fin 0),
             nsStaked =
               (case platformEndpoint (vcRPC cfg) of
                  None \<Rightarrow> Fin 0
                | Some base \<Rightarrow> (case totalStake (vvStake view) base of Some v \<Rightarrow> v | None \<Rightarrow> Fin 0))\<rparr>)"

text \<open>The copy the pass holds is corrected as well as the row of the store.\<close>

definition publishNativeSupply ::
  "valConfig \<Rightarrow> valView \<Rightarrow> seedToken gomap \<times> store \<Rightarrow> seedToken gomap \<times> store" where
  "publishNativeSupply cfg view ts =
     (if vcNative cfg = '''' then ts
      else case readNativeSupply cfg view of
             None \<Rightarrow> ts
           | Some n \<Rightarrow>
               (let put = (\<lambda>t. t\<lparr>stTotalSupply := fmtUnits (nsMinted n),
                                stStaked := fmtUnits (fadd (nsStaked n) (nsUndistributed n))\<rparr>)
                in case getKey (fst ts) (vcNative cfg) of
                     Some t \<Rightarrow> (putKey (vcNative cfg) (put t) (fst ts), SeedToken (vcNative cfg) (put t) (snd ts))
                   | None \<Rightarrow>
                       (case getKey (TokensRaw (snd ts)) (vcNative cfg) of
                          None \<Rightarrow> ts
                        | Some t \<Rightarrow> (fst ts, SeedToken (vcNative cfg) (put t) (snd ts)))))"

section \<open>Pools and tokens\<close>

record tally =
  tlStore :: store
  tlTokenTVL :: "f64 gomap"
  tlTokenBal :: "f64 gomap"
  tlTokenVol :: "f64 gomap"
  tlTokenTx :: "int gomap"
  tlPoolTVL :: "f64 gomap"
  tlRatio :: "f64 gomap"
  tlTotalTVL :: f64

definition poolTVLOf :: "valuedPool \<Rightarrow> f64 option \<Rightarrow> f64 option \<Rightarrow> f64" where
  "poolTVLOf vp v0 v1 =
     (case (v0, v1) of
        (Some a, Some b) \<Rightarrow> fadd a b
      | (Some a, None) \<Rightarrow> if fless (Fin 0) (vpBal1 vp) then fmul (Fin 2) a else a
      | (None, Some b) \<Rightarrow> if fless (Fin 0) (vpBal0 vp) then fmul (Fin 2) b else b
      | (None, None) \<Rightarrow> Fin 0)"

definition addTx :: "string \<Rightarrow> int \<Rightarrow> int gomap \<Rightarrow> int gomap" where
  "addTx k n m = putKey k ((case getKey m k of Some i \<Rightarrow> i | None \<Rightarrow> 0) + n) m"

definition addSome :: "string \<Rightarrow> f64 option \<Rightarrow> f64 gomap \<Rightarrow> f64 gomap" where
  "addSome k v m = (case v of Some x \<Rightarrow> addF k x m | None \<Rightarrow> m)"

definition valuePool :: "(int \<times> f64) gomap \<Rightarrow> f64 gomap \<Rightarrow> seedPool gomap \<Rightarrow> tally \<Rightarrow> valuedPool \<Rightarrow> tally" where
  "valuePool traded prices pools st vp =
     (case getKey pools (vpId vp) of
        None \<Rightarrow> st
      | Some p \<Rightarrow>
          (let v0 = usdLeg (vpBal0 vp) (vpT0 vp) prices; v1 = usdLeg (vpBal1 vp) (vpT1 vp) prices;
               tvl = poolTVLOf vp v0 v1; t = getKey traded (toLower (vpId vp));
               p1 = p\<lparr>spTotalValueLockedUSD := fmtUSD tvl, spToken0Price := fmtRatio (vpBal0 vp) (vpBal1 vp),
                      spToken1Price := fmtRatio (vpBal1 vp) (vpBal0 vp)\<rparr>;
               p2 = (case t of
                       Some nv \<Rightarrow> p1\<lparr>spVolumeUSD := fmtUSD (snd nv), spTxCount := fst nv\<rparr>
                     | None \<Rightarrow> if spVolumeUSD p1 = '''' then p1\<lparr>spVolumeUSD := fmtUSD (Fin 0)\<rparr> else p1)
           in st\<lparr>tlStore := SeedPool (vpId vp) p2 (tlStore st),
                 tlTokenTVL := addSome (vpT1 vp) v1 (addSome (vpT0 vp) v0 (tlTokenTVL st)),
                 tlTokenBal := addF (vpT1 vp) (vpBal1 vp) (addF (vpT0 vp) (vpBal0 vp) (tlTokenBal st)),
                 tlTokenVol := (case t of None \<Rightarrow> tlTokenVol st
                                | Some nv \<Rightarrow> addF (vpT1 vp) (snd nv) (addF (vpT0 vp) (snd nv) (tlTokenVol st))),
                 tlTokenTx := (case t of None \<Rightarrow> tlTokenTx st
                               | Some nv \<Rightarrow> addTx (vpT1 vp) (fst nv) (addTx (vpT0 vp) (fst nv) (tlTokenTx st))),
                 tlPoolTVL := putKey (vpId vp) tvl (tlPoolTVL st),
                 tlRatio := (if fless (Fin 0) (vpBal1 vp) then putKey (vpId vp) (fdiv (vpBal0 vp) (vpBal1 vp)) (tlRatio st)
                             else tlRatio st),
                 tlTotalTVL := fadd (tlTotalTVL st) tvl\<rparr>))"

definition valueToken :: "tally \<Rightarrow> f64 gomap \<Rightarrow> f64 \<Rightarrow> seedToken gomap \<times> store \<Rightarrow> string \<times> seedToken \<Rightarrow> seedToken gomap \<times> store" where
  "valueToken tot prices nativeUSD ts kv =
     (let low = toLower (fst kv) in
      if getKey (tlTokenTVL tot) low = None \<and> getKey (tlTokenVol tot) low = None \<and> getKey prices low = None then ts
      else
        (let t = (snd kv)\<lparr>stTotalValueLockedUSD := fmtUSD (getF (tlTokenTVL tot) low), stVolumeUSD := fmtUSD (getF (tlTokenVol tot) low),
                          stTxCount := (case getKey (tlTokenTx tot) low of Some n \<Rightarrow> n | None \<Rightarrow> 0),
                          stDerivedETH := derivedNative (getF prices low) nativeUSD (getKey prices low \<noteq> None)\<rparr>
         in (putKey (fst kv) t (fst ts), SeedToken (fst kv) t (snd ts))))"

section \<open>The pass\<close>

definition allTrades :: "(int \<times> f64) gomap \<Rightarrow> int" where
  "allTrades traded = sum_list (map (\<lambda>(_, n, _). n) traded)"

definition allVolume :: "(int \<times> f64) gomap \<Rightarrow> f64" where
  "allVolume traded = foldl (\<lambda>v (_, _, x). fadd v x) (Fin 0) traded"

definition headBehind :: "valView \<Rightarrow> store \<Rightarrow> bool" where
  "headBehind view s \<longleftrightarrow> GetLastBlock s > reorgDepth
     \<and> (case vvHead view of Some h \<Rightarrow> h + reorgDepth < GetLastBlock s | None \<Rightarrow> False)"

text \<open>The trades are priced on disk, and the mark follows what was read.\<close>

definition writeValues :: "string gomap \<Rightarrow> int \<Rightarrow> store \<Rightarrow> store" where
  "writeValues swapUSD mark s =
     (let s1 = fst (ValueSwaps swapUSD s) in if mark > PricedThrough s1 then SetPricedThrough mark s1 else s1)"

definition revalue :: "valConfig \<Rightarrow> valView \<Rightarrow> cell gomap \<times> store \<Rightarrow> cell gomap \<times> store" where
  "revalue cfg view ws =
     (let s0 = snd ws; pools = PoolsRaw s0; tokens = TokensRaw s0; vps = readBalances (vvBalances view) pools tokens in
      if headBehind view s0 \<or> pools = [] \<or> vps = [] then ws
      else
        (let prices = priceTokens vps tokens;
             (nativeUSD, s1) = publishAnchor (vcNative cfg) prices s0;
             (trades, mark) = valuedTrades vps tokens prices s1;
             (windowVol, swapUSD) = valueSwaps trades vps;
             s2 = writeValues swapUSD mark s1;
             traded = TradedByPool s2;
             tot = foldl (valuePool traded prices pools)
                    \<lparr>tlStore = s2, tlTokenTVL = [], tlTokenBal = [], tlTokenVol = [], tlTokenTx = [], tlPoolTVL = [],
                     tlRatio = [], tlTotalTVL = Fin 0\<rparr> vps;
             ts = publishNativeSupply cfg view (foldl (valueToken tot prices nativeUSD) (tokens, tlStore tot) tokens);
             s4 = SeedFactory ''1'' \<lparr>sfPoolCount = int (length pools), sfTxCount = allTrades traded,
                    sfTotalVolumeUSD = fmtUSD (allVolume traded), sfTotalValueLockedUSD = fmtUSD (tlTotalTVL tot)\<rparr> (snd ts)
         in writeSeries
              \<lparr>snNow = vvNow view, snTrades = trades, snPrices = prices, snRatio = tlRatio tot, snPoolTVL = tlPoolTVL tot,
               snTokenTVL = tlTokenTVL tot, snTokenBal = tlTokenBal tot, snPools = pools, snTokens = fst ts\<rparr>
              (fst ws, s4)))"

section \<open>What the pass leaves alone\<close>

definition erase :: "('v \<Rightarrow> 'v) \<Rightarrow> 'v gomap \<Rightarrow> 'v gomap" where
  "erase e m = map (\<lambda>(k, v). (k, e v)) m"

lemma erase_putKey [simp]: "erase e (putKey k v m) = putKey k (e v) (erase e m)"
  by (induction m) (auto simp: erase_def putKey_def)

lemma getKey_erase [simp]: "getKey (erase e m) k = map_option e (getKey m k)"
  by (induction m) (auto simp: erase_def getKey_def)

lemma putKey_same: "getKey m k = Some v \<Longrightarrow> putKey k v m = m"
  by (simp add: getKey_def putKey_def update_triv)

lemma length_erase [simp]: "length (erase e m) = length m"
  by (simp add: erase_def)

text \<open>What the log handlers own: everything of a row but its derived figures.\<close>

definition eventPool :: "seedPool \<Rightarrow> seedPool" where
  "eventPool p = p\<lparr>spTotalValueLockedUSD := '''', spVolumeUSD := '''', spToken0Price := '''', spToken1Price := '''', spTxCount := 0\<rparr>"

definition eventToken :: "seedToken \<Rightarrow> seedToken" where
  "eventToken t = t\<lparr>stTotalSupply := '''', stStaked := '''', stVolumeUSD := '''', stTotalValueLockedUSD := '''',
     stDerivedETH := '''', stTxCount := 0\<rparr>"

definition eventSwap :: "seedSwap \<Rightarrow> seedSwap" where
  "eventSwap sw = sw\<lparr>swAmountUSD := ''''\<rparr>"

definition eventPart :: "store \<Rightarrow> seedPool gomap \<times> seedToken gomap \<times> seedSwap gomap \<times> 64 word" where
  "eventPart s = (erase eventPool (dbPools s), erase eventToken (dbTokens s), erase eventSwap (dbSwaps s), dbLastBlock s)"

lemma eventPart_SeedPool:
  "eventPart s = eventPart s0 \<Longrightarrow> getKey (dbPools s0) k = Some p0 \<Longrightarrow> eventPool p = eventPool p0 \<Longrightarrow>
   eventPart (SeedPool k p s) = eventPart s0"
  using getKey_erase[of eventPool "dbPools s0" k] by (auto simp: eventPart_def SeedPool_def putKey_same)

lemma eventPart_SeedToken:
  "eventPart s = eventPart s0 \<Longrightarrow> map_option eventToken (getKey (dbTokens s0) k) = Some (eventToken t) \<Longrightarrow>
   eventPart (SeedToken k t s) = eventPart s0"
  using getKey_erase[of eventToken "dbTokens s0" k] by (auto simp: eventPart_def SeedToken_def putKey_same)

lemma eventToken_derived [simp]:
  "eventToken (t\<lparr>stTotalSupply := a, stStaked := b\<rparr>) = eventToken t"
  "eventToken (t\<lparr>stTotalValueLockedUSD := d, stVolumeUSD := c, stTxCount := n, stDerivedETH := e\<rparr>) = eventToken t"
  by (simp_all add: eventToken_def)

lemma eventPart_frames [simp]:
  "eventPart (SeedBundle i b s) = eventPart s" "eventPart (SeedFactory i f s) = eventPart s"
  "eventPart (SetPricedThrough m s) = eventPart s" "eventPart (SetEntity t i v s) = eventPart s"
  by (simp_all add: eventPart_def SeedBundle_def SeedFactory_def SetPricedThrough_def SetEntity_def)

lemma dbGeneric_frames [simp]:
  "dbGeneric (SeedBundle i b s) = dbGeneric s" "dbGeneric (SeedFactory i f s) = dbGeneric s"
  "dbGeneric (SetPricedThrough m s) = dbGeneric s" "dbGeneric (SeedPool i p s) = dbGeneric s"
  "dbGeneric (SeedToken i t s) = dbGeneric s" "dbGeneric (SeedSwap i sw s) = dbGeneric s"
  by (simp_all add: SeedBundle_def SeedFactory_def SetPricedThrough_def SeedPool_def SeedToken_def SeedSwap_def)

lemma ValueSwaps_event: "eventPart (fst (ValueSwaps usd s)) = eventPart s \<and> dbGeneric (fst (ValueSwaps usd s)) = dbGeneric s"
proof -
  have v: "eventPart (fst (valueSwap st kv)) = eventPart (fst st) \<and> dbGeneric (fst (valueSwap st kv)) = dbGeneric (fst st)" for st kv
    by (auto simp: valueSwap_def eventPart_def SeedSwap_def putKey_same eventSwap_def split: option.splits)
  have "eventPart (fst (foldl valueSwap st usd)) = eventPart (fst st) \<and> dbGeneric (fst (foldl valueSwap st usd)) = dbGeneric (fst st)" for st
    using v by (induction usd arbitrary: st) simp_all
  from this[of "(s, 0)"] show ?thesis by (simp add: ValueSwaps_def)
qed

lemma writeValues_event [simp]:
  "eventPart (writeValues usd m s) = eventPart s" "dbGeneric (writeValues usd m s) = dbGeneric s"
  using ValueSwaps_event[of usd s] by (simp_all add: writeValues_def Let_def)

lemma publishAnchor_event [simp]:
  "eventPart (snd (publishAnchor native prices s)) = eventPart s" "dbGeneric (snd (publishAnchor native prices s)) = dbGeneric s"
  by (simp_all add: publishAnchor_def Let_def)

lemma valuePool_event:
  assumes "eventPart (tlStore st) = eventPart s0"
  shows "eventPart (tlStore (valuePool traded prices (dbPools s0) st vp)) = eventPart s0"
    "dbGeneric (tlStore (valuePool traded prices (dbPools s0) st vp)) = dbGeneric (tlStore st)"
  using assms by (auto simp: valuePool_def Let_def eventPool_def intro!: eventPart_SeedPool split: option.splits)

lemma valuePools_event:
  assumes "eventPart (tlStore st) = eventPart s0"
  shows "eventPart (tlStore (foldl (valuePool traded prices (dbPools s0)) st vps)) = eventPart s0 \<and>
    dbGeneric (tlStore (foldl (valuePool traded prices (dbPools s0)) st vps)) = dbGeneric (tlStore st)"
  using assms valuePool_event by (induction vps arbitrary: st) simp_all

lemma valueTokens_event:
  assumes "eventPart (snd ts) = eventPart s0" "\<forall>(k, t) \<in> set xs. getKey (dbTokens s0) k = Some t"
    "erase eventToken (fst ts) = erase eventToken (dbTokens s0)"
  shows "eventPart (snd (foldl (valueToken tot prices nu) ts xs)) = eventPart s0 \<and>
    dbGeneric (snd (foldl (valueToken tot prices nu) ts xs)) = dbGeneric (snd ts) \<and>
    erase eventToken (fst (foldl (valueToken tot prices nu) ts xs)) = erase eventToken (dbTokens s0)"
  using assms
proof (induction xs arbitrary: ts)
  case (Cons kt xs)
  obtain k t where kt: "kt = (k, t)" by fastforce
  have g: "getKey (dbTokens s0) k = Some t" using Cons.prems(2) by (simp add: kt)
  have e: "getKey (erase eventToken (dbTokens s0)) k = Some (eventToken t)" by (simp add: g)
  have "eventPart (snd (valueToken tot prices nu ts kt)) = eventPart s0"
    "dbGeneric (snd (valueToken tot prices nu ts kt)) = dbGeneric (snd ts)"
    "erase eventToken (fst (valueToken tot prices nu ts kt)) = erase eventToken (dbTokens s0)"
    using Cons.prems(1,3) putKey_same[OF e] g
    by (auto simp: valueToken_def Let_def kt intro!: eventPart_SeedToken)
  then show ?case using Cons.IH[of "valueToken tot prices nu ts kt"] Cons.prems(2) by simp
qed simp

lemma publishNativeSupply_event:
  assumes "eventPart (snd ts) = eventPart s0" "erase eventToken (fst ts) = erase eventToken (dbTokens s0)"
  shows "eventPart (snd (publishNativeSupply cfg view ts)) = eventPart s0"
    "dbGeneric (snd (publishNativeSupply cfg view ts)) = dbGeneric (snd ts)"
proof -
  have m: "map_option eventToken (getKey (fst ts) k) = map_option eventToken (getKey (dbTokens s0) k)" for k
    by (metis assms(2) getKey_erase)
  have m': "map_option eventToken (getKey (dbTokens (snd ts)) k) = map_option eventToken (getKey (dbTokens s0) k)" for k
    using assms(1) by (metis eventPart_def fst_conv getKey_erase snd_conv)
  show "eventPart (snd (publishNativeSupply cfg view ts)) = eventPart s0"
    "dbGeneric (snd (publishNativeSupply cfg view ts)) = dbGeneric (snd ts)"
    using assms(1) m[of "vcNative cfg", symmetric] m'[of "vcNative cfg", symmetric]
    by (auto simp: publishNativeSupply_def Let_def TokensRaw_def split: option.splits intro!: eventPart_SeedToken)
qed

lemma putRows_event:
  "eventPart (snd (foldl (putRow ty row) ws d)) = eventPart (snd ws)"
  by (induction d arbitrary: ws) (simp_all add: putRow_alt)

lemma writeSeries_event: "eventPart (snd (writeSeries sn ws)) = eventPart (snd ws)"
  by (simp add: writeSeries_def Let_def putRows_event)

lemma putRows_entities:
  "colonFree ty \<Longrightarrow> colonFree ty' \<Longrightarrow> ty \<noteq> ty' \<Longrightarrow> GetByType (snd (foldl (putRow ty' row) ws d)) ty i = GetByType (snd ws) ty i"
  by (induction d arbitrary: ws) (simp_all add: putRow_alt entities.get_put_other)

definition dayTypeNames :: "string list" where
  "dayTypeNames = [''TokenDayData'', ''PoolDayData'', ''FactoryDayData'']"

lemma writeSeries_entities:
  "colonFree ty \<Longrightarrow> ty \<notin> set dayTypeNames \<Longrightarrow> GetByType (snd (writeSeries sn ws)) ty i = GetByType (snd ws) ty i"
  by (simp add: writeSeries_def Let_def putRows_entities dayTypeNames_def)

section \<open>The pass as a whole\<close>

text \<open>The pass runs: the head is not far behind, there are pools, and the batch of balances was answered.\<close>

definition passRuns :: "valView \<Rightarrow> store \<Rightarrow> bool" where
  "passRuns view s \<longleftrightarrow> \<not> headBehind view s \<and> dbPools s \<noteq> [] \<and> readBalances (vvBalances view) (dbPools s) (dbTokens s) \<noteq> []"

lemma revalue_skips: "\<not> passRuns view (snd ws) \<Longrightarrow> revalue cfg view ws = ws"
  by (auto simp: revalue_def passRuns_def PoolsRaw_def TokensRaw_def Let_def)

text \<open>The store before the factory row: everything the series is then added to.\<close>

definition valuedStore :: "valConfig \<Rightarrow> valView \<Rightarrow> store \<Rightarrow> tally \<times> seedToken gomap \<times> store" where
  "valuedStore cfg view s0 =
     (let vps = readBalances (vvBalances view) (dbPools s0) (dbTokens s0); prices = priceTokens vps (dbTokens s0);
          (nativeUSD, s1) = publishAnchor (vcNative cfg) prices s0;
          (trades, mark) = valuedTrades vps (dbTokens s0) prices s1;
          s2 = writeValues (snd (valueSwaps trades vps)) mark s1;
          tot = foldl (valuePool (TradedByPool s2) prices (dbPools s0))
                 \<lparr>tlStore = s2, tlTokenTVL = [], tlTokenBal = [], tlTokenVol = [], tlTokenTx = [], tlPoolTVL = [],
                  tlRatio = [], tlTotalTVL = Fin 0\<rparr> vps
      in (tot, publishNativeSupply cfg view (foldl (valueToken tot prices nativeUSD) (dbTokens s0, tlStore tot) (dbTokens s0))))"

lemma revalue_runs:
  assumes "passRuns view s0"
  shows "\<exists>sn f s2. revalue cfg view (w, s0) = writeSeries sn (w, SeedFactory ''1'' f (snd (snd (valuedStore cfg view s0))))
     \<and> sfPoolCount f = int (length (dbPools s0)) \<and> sfTxCount f = allTrades (TradedByPool s2)
     \<and> eventPart s2 = eventPart s0"
proof -
  define vps where "vps = readBalances (vvBalances view) (dbPools s0) (dbTokens s0)"
  define prices where "prices = priceTokens vps (dbTokens s0)"
  obtain nu s1 where a: "publishAnchor (vcNative cfg) prices s0 = (nu, s1)" by fastforce
  obtain trades mark where t: "valuedTrades vps (dbTokens s0) prices s1 = (trades, mark)" by fastforce
  obtain wv su where v: "valueSwaps trades vps = (wv, su)" by fastforce
  have e1: "eventPart s1 = eventPart s0" using publishAnchor_event(1)[of "vcNative cfg" prices s0] a by simp
  have n: "\<not> (headBehind view s0 \<or> dbPools s0 = [] \<or> vps = [])" using assms by (simp add: passRuns_def vps_def)
  show ?thesis
    unfolding revalue_def valuedStore_def Let_def snd_conv fst_conv PoolsRaw_def TokensRaw_def vps_def[symmetric] if_not_P[OF n]
      prices_def[symmetric] a prod.case t v
    by (rule exI, rule exI, rule exI[of _ "writeValues su mark s1"], intro conjI, rule refl, simp_all add: e1)
qed

lemma valuedStore_shape:
  "\<exists>tot prices nu. valuedStore cfg view s0 =
     (tot, publishNativeSupply cfg view (foldl (valueToken tot prices nu) (dbTokens s0, tlStore tot) (dbTokens s0)))"
  unfolding valuedStore_def Let_def split_beta by (rule exI)+ (rule refl)

lemma valuedStore_event:
  assumes "distinct (map fst (dbTokens s0))"
  shows "eventPart (snd (snd (valuedStore cfg view s0))) = eventPart s0
     \<and> dbGeneric (snd (snd (valuedStore cfg view s0))) = dbGeneric s0"
proof -
  define vps where "vps = readBalances (vvBalances view) (dbPools s0) (dbTokens s0)"
  define prices where "prices = priceTokens vps (dbTokens s0)"
  obtain nu s1 where a: "publishAnchor (vcNative cfg) prices s0 = (nu, s1)" by fastforce
  obtain trades mark where t: "valuedTrades vps (dbTokens s0) prices s1 = (trades, mark)" by fastforce
  define s2 where "s2 = writeValues (snd (valueSwaps trades vps)) mark s1"
  have s1: "eventPart s1 = eventPart s0" "dbGeneric s1 = dbGeneric s0"
    using publishAnchor_event[of "vcNative cfg" prices s0] a by simp_all
  define tot where "tot = foldl (valuePool (TradedByPool s2) prices (dbPools s0))
    \<lparr>tlStore = s2, tlTokenTVL = [], tlTokenBal = [], tlTokenVol = [], tlTokenTx = [], tlPoolTVL = [], tlRatio = [], tlTotalTVL = Fin 0\<rparr> vps"
  have tot: "eventPart (tlStore tot) = eventPart s0" "dbGeneric (tlStore tot) = dbGeneric s0"
    unfolding tot_def using valuePools_event[of _ s0] s1 by (simp_all add: s2_def)
  have g: "\<forall>(k, t) \<in> set (dbTokens s0). getKey (dbTokens s0) k = Some t" using assms by (auto simp: getKey_def)
  define ts where "ts = foldl (valueToken tot prices nu) (dbTokens s0, tlStore tot) (dbTokens s0)"
  have ts: "eventPart (snd ts) = eventPart s0" "dbGeneric (snd ts) = dbGeneric s0"
    "erase eventToken (fst ts) = erase eventToken (dbTokens s0)"
    using valueTokens_event[OF _ g, of "(dbTokens s0, tlStore tot)" tot prices nu] tot by (simp_all add: ts_def)
  have "valuedStore cfg view s0 = (tot, publishNativeSupply cfg view ts)"
    by (simp add: valuedStore_def Let_def vps_def[symmetric] prices_def[symmetric] a t s2_def[symmetric] tot_def[symmetric] ts_def)
  then show ?thesis using publishNativeSupply_event[OF ts(1,3)] ts(2) by simp
qed

text \<open>C24: A valuation pass touches derived figures only: every pool, token and trade keeps its key, its place and every field the
log handlers wrote, the cursor stays, and no entity but the rows of the three day series changes.\<close>

theorem valuation_keeps_events:
  assumes "distinct (map fst (dbTokens s))" "colonFree ty" "ty \<notin> set dayTypeNames"
  shows "eventPart (snd (revalue cfg view (w, s))) = eventPart s \<and>
     GetByType (snd (revalue cfg view (w, s))) ty i = GetByType s ty i"
proof (cases "passRuns view s")
  case True
  then obtain sn f where r: "revalue cfg view (w, s) = writeSeries sn (w, SeedFactory ''1'' f (snd (snd (valuedStore cfg view s))))"
    using revalue_runs by blast
  show ?thesis
    using valuedStore_event[OF assms(1)] writeSeries_entities[OF assms(2,3)]
    by (simp add: r writeSeries_event) (simp add: GetByType_def)
qed (simp add: revalue_skips)

lemma allTrades_put:
  "distinct (map fst m) \<Longrightarrow>
   allTrades (putKey k (n, v) m) = allTrades m - (case getKey m k of Some (n', _) \<Rightarrow> n' | None \<Rightarrow> 0) + n"
  by (induction m) (auto simp: allTrades_def putKey_def getKey_def)

lemma allTrades_fold:
  "distinct (map fst out) \<Longrightarrow> allTrades (foldl addTraded out xs) = allTrades out + int (length xs)"
proof (induction xs arbitrary: out)
  case (Cons kv xs)
  have "distinct (map fst (addTraded out kv))" using Cons.prems by (simp add: addTraded_def Let_def)
  moreover have "allTrades (addTraded out kv) = allTrades out + 1"
    using Cons.prems by (auto simp: addTraded_def Let_def allTrades_put split: option.splits)
  ultimately show ?case using Cons.IH by simp
qed simp

lemma putRows_factories: "dbFactories (snd (foldl (putRow ty row) ws d)) = dbFactories (snd ws)"
  by (induction d arbitrary: ws) (simp_all add: putRow_alt SetEntity_def)

lemma putRows_tokens: "dbTokens (snd (foldl (putRow ty row) ws d)) = dbTokens (snd ws)"
  by (induction d arbitrary: ws) (simp_all add: putRow_alt SetEntity_def)

text \<open>After a pass the protocol's row counts what is there: as many pools as the store has and as many trades, not what
handlers added up on the way.\<close>

theorem factory_counts_are_true:
  assumes "passRuns view s"
  shows "\<exists>f. getKey (dbFactories (snd (revalue cfg view (w, s)))) ''1'' = Some f \<and>
     sfPoolCount f = int (length (dbPools s)) \<and> sfTxCount f = int (length (dbSwaps s))"
proof -
  obtain sn f s2 where r: "revalue cfg view (w, s) = writeSeries sn (w, SeedFactory ''1'' f (snd (snd (valuedStore cfg view s))))"
    and f: "sfPoolCount f = int (length (dbPools s))" "sfTxCount f = allTrades (TradedByPool s2)" "eventPart s2 = eventPart s"
    using revalue_runs[OF assms] by blast
  have "erase eventSwap (dbSwaps s2) = erase eventSwap (dbSwaps s)" using f(3) by (simp add: eventPart_def)
  then have "length (dbSwaps s2) = length (dbSwaps s)" by (metis length_erase)
  then have "sfTxCount f = int (length (dbSwaps s))"
    using f(2) allTrades_fold[of "[]"] by (simp add: TradedByPool_def allTrades_def)
  then show ?thesis using f(1) by (simp add: r writeSeries_def Let_def putRows_factories SeedFactory_def)
qed

text \<open>The supply of the native coin is the last word on its row: after a pass that read it, the row of the wrapped coin
carries what was minted and what cannot be sold, whatever the pass wrote to the row before.\<close>

theorem supply_is_the_last_word:
  assumes "passRuns view s" "vcNative cfg \<noteq> ''''" "readNativeSupply cfg view = Some n"
    and "getKey (dbTokens s) (vcNative cfg) \<noteq> None"
  shows "\<exists>t. getKey (dbTokens (snd (revalue cfg view (w, s)))) (vcNative cfg) = Some t \<and>
     stTotalSupply t = fmtUnits (nsMinted n) \<and> stStaked t = fmtUnits (fadd (nsStaked n) (nsUndistributed n))"
proof -
  obtain sn f where r: "revalue cfg view (w, s) = writeSeries sn (w, SeedFactory ''1'' f (snd (snd (valuedStore cfg view s))))"
    using revalue_runs[OF assms(1)] by blast
  have keep: "getKey (fst (foldl (valueToken tot prices nu) ts xs)) k \<noteq> None" if "getKey (fst ts) k \<noteq> None" for tot prices nu ts xs k
    using that by (induction xs arbitrary: ts) (auto simp: valueToken_def Let_def)
  have p: "\<exists>t. getKey (dbTokens (snd (publishNativeSupply cfg view ts))) (vcNative cfg) = Some t \<and>
      stTotalSupply t = fmtUnits (nsMinted n) \<and> stStaked t = fmtUnits (fadd (nsStaked n) (nsUndistributed n))"
    if "getKey (fst ts) (vcNative cfg) \<noteq> None" for ts
    using that assms(2,3) by (auto simp: publishNativeSupply_def Let_def SeedToken_def)
  obtain tot prices nu where v: "valuedStore cfg view s =
      (tot, publishNativeSupply cfg view (foldl (valueToken tot prices nu) (dbTokens s, tlStore tot) (dbTokens s)))"
    using valuedStore_shape by blast
  have "getKey (fst (foldl (valueToken tot prices nu) (dbTokens s, tlStore tot) (dbTokens s))) (vcNative cfg) \<noteq> None"
    using assms(4) by (intro keep) simp
  from p[OF this] show ?thesis by (simp add: r v writeSeries_def Let_def putRows_tokens SeedFactory_def)
qed

section \<open>Example\<close>

definition exAddr :: "char \<Rightarrow> string" where
  "exAddr c = ''0x'' @ replicate 40 c"

definition exBook :: store where
  "exBook = NewStore\<lparr>
     dbPools := [(exAddr (CHR ''a''), \<lparr>spToken0 = exAddr (CHR ''b''), spToken1 = exAddr (CHR ''c''), spFeeTier = 3000,
       spTotalValueLockedUSD = '''', spVolumeUSD = '''', spToken0Price = '''', spToken1Price = '''', spTxCount = 0\<rparr>)],
     dbTokens := [(exAddr (CHR ''b''), exCoin ''USDC''), (exAddr (CHR ''c''), exCoin ''WLUX'')]\<rparr>"

definition exView :: valView where
  "exView = \<lparr>vvHead = Some 9, vvBalances = (\<lambda>calls. Some []), vvBalanceOf = (\<lambda>_. None), vvStake = (\<lambda>_. None), vvNow = 864000\<rparr>"

definition exValConfig :: valConfig where
  "exValConfig = \<lparr>vcNative = exAddr (CHR ''c''), vcGenesisSupply = ''7'', vcTreasury = '''', vcRPC = ''http://node''\<rparr>"

lemma exPassRuns: "passRuns exView exBook"
proof -
  have "length (readBalances (vvBalances exView) (dbPools exBook) (dbTokens exBook)) = 1" by code_simp
  moreover have "\<not> headBehind exView exBook" "dbPools exBook \<noteq> []" by code_simp+
  ultimately show ?thesis by (auto simp: passRuns_def)
qed

theorem factory_counts_are_true_witness:
  "\<exists>f. getKey (dbFactories (snd (revalue exValConfig exView ([], exBook)))) ''1'' = Some f \<and> sfPoolCount f = 1 \<and> sfTxCount f = 0"
  using factory_counts_are_true[OF exPassRuns, of exValConfig "[]"] by (simp add: exBook_def NewStore_def)

theorem valuation_keeps_events_witness:
  "eventPart (snd (revalue exValConfig exView ([], exBook))) = eventPart exBook \<and>
   GetByType (snd (revalue exValConfig exView ([], exBook))) ''Market'' ''m'' = VNil"
proof -
  have "exAddr (CHR ''b'') \<noteq> exAddr (CHR ''c'')" by code_simp
  then have "distinct (map fst (dbTokens exBook))" by (simp add: exBook_def)
  moreover have "colonFree ''Market''" "''Market'' \<notin> set dayTypeNames" by code_simp+
  moreover have "GetByType exBook ''Market'' ''m'' = VNil" by (simp add: exBook_def NewStore_def GetByType_def getKey_def)
  ultimately show ?thesis using valuation_keeps_events[of exBook "''Market''" exValConfig exView "[]" "''m''"] by simp
qed

lemma exMinted: "parseFloat ''7'' = Some (Fin 7)"
proof -
  have "readFloat ''7'' = Some 7" "''7'' \<noteq> ''inf''" by code_simp+
  moreover have "toLower (dropSign ''7'') \<notin> {''inf'', ''infinity''}" "toLower ''7'' \<noteq> ''nan''"
    by (auto simp: toLower_def dropSign_def)
  moreover have "toF64 7 = Fin 7" using toF64_int[of 7] by simp
  ultimately show ?thesis by (simp add: parseFloat_def)
qed

theorem supply_is_the_last_word_witness:
  "\<exists>t. getKey (dbTokens (snd (revalue exValConfig exView ([], exBook)))) (exAddr (CHR ''c'')) = Some t \<and>
     stTotalSupply t = fmtUnits (Fin 7) \<and> stStaked t = fmtUnits (fadd (Fin 0) (Fin 0))"
proof -
  have "platformEndpoint ''http://node'' = None" by code_simp
  then have "readNativeSupply exValConfig exView = Some \<lparr>nsMinted = Fin 7, nsUndistributed = Fin 0, nsStaked = Fin 0\<rparr>"
    by (simp add: readNativeSupply_def exValConfig_def exMinted fle_def)
  moreover have "vcNative exValConfig \<noteq> ''''" "getKey (dbTokens exBook) (vcNative exValConfig) \<noteq> None" by code_simp+
  ultimately show ?thesis
    using supply_is_the_last_word[OF exPassRuns, of exValConfig _ "[]"] by (simp add: exValConfig_def)
qed

end
