(* ===== verification/SqlStore.thy ===== *)
theory SqlStore
  imports Valuation Abi
begin

text \<open>
  The SQL backend, src/storage/store_sqlite.go, which every build links unless it is tagged \<open>nosqlite\<close>.  A
  table is the list of its rows in the order of their row ids: \<open>INSERT OR REPLACE\<close> drops the row of the key
  and adds the new one at the end, \<open>UPDATE\<close> changes a row where it is.  A \<open>SELECT\<close> without \<open>ORDER BY\<close> promises
  no order and rows that an \<open>ORDER BY\<close> does not tell apart come in any order; the order of the table is one of
  those it may give.  The column \<open>data\<close> holds a row's JSON; what is kept here is the row that the JSON reads
  back as, so a text that is not UTF-8 is changed by the write.  Statements succeed, except in the
  transaction of \<open>ValueSwaps\<close>, where refusing one is a parameter.  SQLite's \<open>SUM\<close> is a parameter.  The limit
  of a page is at least 1, as \<open>parseListArgs\<close> leaves it.  The collections that are always empty here are
  always empty in the map backend too, and are modelled there.

  The lemmas relate the two backends: after the same writes every read by key answers the same, and a page
  of a pool's trades is the best prefix of the pool's rows.  Other filters and orders come after the limit.
\<close>

section \<open>Documents\<close>

text \<open>\<open>encoding/json\<close> writes U+FFFD for every byte that starts no UTF-8 sequence.  \<open>runeLen\<close> is the length of
  the sequence a text starts with, 0 when it starts with none.\<close>

definition continues :: "string \<Rightarrow> nat \<Rightarrow> nat \<Rightarrow> nat \<Rightarrow> bool" where
  "continues s k lo hi \<longleftrightarrow> k < length s \<and> lo \<le> byteOf (s ! k) \<and> byteOf (s ! k) \<le> hi"

definition runeLen :: "string \<Rightarrow> nat" where
  "runeLen s =
     (let b = byteOf (hd s); more = (\<lambda>k. continues s k 0x80 0xBF) in
      if b < 0x80 then 1
      else if 0xC2 \<le> b \<and> b \<le> 0xDF then (if more 1 then 2 else 0)
      else if 0xE0 \<le> b \<and> b \<le> 0xEF then
        (if continues s 1 (if b = 0xE0 then 0xA0 else 0x80) (if b = 0xED then 0x9F else 0xBF) \<and> more 2 then 3 else 0)
      else if 0xF0 \<le> b \<and> b \<le> 0xF4 then
        (if continues s 1 (if b = 0xF0 then 0x90 else 0x80) (if b = 0xF4 then 0x8F else 0xBF) \<and> more 2 \<and> more 3
         then 4 else 0)
      else 0)"

function docText :: "string \<Rightarrow> string" where
  "docText [] = []"
| "docText (c # cs) =
     (let n = runeLen (c # cs) in
      if n = 0 then [CHR 0xEF, CHR 0xBF, CHR 0xBD] @ docText cs
      else take n (c # cs) @ docText (drop (n - 1) cs))"
  by pat_completeness auto
termination
  by (relation "measure length") (auto simp: less_Suc_eq_le)

declare docText.simps(2) [simp del]

text \<open>A number of an entity comes back as a float64; field names are ASCII.\<close>

definition docInt :: "int \<Rightarrow> int" where
  "docInt n = (case toF64 (of_int n) of Fin x \<Rightarrow> \<lfloor>x\<rfloor> | _ \<Rightarrow> n)"

fun docValue :: "val \<Rightarrow> val" where
  "docValue (VStr s) = VStr (docText s)"
| "docValue (VInt n) = VInt (docInt n)"
| "docValue (VList vs) = VList (map docValue vs)"
| "docValue (VMap m) = VMap (map (\<lambda>(k, v). (k, docValue v)) m)"
| "docValue v = v"

definition docFactory :: "seedFactory \<Rightarrow> seedFactory" where
  "docFactory f = f\<lparr>sfTotalVolumeUSD := docText (sfTotalVolumeUSD f),
     sfTotalValueLockedUSD := docText (sfTotalValueLockedUSD f)\<rparr>"

definition docBundle :: "seedBundle \<Rightarrow> seedBundle" where
  "docBundle b = b\<lparr>sbEthPriceUSD := docText (sbEthPriceUSD b)\<rparr>"

definition docToken :: "seedToken \<Rightarrow> seedToken" where
  "docToken t = t\<lparr>stSymbol := docText (stSymbol t), stName := docText (stName t),
     stTotalSupply := docText (stTotalSupply t), stStaked := docText (stStaked t),
     stVolumeUSD := docText (stVolumeUSD t), stTotalValueLockedUSD := docText (stTotalValueLockedUSD t),
     stDerivedETH := docText (stDerivedETH t)\<rparr>"

definition docPool :: "seedPool \<Rightarrow> seedPool" where
  "docPool p = p\<lparr>spToken0 := docText (spToken0 p), spToken1 := docText (spToken1 p),
     spTotalValueLockedUSD := docText (spTotalValueLockedUSD p), spVolumeUSD := docText (spVolumeUSD p),
     spToken0Price := docText (spToken0Price p), spToken1Price := docText (spToken1Price p)\<rparr>"

definition docSwap :: "seedSwap \<Rightarrow> seedSwap" where
  "docSwap w = w\<lparr>swPool := docText (swPool w), swAmount0 := docText (swAmount0 w), swAmount1 := docText (swAmount1 w),
     swAmountUSD := docText (swAmountUSD w), swSender := docText (swSender w)\<rparr>"

section \<open>Tables\<close>

text \<open>A swap's columns beside its document.\<close>

record sqlSwap =
  qsDoc :: seedSwap
  qsTimestamp :: int
  qsPool :: string
  qsAmountUSD :: f64

record sqlStore =
  tbFactories :: "seedFactory gomap"
  tbBundles :: "seedBundle gomap"
  tbTokens :: "seedToken gomap"
  tbPools :: "seedPool gomap"
  tbSwaps :: "sqlSwap gomap"
  tbEntities :: "((string \<times> string) \<times> val) list"
  tbMeta :: "string gomap"

definition emptyDb :: sqlStore where
  "emptyDb = \<lparr>tbFactories = [], tbBundles = [], tbTokens = [], tbPools = [], tbSwaps = [], tbEntities = [], tbMeta = []\<rparr>"

definition replaceRow :: "'k \<Rightarrow> 'r \<Rightarrow> ('k \<times> 'r) list \<Rightarrow> ('k \<times> 'r) list" where
  "replaceRow k r t = filter (\<lambda>(k', _). k' \<noteq> k) t @ [(k, r)]"

definition updateRow :: "'k \<Rightarrow> ('r \<Rightarrow> 'r) \<Rightarrow> ('k \<times> 'r) list \<Rightarrow> ('k \<times> 'r) list" where
  "updateRow k f t = map (\<lambda>(k', r). (k', if k' = k then f r else r)) t"

text \<open>A negative \<open>LIMIT\<close> is none.\<close>

definition sqlLimit :: "int \<Rightarrow> 'a list \<Rightarrow> 'a list" where
  "sqlLimit n xs = (if n < 0 then xs else take (nat n) xs)"

section \<open>Meta rows\<close>

definition setMeta :: "string \<Rightarrow> string \<Rightarrow> sqlStore \<Rightarrow> sqlStore" where
  "setMeta k v db = db\<lparr>tbMeta := replaceRow k v (tbMeta db)\<rparr>"

definition sqlSetLastBlock :: "64 word \<Rightarrow> sqlStore \<Rightarrow> sqlStore" where
  "sqlSetLastBlock block = setMeta ''lastBlock'' (natText 10 (unat block))"

definition sqlGetLastBlock :: "sqlStore \<Rightarrow> 64 word" where
  "sqlGetLastBlock db =
     (case getKey (tbMeta db) ''lastBlock'' of None \<Rightarrow> 0 | Some v \<Rightarrow> of_nat (fst (parseUint 10 v)))"

definition sqlSetPricedThrough :: "int \<Rightarrow> sqlStore \<Rightarrow> sqlStore" where
  "sqlSetPricedThrough ts = setMeta ''pricedThrough'' (intText 10 ts)"

definition sqlPricedThrough :: "sqlStore \<Rightarrow> int" where
  "sqlPricedThrough db =
     (case getKey (tbMeta db) ''pricedThrough'' of None \<Rightarrow> 0 | Some v \<Rightarrow> fst (parseInt 10 v))"

definition SetSource :: "string \<Rightarrow> sqlStore \<Rightarrow> sqlStore" where
  "SetSource fp = setMeta ''source'' fp"

definition Source :: "sqlStore \<Rightarrow> string" where
  "Source db = (case getKey (tbMeta db) ''source'' of None \<Rightarrow> '''' | Some v \<Rightarrow> v)"

definition sqlDropDerived :: "sqlStore \<Rightarrow> sqlStore" where
  "sqlDropDerived db =
     db\<lparr>tbFactories := [], tbBundles := [], tbTokens := [], tbPools := [], tbSwaps := [], tbEntities := [],
       tbMeta := filter (\<lambda>(k, _). k \<noteq> ''lastBlock'') (tbMeta db)\<rparr>"

section \<open>Writing rows\<close>

definition sqlSeedFactory :: "string \<Rightarrow> seedFactory \<Rightarrow> sqlStore \<Rightarrow> sqlStore" where
  "sqlSeedFactory i d db = db\<lparr>tbFactories := replaceRow i (docFactory d) (tbFactories db)\<rparr>"

definition sqlSeedBundle :: "string \<Rightarrow> seedBundle \<Rightarrow> sqlStore \<Rightarrow> sqlStore" where
  "sqlSeedBundle i d db = db\<lparr>tbBundles := replaceRow i (docBundle d) (tbBundles db)\<rparr>"

definition sqlSeedToken :: "string \<Rightarrow> seedToken \<Rightarrow> sqlStore \<Rightarrow> sqlStore" where
  "sqlSeedToken i d db = db\<lparr>tbTokens := replaceRow i (docToken d) (tbTokens db)\<rparr>"

definition sqlSeedPool :: "string \<Rightarrow> seedPool \<Rightarrow> sqlStore \<Rightarrow> sqlStore" where
  "sqlSeedPool i d db = db\<lparr>tbPools := replaceRow i (docPool d) (tbPools db)\<rparr>"

definition sqlSeedSwap :: "string \<Rightarrow> seedSwap \<Rightarrow> sqlStore \<Rightarrow> sqlStore" where
  "sqlSeedSwap i d db = db\<lparr>tbSwaps := replaceRow i
     \<lparr>qsDoc = docSwap d, qsTimestamp = swTimestamp d, qsPool = swPool d, qsAmountUSD = dollars (swAmountUSD d)\<rparr>
     (tbSwaps db)\<rparr>"

definition sqlSetEntity :: "string \<Rightarrow> string \<Rightarrow> val \<Rightarrow> sqlStore \<Rightarrow> sqlStore" where
  "sqlSetEntity entityType i data db = db\<lparr>tbEntities := replaceRow (entityType, i) (docValue data) (tbEntities db)\<rparr>"

text \<open>One transaction: the values are written together or, when a statement is refused, not at all.\<close>

definition sqlValueSwap :: "sqlStore \<times> int \<Rightarrow> string \<times> string \<Rightarrow> sqlStore \<times> int" where
  "sqlValueSwap st kv =
     (case getKey (tbSwaps (fst st)) (fst kv) of
        None \<Rightarrow> st
      | Some _ \<Rightarrow>
          ((fst st)\<lparr>tbSwaps := updateRow (fst kv)
             (\<lambda>r. r\<lparr>qsDoc := docSwap ((qsDoc r)\<lparr>swAmountUSD := snd kv\<rparr>), qsAmountUSD := dollars (snd kv)\<rparr>)
             (tbSwaps (fst st))\<rparr>, snd st + 1))"

definition sqlValueSwaps :: "(string \<Rightarrow> bool) \<Rightarrow> string gomap \<Rightarrow> sqlStore \<Rightarrow> sqlStore \<times> int \<times> bool" where
  "sqlValueSwaps refuses usd db =
     (if usd = [] then (db, 0, True)
      else if list_ex (\<lambda>(i, _). refuses i) usd then (db, 0, False)
      else (let r = foldl sqlValueSwap (db, 0) usd in (fst r, snd r, True)))"

text \<open>A database written before the column \<open>amountUSD\<close> gets it once, filled from the documents.\<close>

definition projectAmounts :: "sqlStore \<Rightarrow> sqlStore" where
  "projectAmounts db =
     db\<lparr>tbSwaps := map (\<lambda>(i, r). (i, let usd = dollars (swAmountUSD (qsDoc r)) in
        if feq usd (Fin 0) then r else r\<lparr>qsAmountUSD := usd\<rparr>)) (tbSwaps db)\<rparr>"

definition Init :: "bool \<Rightarrow> sqlStore \<Rightarrow> sqlStore" where
  "Init hasColumn db =
     (if hasColumn then db
      else projectAmounts (db\<lparr>tbSwaps := map (\<lambda>(i, r). (i, r\<lparr>qsAmountUSD := Fin 0\<rparr>)) (tbSwaps db)\<rparr>))"

section \<open>Reading rows\<close>

definition sqlGetByType :: "sqlStore \<Rightarrow> string \<Rightarrow> string \<Rightarrow> val" where
  "sqlGetByType db entityType i =
     (case map_of (tbEntities db) (entityType, i) of None \<Rightarrow> VNil | Some v \<Rightarrow> v)"

definition rowsOfType :: "sqlStore \<Rightarrow> string \<Rightarrow> val list" where
  "rowsOfType db entityType = map snd (filter (\<lambda>((t, _), _). t = entityType) (tbEntities db))"

definition sqlListByType :: "sqlStore \<Rightarrow> string \<Rightarrow> int \<Rightarrow> val" where
  "sqlListByType db entityType limit = VList (sqlLimit limit (rowsOfType db entityType))"

definition sqlEntities :: "sqlStore \<Rightarrow> string \<Rightarrow> int \<Rightarrow> string \<Rightarrow> string \<Rightarrow> val gomap \<Rightarrow> val" where
  "sqlEntities db entityType limit orderBy orderDirection conds =
     VList (page (rowsOfType db entityType) limit orderBy orderDirection conds)"

text \<open>The rows a presentation is built from, by key.\<close>

definition loadFactory :: "sqlStore \<Rightarrow> string \<Rightarrow> seedFactory option" where
  [simp]: "loadFactory db i = getKey (tbFactories db) i"

definition loadToken :: "sqlStore \<Rightarrow> string \<Rightarrow> seedToken option" where
  [simp]: "loadToken db a = getKey (tbTokens db) a"

definition loadPool :: "sqlStore \<Rightarrow> string \<Rightarrow> seedPool option" where
  [simp]: "loadPool db i = getKey (tbPools db) i"

definition sqlGetToken :: "sqlStore \<Rightarrow> string \<Rightarrow> val" where
  "sqlGetToken db a = (case loadToken db a of None \<Rightarrow> VNil | Some t \<Rightarrow> tokenToMap a t)"

definition sqlGetTokens :: "sqlStore \<Rightarrow> int \<Rightarrow> string \<Rightarrow> string \<Rightarrow> val gomap \<Rightarrow> val" where
  "sqlGetTokens db limit orderBy orderDirection conds =
     (let rs = sortResults (FilterResults (map (\<lambda>(a, t). tokenToMap a t) (tbTokens db)) conds) orderBy orderDirection
      in VList (if int (length rs) > limit then take (nat limit) rs else rs))"

definition sqlGetFactory :: "sqlStore \<Rightarrow> string \<Rightarrow> val" where
  "sqlGetFactory db i = (case loadFactory db i of None \<Rightarrow> VNil | Some f \<Rightarrow> factoryToMap i f)"

definition sqlGetFactories :: "sqlStore \<Rightarrow> val" where
  "sqlGetFactories db = VList (map (\<lambda>(i, f). factoryToMap i f) (tbFactories db))"

definition sqlGetBundle :: "sqlStore \<Rightarrow> string \<Rightarrow> val" where
  "sqlGetBundle db i =
     (case getKey (tbBundles db) i of
        None \<Rightarrow> VNil
      | Some b \<Rightarrow> VMap [(''id'', VStr i), (''ethPriceUSD'', VStr (sbEthPriceUSD b)), (''ethPrice'', VStr (sbEthPriceUSD b))])"

definition sqlTokenRef :: "sqlStore \<Rightarrow> string \<Rightarrow> val" where
  "sqlTokenRef db a =
     (case loadToken db a of
        None \<Rightarrow> VNil
      | Some t \<Rightarrow> VMap [(''id'', VStr a), (''symbol'', VStr (stSymbol t)), (''name'', VStr (stName t)),
                        (''decimals'', VInt (stDecimals t))])"

definition sqlPoolToMap :: "sqlStore \<Rightarrow> string \<Rightarrow> seedPool \<Rightarrow> val" where
  "sqlPoolToMap db i p = VMap
     [(''id'', VStr i), (''token0'', sqlTokenRef db (spToken0 p)), (''token1'', sqlTokenRef db (spToken1 p)),
      (''feeTier'', VInt (spFeeTier p)), (''totalValueLockedUSD'', VStr (spTotalValueLockedUSD p)),
      (''volumeUSD'', VStr (spVolumeUSD p)), (''token0Price'', VStr (spToken0Price p)),
      (''token1Price'', VStr (spToken1Price p)), (''txCount'', VInt (spTxCount p))]"

definition sqlGetPool :: "sqlStore \<Rightarrow> string \<Rightarrow> val" where
  "sqlGetPool db i = (case loadPool db i of None \<Rightarrow> VNil | Some p \<Rightarrow> sqlPoolToMap db i p)"

definition sqlGetPools :: "sqlStore \<Rightarrow> int \<Rightarrow> string \<Rightarrow> string \<Rightarrow> val gomap \<Rightarrow> val" where
  "sqlGetPools db limit orderBy orderDirection conds =
     (let rs = sortResults (FilterResults (map (\<lambda>(i, p). sqlPoolToMap db i p) (tbPools db)) conds) orderBy orderDirection
      in VList (if int (length rs) > limit then take (nat limit) rs else rs))"

definition sqlGetPair :: "sqlStore \<Rightarrow> string \<Rightarrow> val" where
  "sqlGetPair = sqlGetPool"

definition sqlGetPairs :: "sqlStore \<Rightarrow> int \<Rightarrow> string \<Rightarrow> string \<Rightarrow> val gomap \<Rightarrow> val" where
  "sqlGetPairs = sqlGetPools"

definition sqlGetTokenDayDatas :: "sqlStore \<Rightarrow> int \<Rightarrow> string \<Rightarrow> string \<Rightarrow> val gomap \<Rightarrow> val" where
  "sqlGetTokenDayDatas db = sqlEntities db TokenDay"

definition sqlGetPoolDayDatas :: "sqlStore \<Rightarrow> int \<Rightarrow> string \<Rightarrow> string \<Rightarrow> val gomap \<Rightarrow> val" where
  "sqlGetPoolDayDatas db = sqlEntities db PoolDay"

definition sqlGetFactoryDayDatas :: "sqlStore \<Rightarrow> int \<Rightarrow> string \<Rightarrow> string \<Rightarrow> val gomap \<Rightarrow> val" where
  "sqlGetFactoryDayDatas db = sqlEntities db FactoryDay"

definition sqlSwapToMap :: "sqlStore \<Rightarrow> string \<Rightarrow> seedSwap \<Rightarrow> val" where
  "sqlSwapToMap db i sw = VMap
     [(''id'', VStr i), (''timestamp'', VInt (swTimestamp sw)),
      (''pool'', case loadPool db (swPool sw) of Some p \<Rightarrow> sqlPoolToMap db (swPool sw) p
                                                 | None \<Rightarrow> VStr (swPool sw)),
      (''amount0'', VStr (swAmount0 sw)), (''amount1'', VStr (swAmount1 sw)),
      (''amountUSD'', VStr (swAmountUSD sw)), (''sender'', VStr (swSender sw))]"

definition sqlGetSwap :: "sqlStore \<Rightarrow> string \<Rightarrow> val" where
  "sqlGetSwap db i = (case getKey (tbSwaps db) i of None \<Rightarrow> VNil | Some r \<Rightarrow> sqlSwapToMap db i (qsDoc r))"

section \<open>A page of swaps\<close>

definition whereString :: "val gomap \<Rightarrow> string \<Rightarrow> string option" where
  "whereString conds k =
     (case getKey conds k of Some (VStr s) \<Rightarrow> if s = '''' then None else Some s | _ \<Rightarrow> None)"

definition whereNumber :: "val gomap \<Rightarrow> string \<Rightarrow> f64 option" where
  "whereNumber conds k =
     (case getKey conds k of None \<Rightarrow> None | Some VNil \<Rightarrow> None | Some v \<Rightarrow> parseFloat (sprint v))"

text \<open>An integer column against a real; NaN is bound as \<open>NULL\<close>, to which nothing compares.\<close>

definition columnBelow :: "int \<Rightarrow> f64 \<Rightarrow> bool" where
  "columnBelow n b = (case b of Fin x \<Rightarrow> of_int n < x | FInf neg \<Rightarrow> \<not> neg | FNaN \<Rightarrow> False)"

definition sqlWhere :: "val gomap \<Rightarrow> string \<times> sqlSwap \<Rightarrow> bool" where
  "sqlWhere conds row \<longleftrightarrow>
     (case whereString conds ''pool'' of None \<Rightarrow> True | Some p \<Rightarrow> toLower (qsPool (snd row)) = toLower p) \<and>
     (case whereNumber conds ''timestamp_lt'' of None \<Rightarrow> True | Some b \<Rightarrow> columnBelow (qsTimestamp (snd row)) b)"

definition sqlOrder :: "string \<Rightarrow> string \<Rightarrow> sqlSwap gomap \<Rightarrow> sqlSwap gomap" where
  "sqlOrder orderBy orderDirection rows =
     (if orderBy \<noteq> ''timestamp'' then rows
      else if equalFold orderDirection ''desc'' then sort_key (\<lambda>(_, r). - qsTimestamp r) rows
      else sort_key (\<lambda>(_, r). qsTimestamp r) rows)"

definition sqlGetSwaps :: "sqlStore \<Rightarrow> int \<Rightarrow> string \<Rightarrow> string \<Rightarrow> val gomap \<Rightarrow> val" where
  "sqlGetSwaps db limit orderBy0 orderDirection0 conds =
     (let orderBy = (if orderBy0 = '''' then ''timestamp'' else orderBy0);
          orderDirection = (if orderDirection0 = '''' then ''desc'' else orderDirection0);
          rows = sqlLimit limit (sqlOrder orderBy orderDirection (filter (sqlWhere conds) (tbSwaps db)));
          found = FilterResults (map (\<lambda>(i, r). sqlSwapToMap db i (qsDoc r)) rows) conds;
          rs = (if orderBy \<noteq> ''timestamp'' then sortResults found orderBy orderDirection else found)
      in VList (if int (length rs) > limit then take (nat limit) rs else rs))"

section \<open>Raw reads\<close>

definition sqlPoolsRaw :: "sqlStore \<Rightarrow> seedPool gomap" where
  "sqlPoolsRaw db = tbPools db"

definition sqlTokensRaw :: "sqlStore \<Rightarrow> seedToken gomap" where
  "sqlTokensRaw db = tbTokens db"

definition docsOf :: "sqlSwap gomap \<Rightarrow> seedSwap gomap" where
  "docsOf rows = map (\<lambda>(i, r). (i, qsDoc r)) rows"

definition sqlSwapsAfter :: "sqlStore \<Rightarrow> int \<Rightarrow> int \<Rightarrow> seedSwap gomap" where
  "sqlSwapsAfter db ts limit =
     docsOf (sqlLimit limit (sort_key (\<lambda>(_, r). qsTimestamp r) (filter (\<lambda>(_, r). qsTimestamp r > ts) (tbSwaps db))))"

definition sqlRecentSwapsRaw :: "sqlStore \<Rightarrow> int \<Rightarrow> seedSwap gomap" where
  "sqlRecentSwapsRaw db limit = docsOf (sqlLimit limit (sort_key (\<lambda>(_, r). - qsTimestamp r) (tbSwaps db)))"

text \<open>The limit cuts before the test of the block.\<close>

definition sqlUndatedSwapsRaw :: "sqlStore \<Rightarrow> int \<Rightarrow> seedSwap gomap" where
  "sqlUndatedSwapsRaw db limit =
     filter (\<lambda>(_, sw). \<not> Dated sw \<and> swTimestamp sw > 0)
       (docsOf (sqlLimit limit (sort_key (\<lambda>(_, r). qsTimestamp r) (tbSwaps db))))"

definition sqlTradedByPool :: "(f64 list \<Rightarrow> f64) \<Rightarrow> sqlStore \<Rightarrow> (int \<times> f64) gomap" where
  "sqlTradedByPool addUp db =
     map (\<lambda>p. let rows = filter (\<lambda>(_, r). toLower (qsPool r) = p) (tbSwaps db)
              in (p, (int (length rows), addUp (map (\<lambda>(_, r). qsAmountUSD r) rows))))
       (remdups (map (\<lambda>(_, r). toLower (qsPool r)) (tbSwaps db)))"

section \<open>The two backends agree\<close>

lemma map_of_replaceRow [simp]: "map_of (replaceRow k r t) k' = (if k' = k then Some r else map_of t k')"
  by (induction t) (auto simp: replaceRow_def)

text \<open>The table of entities keeps the entity contract under any type name; a read sees what JSON gives back.\<close>

interpretation sqlEntities: entity_store sqlSetEntity sqlGetByType docValue "\<lambda>_. True"
  by unfold_locales (auto simp: sqlSetEntity_def sqlGetByType_def split: option.split)

lemma map_of_updateRow [simp]:
  "map_of (updateRow k f t) k' = (if k' = k then map_option f (map_of t k) else map_of t k')"
  by (induction t) (auto simp: updateRow_def)

lemma keys_replaceRow: "distinct (map fst t) \<Longrightarrow> distinct (map fst (replaceRow k r t))"
  by (auto simp: replaceRow_def distinct_map inj_on_def)

lemma keys_updateRow [simp]: "map fst (updateRow k f t) = map fst t"
  by (induction t) (auto simp: updateRow_def)

lemma set_updateRow: "(k', r) \<in> set (updateRow k f t) \<Longrightarrow> \<exists>r0. (k', r0) \<in> set t \<and> r = (if k' = k then f r0 else r0)"
  by (auto simp: updateRow_def)

lemma docText_ascii: "list_all (\<lambda>c. byteOf c < 128) s \<Longrightarrow> docText s = s"
  by (induction s rule: docText.induct) (auto simp: runeLen_def docText.simps(2))

text \<open>A store has many writers; a run of writes is a list of these.\<close>

datatype rowWrite =
    PutFactory string seedFactory
  | PutBundle string seedBundle
  | PutToken string seedToken
  | PutPool string seedPool
  | PutSwap string seedSwap
  | PutEntity string string val
  | PutValues "string gomap"
  | PutBlock "64 word"
  | PutMark int

fun mapWrite :: "store \<Rightarrow> rowWrite \<Rightarrow> store" where
  "mapWrite s (PutFactory i d) = SeedFactory i d s"
| "mapWrite s (PutBundle i d) = SeedBundle i d s"
| "mapWrite s (PutToken i d) = SeedToken i d s"
| "mapWrite s (PutPool i d) = SeedPool i d s"
| "mapWrite s (PutSwap i d) = SeedSwap i d s"
| "mapWrite s (PutEntity t i v) = SetEntity t i v s"
| "mapWrite s (PutValues usd) = fst (ValueSwaps usd s)"
| "mapWrite s (PutBlock b) = SetLastBlock b s"
| "mapWrite s (PutMark ts) = SetPricedThrough ts s"

fun sqlWrite :: "sqlStore \<Rightarrow> rowWrite \<Rightarrow> sqlStore" where
  "sqlWrite db (PutFactory i d) = sqlSeedFactory i d db"
| "sqlWrite db (PutBundle i d) = sqlSeedBundle i d db"
| "sqlWrite db (PutToken i d) = sqlSeedToken i d db"
| "sqlWrite db (PutPool i d) = sqlSeedPool i d db"
| "sqlWrite db (PutSwap i d) = sqlSeedSwap i d db"
| "sqlWrite db (PutEntity t i v) = sqlSetEntity t i v db"
| "sqlWrite db (PutValues usd) = fst (sqlValueSwaps (\<lambda>_. False) usd db)"
| "sqlWrite db (PutBlock b) = sqlSetLastBlock b db"
| "sqlWrite db (PutMark ts) = sqlSetPricedThrough ts db"

text \<open>What reads back as it was written: UTF-8 texts, numbers a float64 holds, marks an int64 holds.\<close>

fun plainWrite :: "rowWrite \<Rightarrow> bool" where
  "plainWrite (PutFactory i d) = (docFactory d = d)"
| "plainWrite (PutBundle i d) = (docBundle d = d)"
| "plainWrite (PutToken i d) = (docToken d = d)"
| "plainWrite (PutPool i d) = (docPool d = d)"
| "plainWrite (PutSwap i d) = (docSwap d = d)"
| "plainWrite (PutEntity t i v) = (colonFree t \<and> docValue v = v)"
| "plainWrite (PutValues usd) = (\<forall>(i, v) \<in> set usd. docText v = v)"
| "plainWrite (PutBlock b) = True"
| "plainWrite (PutMark ts) = (- (2 ^ 63) \<le> ts \<and> ts < 2 ^ 63)"

definition inStep :: "sqlSwap \<Rightarrow> bool" where
  "inStep r \<longleftrightarrow> docSwap (qsDoc r) = qsDoc r \<and> qsTimestamp r = swTimestamp (qsDoc r) \<and> qsPool r = swPool (qsDoc r)
     \<and> qsAmountUSD r = dollars (swAmountUSD (qsDoc r))"

definition agrees :: "sqlStore \<Rightarrow> store \<Rightarrow> bool" where
  "agrees db s \<longleftrightarrow>
     map_of (tbFactories db) = map_of (dbFactories s) \<and> map_of (tbBundles db) = map_of (dbBundles s) \<and>
     map_of (tbTokens db) = map_of (dbTokens s) \<and> map_of (tbPools db) = map_of (dbPools s) \<and>
     (\<forall>i. map_option qsDoc (map_of (tbSwaps db) i) = map_of (dbSwaps s) i) \<and>
     (\<forall>t i. colonFree t \<longrightarrow> map_of (tbEntities db) (t, i) = map_of (dbGeneric s) (entityKey t i)) \<and>
     sqlGetLastBlock db = GetLastBlock s \<and> sqlPricedThrough db = PricedThrough s"

definition tidy :: "sqlStore \<Rightarrow> bool" where
  "tidy db \<longleftrightarrow> distinct (map fst (tbFactories db)) \<and> distinct (map fst (tbTokens db)) \<and> distinct (map fst (tbPools db)) \<and>
     distinct (map fst (tbSwaps db)) \<and> (\<forall>(i, r) \<in> set (tbSwaps db). inStep r)"

lemma scanDigits_ge: "scanDigits b acc s = (n, rest) \<Longrightarrow> 1 \<le> b \<Longrightarrow> acc \<le> n"
proof (induction s arbitrary: acc)
  case (Cons c s)
  show ?case
  proof (cases "digitVal c")
    case (Some d)
    show ?thesis
    proof (cases "d < b")
      case True
      then have "acc * b + d \<le> n" using Cons Some by simp
      moreover have "acc \<le> acc * b" using Cons.prems(2) by simp
      ultimately show ?thesis by linarith
    qed (use Cons Some in simp)
  qed (use Cons in simp)
qed simp

lemma scanUint_scanDigits:
  "scanDigits b acc s = (n, []) \<Longrightarrow> 1 \<le> b \<Longrightarrow> n < 2 ^ 64 \<Longrightarrow> scanUint b acc s = (n, True)"
proof (induction s arbitrary: acc)
  case (Cons c s)
  then obtain d where d: "digitVal c = Some d" "d < b" "scanDigits b (acc * b + d) s = (n, [])"
    by (auto split: option.splits if_splits)
  have "acc * b + d \<le> n" using scanDigits_ge[OF d(3) Cons.prems(2)] .
  then have "\<not> 2 ^ 64 \<le> acc * b + d" using Cons.prems(3) by linarith
  then show ?case using Cons.IH[OF d(3) Cons.prems(2,3)] d by simp
qed simp

lemma parseUint_natText: "n < 2 ^ 64 \<Longrightarrow> parseUint 10 (natText 10 n) = (n, True)"
  using scanUint_scanDigits[OF scanDigits_natText[of 10 n]] by (simp add: parseUint_def)

lemma parseInt_intText: "- (2 ^ 63) \<le> n \<Longrightarrow> n < 2 ^ 63 \<Longrightarrow> parseInt 10 (intText 10 n) = (n, True)"
proof -
  assume n: "- (2 ^ 63) \<le> n" "n < 2 ^ 63"
  obtain d cs where d: "d < 36" "natText 10 (nat n) = digitChar d # cs" using natText_hd[of 10 "nat n"] by auto
  have "digitChar d \<noteq> CHR ''-''" "digitChar d \<noteq> CHR ''+''" using digitChar_not_sign[OF d(1)] by auto
  moreover have "parseUint 10 (natText 10 (nat n)) = (nat n, True)" "parseUint 10 (natText 10 (nat (- n))) = (nat (- n), True)"
    using n by (simp_all add: parseUint_natText)
  ultimately show ?thesis using n d(2) by (auto simp: parseInt_def intText_def Let_def)
qed

lemma lastBlock_reads_back: "sqlGetLastBlock (sqlSetLastBlock b db) = b"
proof -
  have "unat b < 2 ^ 64" using unsigned_less[of b, where ?'a = nat] by simp
  then show ?thesis by (simp add: sqlGetLastBlock_def sqlSetLastBlock_def setMeta_def getKey_def parseUint_natText)
qed

lemma mark_reads_back: "- (2 ^ 63) \<le> ts \<Longrightarrow> ts < 2 ^ 63 \<Longrightarrow> sqlPricedThrough (sqlSetPricedThrough ts db) = ts"
  by (simp add: sqlPricedThrough_def sqlSetPricedThrough_def setMeta_def getKey_def parseInt_intText)

lemma agrees_empty: "agrees emptyDb NewStore" "tidy emptyDb"
  by (simp_all add: agrees_def tidy_def emptyDb_def NewStore_def sqlGetLastBlock_def GetLastBlock_def
      sqlPricedThrough_def PricedThrough_def getKey_def)

lemma map_of_putKey [simp]: "map_of (putKey k v m) k' = (if k' = k then Some v else map_of m k')"
  by (simp add: putKey_def update_conv')

lemma sql_meta_other [simp]:
  "sqlGetLastBlock (db\<lparr>tbFactories := a\<rparr>) = sqlGetLastBlock db" "sqlPricedThrough (db\<lparr>tbFactories := a\<rparr>) = sqlPricedThrough db"
  "sqlGetLastBlock (db\<lparr>tbBundles := b\<rparr>) = sqlGetLastBlock db" "sqlPricedThrough (db\<lparr>tbBundles := b\<rparr>) = sqlPricedThrough db"
  "sqlGetLastBlock (db\<lparr>tbTokens := c\<rparr>) = sqlGetLastBlock db" "sqlPricedThrough (db\<lparr>tbTokens := c\<rparr>) = sqlPricedThrough db"
  "sqlGetLastBlock (db\<lparr>tbPools := d\<rparr>) = sqlGetLastBlock db" "sqlPricedThrough (db\<lparr>tbPools := d\<rparr>) = sqlPricedThrough db"
  "sqlGetLastBlock (db\<lparr>tbSwaps := e\<rparr>) = sqlGetLastBlock db" "sqlPricedThrough (db\<lparr>tbSwaps := e\<rparr>) = sqlPricedThrough db"
  "sqlGetLastBlock (db\<lparr>tbEntities := f\<rparr>) = sqlGetLastBlock db" "sqlPricedThrough (db\<lparr>tbEntities := f\<rparr>) = sqlPricedThrough db"
  by (simp_all add: sqlGetLastBlock_def sqlPricedThrough_def)

lemma sql_meta_apart [simp]:
  "sqlPricedThrough (sqlSetLastBlock b db) = sqlPricedThrough db"
  "sqlGetLastBlock (sqlSetPricedThrough ts db) = sqlGetLastBlock db"
  by (simp_all add: sqlGetLastBlock_def sqlPricedThrough_def sqlSetLastBlock_def sqlSetPricedThrough_def setMeta_def getKey_def)

lemma docSwap_amount: "docSwap w = w \<Longrightarrow> docText v = v \<Longrightarrow> docSwap (w\<lparr>swAmountUSD := v\<rparr>) = w\<lparr>swAmountUSD := v\<rparr>"
  by (cases w) (simp add: docSwap_def)

lemma valueSwap_step:
  assumes "agrees db s" "tidy db" "docText v = v"
  shows "agrees (fst (sqlValueSwap (db, n) (i, v))) (fst (valueSwap (s, m) (i, v)))"
    "tidy (fst (sqlValueSwap (db, n) (i, v)))"
proof -
  have d: "map_option qsDoc (map_of (tbSwaps db) j) = map_of (dbSwaps s) j" for j using assms(1) by (simp add: agrees_def)
  show "agrees (fst (sqlValueSwap (db, n) (i, v))) (fst (valueSwap (s, m) (i, v)))"
  proof (cases "map_of (tbSwaps db) i")
    case None
    then have "map_of (dbSwaps s) i = None" using d[of i] by simp
    then show ?thesis using assms(1) None by (simp add: sqlValueSwap_def valueSwap_def getKey_def)
  next
    case (Some r)
    then have r: "map_of (dbSwaps s) i = Some (qsDoc r)" using d[of i] by simp
    have "inStep r" using Some assms(2) map_of_SomeD[OF Some] by (auto simp: tidy_def)
    then have "docSwap ((qsDoc r)\<lparr>swAmountUSD := v\<rparr>) = (qsDoc r)\<lparr>swAmountUSD := v\<rparr>"
      using assms(3) by (simp add: inStep_def docSwap_amount)
    then show ?thesis using assms(1) Some r
      by (simp add: sqlValueSwap_def valueSwap_def getKey_def agrees_def SeedSwap_def GetLastBlock_def PricedThrough_def)
  qed
  show "tidy (fst (sqlValueSwap (db, n) (i, v)))"
  proof (cases "map_of (tbSwaps db) i")
    case (Some r)
    have "inStep r'" if row: "(j, r') \<in> set (updateRow i (\<lambda>r. r\<lparr>qsDoc := docSwap ((qsDoc r)\<lparr>swAmountUSD := v\<rparr>),
        qsAmountUSD := dollars v\<rparr>) (tbSwaps db))" for j r'
    proof -
      obtain r0 where r0: "(j, r0) \<in> set (tbSwaps db)"
          "r' = (if j = i then r0\<lparr>qsDoc := docSwap ((qsDoc r0)\<lparr>swAmountUSD := v\<rparr>), qsAmountUSD := dollars v\<rparr> else r0)"
        using set_updateRow[OF row] by blast
      have "inStep r0" using assms(2) r0(1) by (auto simp: tidy_def)
      then show ?thesis using r0(2) assms(3) by (simp add: inStep_def docSwap_amount)
    qed
    then show ?thesis using assms(2) Some by (auto simp: sqlValueSwap_def getKey_def tidy_def)
  qed (use assms(2) in \<open>simp add: sqlValueSwap_def getKey_def\<close>)
qed

lemma valueSwaps_step:
  "agrees db s \<Longrightarrow> tidy db \<Longrightarrow> \<forall>(i, v) \<in> set usd. docText v = v \<Longrightarrow>
   agrees (fst (foldl sqlValueSwap (db, n) usd)) (fst (foldl valueSwap (s, m) usd)) \<and> tidy (fst (foldl sqlValueSwap (db, n) usd))"
proof (induction usd arbitrary: db s n m)
  case (Cons kv usd)
  obtain i v where kv: "kv = (i, v)" by (cases kv)
  obtain db' n' where db': "sqlValueSwap (db, n) (i, v) = (db', n')" by (cases "sqlValueSwap (db, n) (i, v)")
  obtain s' m' where s': "valueSwap (s, m) (i, v) = (s', m')" by (cases "valueSwap (s, m) (i, v)")
  have "docText v = v" using Cons.prems(3) kv by simp
  then have "agrees db' s'" "tidy db'"
    using valueSwap_step(1)[OF Cons.prems(1,2), of v n i m] valueSwap_step(2)[OF Cons.prems(1,2), of v n i] db' s'
    by simp_all
  then show ?case using Cons.IH[of db' s' n' m'] Cons.prems(3) by (simp add: kv db' s')
qed simp

lemma write_step:
  assumes "agrees db s" "tidy db" "plainWrite w"
  shows "agrees (sqlWrite db w) (mapWrite s w) \<and> tidy (sqlWrite db w)"
proof (cases w)
  case (PutSwap i d)
  have "inStep r" if row: "(j, r) \<in> set (tbSwaps (sqlSeedSwap i d db))" for j r
    using assms row PutSwap by (auto simp: sqlSeedSwap_def replaceRow_def tidy_def inStep_def)
  then show ?thesis using assms PutSwap
    by (auto simp: agrees_def tidy_def sqlSeedSwap_def SeedSwap_def keys_replaceRow GetLastBlock_def PricedThrough_def)
next
  case (PutEntity t i v)
  then show ?thesis using assms
    by (auto simp: agrees_def tidy_def sqlSetEntity_def SetEntity_def entityKey_inj GetLastBlock_def PricedThrough_def)
next
  case (PutValues usd)
  then show ?thesis using assms valueSwaps_step[OF assms(1,2), of usd 0 0]
    by (cases "usd = []") (auto simp: sqlValueSwaps_def ValueSwaps_def Let_def list_ex_iff)
next
  case (PutBlock b)
  have "tbFactories (sqlSetLastBlock b db) = tbFactories db" "tbBundles (sqlSetLastBlock b db) = tbBundles db"
    "tbTokens (sqlSetLastBlock b db) = tbTokens db" "tbPools (sqlSetLastBlock b db) = tbPools db"
    "tbSwaps (sqlSetLastBlock b db) = tbSwaps db" "tbEntities (sqlSetLastBlock b db) = tbEntities db"
    by (simp_all add: sqlSetLastBlock_def setMeta_def)
  then show ?thesis using assms PutBlock
    by (simp add: agrees_def tidy_def lastBlock_reads_back SetLastBlock_def GetLastBlock_def PricedThrough_def)
next
  case (PutMark ts)
  have "tbFactories (sqlSetPricedThrough ts db) = tbFactories db" "tbBundles (sqlSetPricedThrough ts db) = tbBundles db"
    "tbTokens (sqlSetPricedThrough ts db) = tbTokens db" "tbPools (sqlSetPricedThrough ts db) = tbPools db"
    "tbSwaps (sqlSetPricedThrough ts db) = tbSwaps db" "tbEntities (sqlSetPricedThrough ts db) = tbEntities db"
    by (simp_all add: sqlSetPricedThrough_def setMeta_def)
  then show ?thesis using assms PutMark
    by (simp add: agrees_def tidy_def mark_reads_back SetPricedThrough_def GetLastBlock_def PricedThrough_def)
qed (use assms in \<open>auto simp: agrees_def tidy_def keys_replaceRow GetLastBlock_def PricedThrough_def
  sqlSeedFactory_def SeedFactory_def sqlSeedBundle_def SeedBundle_def sqlSeedToken_def SeedToken_def sqlSeedPool_def SeedPool_def\<close>)

lemma writes_agree:
  "\<forall>w \<in> set ws. plainWrite w \<Longrightarrow>
   agrees (foldl sqlWrite emptyDb ws) (foldl mapWrite NewStore ws) \<and> tidy (foldl sqlWrite emptyDb ws)"
  by (induction ws rule: rev_induct) (auto simp: agrees_empty dest: write_step)

text \<open>Reads by key are the same functions of the same tables.\<close>

lemma agrees_reads:
  assumes "agrees db s"
  shows "sqlGetFactory db i = GetFactory s i" "sqlGetBundle db i = GetBundle s i" "sqlGetToken db i = GetToken s i"
    "sqlGetPool db i = GetPool s i" "sqlGetSwap db i = GetSwap s i" "colonFree t \<Longrightarrow> sqlGetByType db t i = GetByType s t i"
proof -
  have m: "map_of (tbFactories db) = map_of (dbFactories s)" "map_of (tbBundles db) = map_of (dbBundles s)"
    "map_of (tbTokens db) = map_of (dbTokens s)" "map_of (tbPools db) = map_of (dbPools s)"
    "map_of (dbSwaps s) = (\<lambda>i. map_option qsDoc (map_of (tbSwaps db) i))"
    using assms by (auto simp: agrees_def)
  have p: "sqlPoolToMap db = poolToMap s" and r: "sqlTokenRef db = tokenRefMap s"
    by (auto simp: fun_eq_iff sqlPoolToMap_def poolToMap_def sqlTokenRef_def tokenRefMap_def getKey_def m)
  have w: "sqlSwapToMap db = swapToMap s" by (auto simp: fun_eq_iff sqlSwapToMap_def swapToMap_def getKey_def m p split: option.splits)
  show "sqlGetFactory db i = GetFactory s i" "sqlGetBundle db i = GetBundle s i" "sqlGetToken db i = GetToken s i"
    "sqlGetPool db i = GetPool s i" "sqlGetSwap db i = GetSwap s i"
    by (simp_all add: sqlGetFactory_def GetFactory_def sqlGetBundle_def GetBundle_def sqlGetToken_def GetToken_def
        sqlGetPool_def GetPool_def sqlGetSwap_def GetSwap_def getKey_def m p w split: option.splits)
  show "sqlGetByType db t i = GetByType s t i" if "colonFree t"
    using assms that by (auto simp: agrees_def sqlGetByType_def GetByType_def getKey_def split: option.splits)
qed

definition mapKeys :: "store \<Rightarrow> bool" where
  "mapKeys s \<longleftrightarrow> distinct (map fst (dbFactories s)) \<and> distinct (map fst (dbBundles s)) \<and> distinct (map fst (dbTokens s)) \<and>
     distinct (map fst (dbPools s)) \<and> distinct (map fst (dbSwaps s)) \<and> distinct (map fst (dbGeneric s))"

lemma mapKeys_valueSwap: "mapKeys (fst st) \<Longrightarrow> mapKeys (fst (foldl valueSwap st usd))"
  by (induction usd arbitrary: st) (auto simp: valueSwap_def SeedSwap_def mapKeys_def split: option.splits)

lemma mapKeys_write: "mapKeys s \<Longrightarrow> mapKeys (mapWrite s w)"
  using mapKeys_valueSwap[of "(s, 0)"]
  by (cases w) (auto simp: mapKeys_def SeedFactory_def SeedBundle_def SeedToken_def SeedPool_def SeedSwap_def SetEntity_def
      SetLastBlock_def SetPricedThrough_def ValueSwaps_def)

lemma mapKeys_writes: "mapKeys (foldl mapWrite NewStore ws)"
  by (induction ws rule: rev_induct) (simp_all add: mapKeys_write, simp add: mapKeys_def NewStore_def)

lemma same_rows: "distinct (map fst a) \<Longrightarrow> distinct (map fst b) \<Longrightarrow> map_of a = map_of b \<Longrightarrow> mset a = mset b"
  using map_of_inject_set[of a b] set_eq_iff_mset_eq_distinct[of a b] by (simp add: distinct_map)

lemma traded_count:
  "map_option fst (getKey (foldl addTraded out rows) p) =
    (let n = length (filter (\<lambda>(_, sw). toLower (swPool sw) = p) rows) in
     if n = 0 then map_option fst (getKey out p)
     else Some ((case getKey out p of None \<Rightarrow> 0 | Some t \<Rightarrow> fst t) + int n))"
proof (induction rows arbitrary: out)
  case (Cons kv rows)
  obtain i sw where kv: "kv = (i, sw)" by (cases kv)
  show ?case
    by (subst foldl_Cons, subst Cons.IH) (auto simp: kv addTraded_def Let_def split: option.splits)
qed simp

lemma sql_traded_count:
  "map_option fst (getKey (sqlTradedByPool addUp db) p) =
    (let n = length (filter (\<lambda>(_, r). toLower (qsPool r) = p) (tbSwaps db)) in if n = 0 then None else Some (int n))"
proof -
  have g: "map_of (map (\<lambda>p. (p, f p)) ps) p = (if p \<in> set ps then Some (f p) else None)" for f :: "string \<Rightarrow> 'z" and ps
    by (induction ps) auto
  have e: "(length (filter (\<lambda>(_, r). toLower (qsPool r) = p) xs) = 0) = (p \<notin> set (map (\<lambda>(_, r). toLower (qsPool r)) xs))"
    for xs :: "sqlSwap gomap" by (induction xs) auto
  show ?thesis by (simp add: sqlTradedByPool_def getKey_def g e Let_def del: length_0_conv filter_empty_conv)
qed

lemma same_trade_counts:
  assumes "agrees db s" "tidy db" "mapKeys s"
  shows "map_option fst (getKey (sqlTradedByPool addUp db) p) = map_option fst (getKey (TradedByPool s) p)"
proof -
  let ?docs = "map (\<lambda>(i, r). (i, qsDoc r)) (tbSwaps db)"
  have "map fst (map (\<lambda>(i, r). (i, qsDoc r)) xs) = map fst xs" for xs :: "sqlSwap gomap" by (induction xs) auto
  then have "distinct (map fst ?docs)" using assms(2) by (simp add: tidy_def del: map_map)
  moreover have "map_of ?docs = map_of (dbSwaps s)" using assms(1) by (auto simp: agrees_def map_of_map fun_eq_iff)
  ultimately have "mset ?docs = mset (dbSwaps s)" using assms(3) by (intro same_rows) (simp_all add: mapKeys_def)
  then have "size (filter_mset (\<lambda>(_, sw). toLower (swPool sw) = p) (mset ?docs))
      = size (filter_mset (\<lambda>(_, sw). toLower (swPool sw) = p) (mset (dbSwaps s)))" by simp
  then have "length (filter (\<lambda>(_, sw). toLower (swPool sw) = p) ?docs) = length (filter (\<lambda>(_, sw). toLower (swPool sw) = p) (dbSwaps s))"
    by (simp only: mset_filter[symmetric] size_mset)
  moreover have e: "length (filter (\<lambda>(_, r). toLower (qsPool r) = p) xs)
      = length (filter (\<lambda>(_, sw). toLower (swPool sw) = p) (map (\<lambda>(i, r). (i, qsDoc r)) xs))"
    if "\<forall>(i, r) \<in> set xs. inStep r" for xs using that by (induction xs) (auto simp: inStep_def)
  ultimately have "length (filter (\<lambda>(_, r). toLower (qsPool r) = p) (tbSwaps db))
      = length (filter (\<lambda>(_, sw). toLower (swPool sw) = p) (dbSwaps s))"
    using e[of "tbSwaps db"] assms(2) unfolding tidy_def by argo
  moreover have "getKey [] p = (None :: (int \<times> f64) option)" by (simp add: getKey_def)
  ultimately show ?thesis by (simp add: sql_traded_count TradedByPool_def traded_count[of "[]"] Let_def)
qed

lemma agrees_all:
  assumes a: "agrees db s" "tidy db" "mapKeys s"
  shows "(\<forall>i. sqlGetFactory db i = GetFactory s i \<and> sqlGetBundle db i = GetBundle s i \<and> sqlGetToken db i = GetToken s i \<and>
      sqlGetPool db i = GetPool s i \<and> sqlGetSwap db i = GetSwap s i) \<and>
    (\<forall>t i. colonFree t \<longrightarrow> sqlGetByType db t i = GetByType s t i) \<and>
    set (sqlPoolsRaw db) = set (PoolsRaw s) \<and> set (sqlTokensRaw db) = set (TokensRaw s) \<and>
    sqlGetLastBlock db = GetLastBlock s \<and> sqlPricedThrough db = PricedThrough s \<and>
    (\<forall>p. map_option fst (getKey (sqlTradedByPool addUp db) p) = map_option fst (getKey (TradedByPool s) p))"
proof (intro conjI allI impI)
  have "mset (tbPools db) = mset (dbPools s)"
    by (rule same_rows) (use a in \<open>simp_all add: agrees_def tidy_def mapKeys_def\<close>)
  moreover have "mset (tbTokens db) = mset (dbTokens s)"
    by (rule same_rows) (use a in \<open>simp_all add: agrees_def tidy_def mapKeys_def\<close>)
  ultimately show "set (sqlPoolsRaw db) = set (PoolsRaw s)" "set (sqlTokensRaw db) = set (TokensRaw s)"
    unfolding sqlPoolsRaw_def PoolsRaw_def sqlTokensRaw_def TokensRaw_def by (auto dest: mset_eq_setD)
  show "sqlGetLastBlock db = GetLastBlock s" "sqlPricedThrough db = PricedThrough s" using a(1) by (simp_all add: agrees_def)
qed (rule agrees_reads[OF a(1)] same_trade_counts[OF a]; assumption?)+


section \<open>Numbers in texts\<close>

lemma scanMantissa_digits:
  "list_all (\<lambda>c. 48 \<le> byteOf c \<and> byteOf c \<le> 57) s \<Longrightarrow> \<not> mDot m \<Longrightarrow> scanDigits 10 (mValue m) s = (v, []) \<Longrightarrow>
   scanMantissa 10 m s = (m\<lparr>mValue := v, mDigits := mDigits m \<or> s \<noteq> []\<rparr>, [])"
proof (induction s arbitrary: m)
  case (Cons c s)
  have c: "48 \<le> byteOf c" "byteOf c \<le> 57" using Cons.prems(1) by simp_all
  then have n: "c \<noteq> CHR ''_''" "c \<noteq> CHR ''.''" by (auto simp: byteOf_def)
  have d: "digitVal c = Some (byteOf c - 48)" "byteOf c - 48 < 10" using digitVal_digit c by auto
  let ?m = "m\<lparr>mValue := mValue m * 10 + (byteOf c - 48), mDigits := True\<rparr>"
  have "scanDigits 10 (mValue ?m) s = (v, [])" using Cons.prems(3) d by simp
  then have "scanMantissa 10 ?m s = (?m\<lparr>mValue := v, mDigits := mDigits ?m \<or> s \<noteq> []\<rparr>, [])"
    using Cons.IH[of ?m] Cons.prems(1,2) by simp
  then show ?case using n d Cons.prems(2) by simp
qed simp

lemma readFloat_digits:
  assumes "list_all (\<lambda>c. 48 \<le> byteOf c \<and> byteOf c \<le> 57) s" "s \<noteq> []" "scanDigits 10 0 s = (v, [])"
  shows "readFloat s = Some (of_nat v)" "readFloat (CHR ''-'' # s) = Some (- of_nat v)"
proof -
  have h: "hd s \<noteq> CHR ''-''" "hd s \<noteq> CHR ''+''" using assms(1,2) by (cases s; auto simp: byteOf_def)+
  have x: "lowerChar (s ! 1) \<noteq> CHR ''x''" if "1 < length s"
  proof -
    have "48 \<le> byteOf (s ! 1)" "byteOf (s ! 1) \<le> 57" using assms(1) that by (simp_all add: list_all_length)
    then show ?thesis by (auto simp: lowerChar_def byteOf_def)
  qed
  have nh: "(2 < length s \<and> hd s = CHR ''0'' \<and> lowerChar (s ! Suc 0) = CHR ''x'') = False" using x by auto
  have "scanMantissa 10 \<lparr>mValue = 0, mFrac = 0, mDot = False, mDigits = False, mUnder = False\<rparr> s
      = (\<lparr>mValue = v, mFrac = 0, mDot = False, mDigits = True, mUnder = False\<rparr>, [])"
    using scanMantissa_digits[OF assms(1), of "\<lparr>mValue = 0, mFrac = 0, mDot = False, mDigits = False, mUnder = False\<rparr>" v] assms(2,3)
    by simp
  moreover have "dropSign s = s" "dropSign (CHR ''-'' # s) = s" using h by (simp_all add: dropSign_def)
  ultimately show "readFloat s = Some (of_nat v)" "readFloat (CHR ''-'' # s) = Some (- of_nat v)"
    using h assms(2) by (simp_all add: readFloat_def Let_def nh del: scanMantissa.simps)
qed

lemma parseFloat_intText:
  assumes "\<bar>n\<bar> < 2 ^ 53"
  shows "parseFloat (intText 10 n) = Some (Fin (of_int n))"
proof -
  let ?ds = "natText 10 (nat \<bar>n\<bar>)"
  have ds: "list_all (\<lambda>c. 48 \<le> byteOf c \<and> byteOf c \<le> 57) ?ds" "?ds \<noteq> []" "scanDigits 10 0 ?ds = (nat \<bar>n\<bar>, [])"
    using natText_decimal scanDigits_natText[of 10] by simp_all
  then obtain c cs where c: "?ds = c # cs" "48 \<le> byteOf c" "byteOf c \<le> 57" by (cases ?ds) auto
  then have l: "lowerChar c = c" "c \<noteq> CHR ''i''" "c \<noteq> CHR ''n''" "c \<noteq> CHR ''-''" "c \<noteq> CHR ''+''"
    by (auto simp: lowerChar_def byteOf_def)
  have "readFloat (intText 10 n) = Some (of_int n)"
    using readFloat_digits[OF ds] by (auto simp: intText_def)
  moreover have "toLower (dropSign (intText 10 n)) \<notin> {''inf'', ''infinity''}" "toLower (intText 10 n) \<noteq> ''nan''"
    using c(1) l by (auto simp: intText_def dropSign_def toLower_def) (simp_all add: lowerChar_def byteOf_def)
  ultimately show ?thesis using toF64_int[OF assms] by (simp add: parseFloat_def)
qed

section \<open>Pages of swaps\<close>

definition newestFirst :: "sqlSwap gomap \<Rightarrow> sqlSwap gomap" where
  "newestFirst rows = sort_key (\<lambda>(_, r). - qsTimestamp r) rows"

lemma newestFirst_sorted: "sorted_wrt (\<lambda>a b. qsTimestamp (snd a) \<ge> qsTimestamp (snd b)) (newestFirst rows)"
proof -
  have "sorted (map (\<lambda>(_, r). - qsTimestamp r) (newestFirst rows))" by (simp add: newestFirst_def)
  then show ?thesis by (simp add: sorted_map case_prod_beta)
qed

text \<open>The default page: the newest rows the columns select, up to the limit, and of these the ones that match.\<close>

lemma sql_default_page:
  assumes "0 \<le> limit"
  shows "sqlGetSwaps db limit '''' '''' conds =
    VList (FilterResults (map (\<lambda>(i, r). sqlSwapToMap db i (qsDoc r))
      (take (nat limit) (newestFirst (filter (sqlWhere conds) (tbSwaps db))))) conds)"
proof -
  have "length (FilterResults rs conds) \<le> length rs" for rs by (simp add: FilterResults_def)
  from this[of "map (\<lambda>(i, r). sqlSwapToMap db i (qsDoc r)) (take (nat limit) (newestFirst (filter (sqlWhere conds) (tbSwaps db))))"]
  show ?thesis using assms
    by (auto simp: sqlGetSwaps_def sqlOrder_def sqlLimit_def Let_def equalFold_def newestFirst_def)
qed

definition historyConds :: "string \<Rightarrow> int \<Rightarrow> val gomap" where
  "historyConds p b = [(''pool'', VStr p), (''timestamp_lt'', VInt b)]"

definition plainRow :: "sqlSwap \<Rightarrow> bool" where
  "plainRow r \<longleftrightarrow> inStep r \<and> parseFloat (swPool (qsDoc r)) = None \<and> \<bar>swTimestamp (qsDoc r)\<bar> < 2 ^ 53"

definition tradedBefore :: "string \<Rightarrow> int \<Rightarrow> seedSwap \<Rightarrow> bool" where
  "tradedBefore p b sw \<longleftrightarrow> toLower (swPool sw) = toLower p \<and> swTimestamp sw < b"

lemma history_columns:
  assumes "plainRow (snd row)" "p \<noteq> ''''" "\<bar>b\<bar> < 2 ^ 53"
  shows "sqlWhere (historyConds p b) row \<longleftrightarrow> tradedBefore p b (qsDoc (snd row))"
proof -
  have "whereString (historyConds p b) ''pool'' = Some p" using assms(2) by (simp add: whereString_def historyConds_def getKey_def)
  moreover have "whereNumber (historyConds p b) ''timestamp_lt'' = Some (Fin (of_int b))"
    using parseFloat_intText[OF assms(3)] by (simp add: whereNumber_def historyConds_def getKey_def)
  moreover have "inStep (snd row)" using assms(1) by (simp add: plainRow_def)
  ultimately show ?thesis by (simp add: sqlWhere_def columnBelow_def inStep_def tradedBefore_def)
qed

lemma history_document:
  assumes "plainRow r" "tradedBefore p b (qsDoc r)" "\<bar>b\<bar> < 2 ^ 53"
  shows "\<exists>m. sqlSwapToMap db i (qsDoc r) = VMap m \<and> matchesWhere m (historyConds p b)"
proof -
  define sw where "sw = qsDoc r"
  obtain m where m: "sqlSwapToMap db i sw = VMap m" by (simp add: sqlSwapToMap_def)
  have f: "\<exists>v. getKey m ''pool'' = Some v \<and> referenced v = VStr (swPool sw)" "getKey m ''timestamp'' = Some (VInt (swTimestamp sw))"
    using m by (auto simp: sqlSwapToMap_def getKey_def referenced_def sqlPoolToMap_def split: option.splits)
  have s: "splitCondition ''pool'' = (''pool'', OpEq)" "splitCondition ''timestamp_lt'' = (''timestamp'', OpLt)" by code_simp+
  have "holdsCondition m (''pool'', VStr p)"
    using f(1) assms(1,2) by (auto simp: holdsCondition_def s equalValues_def plainRow_def tradedBefore_def equalFold_def sw_def Let_def)
  moreover have "holdsCondition m (''timestamp_lt'', VInt b)"
    using f(2) assms parseFloat_intText[of "swTimestamp sw"] parseFloat_intText[of b]
    by (simp add: holdsCondition_def s compareValues_def plainRow_def tradedBefore_def referenced_def sw_def Let_def)
  ultimately show ?thesis using m by (simp add: sw_def matchesWhere_def historyConds_def)
qed

text \<open>C20: A page of a pool's trades before a time is the newest of them: with the default order, the rows answered and the
rows left out are together exactly the pool's trades before that time, newest first, and rows are left out only when the page
is full.\<close>

theorem sql_history_page:
  assumes "\<forall>(i, r) \<in> set (tbSwaps db). plainRow r" "p \<noteq> ''''" "\<bar>b\<bar> < 2 ^ 53" "0 \<le> limit"
  shows "\<exists>rows rest. sqlGetSwaps db limit '''' '''' (historyConds p b) = VList (map (\<lambda>(i, r). sqlSwapToMap db i (qsDoc r)) rows) \<and>
    mset rows + mset rest = mset (filter (\<lambda>(i, r). tradedBefore p b (qsDoc r)) (tbSwaps db)) \<and>
    sorted_wrt (\<lambda>a c. qsTimestamp (snd a) \<ge> qsTimestamp (snd c)) (rows @ rest) \<and>
    (rest \<noteq> [] \<longrightarrow> int (length rows) = limit)"
proof -
  let ?C = "historyConds p b"
  define sorted where "sorted = newestFirst (filter (sqlWhere ?C) (tbSwaps db))"
  have w: "filter (sqlWhere ?C) (tbSwaps db) = filter (\<lambda>(i, r). tradedBefore p b (qsDoc r)) (tbSwaps db)"
    using assms(1) history_columns[OF _ assms(2,3)] by (intro filter_cong) auto
  have all: "\<forall>x \<in> set (take (nat limit) sorted). plainRow (snd x) \<and> tradedBefore p b (qsDoc (snd x))"
    using assms(1) by (auto simp: sorted_def newestFirst_def w dest!: in_set_takeD)
  have keep: "FilterResults rs ?C = rs" if "\<forall>x \<in> set rs. \<exists>m. x = VMap m \<and> matchesWhere m ?C" for rs
    using that by (auto simp: FilterResults_def filter_id_conv)
  have "FilterResults (map (\<lambda>(i, r). sqlSwapToMap db i (qsDoc r)) (take (nat limit) sorted)) ?C
      = map (\<lambda>(i, r). sqlSwapToMap db i (qsDoc r)) (take (nat limit) sorted)"
    using all history_document[OF _ _ assms(3)] by (intro keep) (auto split: prod.splits)
  then have "sqlGetSwaps db limit '''' '''' ?C = VList (map (\<lambda>(i, r). sqlSwapToMap db i (qsDoc r)) (take (nat limit) sorted))"
    using sql_default_page[OF assms(4)] by (simp add: sorted_def)
  moreover have "mset (take (nat limit) sorted) + mset (drop (nat limit) sorted)
      = mset (filter (\<lambda>(i, r). tradedBefore p b (qsDoc r)) (tbSwaps db))"
    by (simp flip: mset_append add: sorted_def newestFirst_def w)
  moreover have "sorted_wrt (\<lambda>a c. qsTimestamp (snd a) \<ge> qsTimestamp (snd c)) (take (nat limit) sorted @ drop (nat limit) sorted)"
    by (simp add: sorted_def newestFirst_sorted)
  moreover have "drop (nat limit) sorted \<noteq> [] \<longrightarrow> int (length (take (nat limit) sorted)) = limit" using assms(4) by auto
  ultimately show ?thesis by blast
qed

text \<open>Any other filter sees only the newest rows: without a condition on the pool or the time, the default page filters the
newest trades of the whole chain up to the limit, so a trade that matches and is older than they are is not found, however few
matches there are.\<close>

theorem sql_filters_after_the_limit:
  assumes "whereString conds ''pool'' = None" "whereNumber conds ''timestamp_lt'' = None" "0 \<le> limit"
  shows "\<exists>newest rest. mset newest + mset rest = mset (tbSwaps db) \<and>
    sorted_wrt (\<lambda>a c. qsTimestamp (snd a) \<ge> qsTimestamp (snd c)) (newest @ rest) \<and> int (length newest) \<le> limit \<and>
    sqlGetSwaps db limit '''' '''' conds = VList (FilterResults (map (\<lambda>(i, r). sqlSwapToMap db i (qsDoc r)) newest) conds)"
proof -
  let ?s = "newestFirst (tbSwaps db)"
  have "filter (sqlWhere conds) (tbSwaps db) = tbSwaps db" using assms by (simp add: sqlWhere_def)
  then have "sqlGetSwaps db limit '''' '''' conds =
      VList (FilterResults (map (\<lambda>(i, r). sqlSwapToMap db i (qsDoc r)) (take (nat limit) ?s)) conds)"
    using sql_default_page[OF assms(3)] by simp
  moreover have "mset (take (nat limit) ?s) + mset (drop (nat limit) ?s) = mset (tbSwaps db)"
    by (simp flip: mset_append add: newestFirst_def)
  moreover have "sorted_wrt (\<lambda>a c. qsTimestamp (snd a) \<ge> qsTimestamp (snd c)) (take (nat limit) ?s @ drop (nat limit) ?s)"
    by (simp add: newestFirst_sorted)
  moreover have "int (length (take (nat limit) ?s)) \<le> limit" using assms(3) by simp
  ultimately show ?thesis by blast
qed

section \<open>Examples\<close>

definition exTrade :: "int \<Rightarrow> string \<Rightarrow> seedSwap" where
  "exTrade ts sender = \<lparr>swTimestamp = ts, swBlock = 7, swPool = ''P'', swAmount0 = ''1'', swAmount1 = ''2'', swAmountUSD = '''',
     swSender = sender\<rparr>"

definition exWrites :: "rowWrite list" where
  "exWrites = [PutSwap ''old'' (exTrade 5 ''b''), PutSwap ''new'' (exTrade 9 ''a''), PutEntity ''Market'' ''m'' (VStr ''open''), PutMark 9]"

definition exDb :: sqlStore where "exDb = foldl sqlWrite emptyDb exWrites"

lemma ascii_docs: "docText ''P'' = ''P''" "docText ''p'' = ''p''" "docText ''a'' = ''a''" "docText ''b'' = ''b''" "docText ''1'' = ''1''"
  "docText ''2'' = ''2''" "docText ''open'' = ''open''"
  by code_simp+

lemma dollars_empty: "dollars '''' = Fin 0"
  by code_simp

lemma tbSwaps_exDb: "tbSwaps exDb =
  [(''old'', \<lparr>qsDoc = exTrade 5 ''b'', qsTimestamp = 5, qsPool = ''P'', qsAmountUSD = Fin 0\<rparr>),
   (''new'', \<lparr>qsDoc = exTrade 9 ''a'', qsTimestamp = 9, qsPool = ''P'', qsAmountUSD = Fin 0\<rparr>)]"
  by (simp add: exDb_def exWrites_def sqlSeedSwap_def replaceRow_def emptyDb_def docSwap_def exTrade_def ascii_docs dollars_empty
      sqlSetPricedThrough_def setMeta_def sqlSetEntity_def)


lemma exPlain: "\<forall>(i, r) \<in> set (tbSwaps exDb). plainRow r"
proof -
  have "parseFloat ''P'' = None" by code_simp
  then show ?thesis by (simp add: tbSwaps_exDb plainRow_def inStep_def docSwap_def exTrade_def ascii_docs dollars_empty)
qed

theorem sql_history_page_witness:
  "sqlGetSwaps exDb 10 '''' '''' (historyConds ''p'' 9) = VList [sqlSwapToMap exDb ''old'' (exTrade 5 ''b'')]"
proof -
  obtain rows rest where r: "sqlGetSwaps exDb 10 '''' '''' (historyConds ''p'' 9) = VList (map (\<lambda>(i, r). sqlSwapToMap exDb i (qsDoc r)) rows)"
    "mset rows + mset rest = mset (filter (\<lambda>(i, r). tradedBefore ''p'' 9 (qsDoc r)) (tbSwaps exDb))"
    "rest \<noteq> [] \<longrightarrow> int (length rows) = 10"
    using sql_history_page[OF exPlain, of "''p''" 9 10] by auto
  have lower: "toLower ''P'' = toLower ''p''" by code_simp
  have m: "mset rows + mset rest = {#(''old'', \<lparr>qsDoc = exTrade 5 ''b'', qsTimestamp = 5, qsPool = ''P'', qsAmountUSD = Fin 0\<rparr>)#}"
    unfolding r(2) tbSwaps_exDb by (simp add: tradedBefore_def exTrade_def lower)
  then have "length rows + length rest = 1" by (metis size_mset size_single size_union)
  then have "rest = []" using r(3) by auto
  then have "rows = [(''old'', \<lparr>qsDoc = exTrade 5 ''b'', qsTimestamp = 5, qsPool = ''P'', qsAmountUSD = Fin 0\<rparr>)]" using m by simp
  then show ?thesis using r(1) by simp
qed

text \<open>One trade of \<open>b\<close>, one newer trade of \<open>a\<close>, and a page of one: the SQL backend answers nothing where the map
  backend answers the trade.\<close>

theorem sql_filters_after_the_limit_witness:
  "sqlGetSwaps exDb 1 '''' '''' [(''sender'', VStr ''b'')] = VList [] \<and>
   GetSwaps (foldl mapWrite NewStore exWrites) 1 '''' '''' [(''sender'', VStr ''b'')] = VList [sqlSwapToMap exDb ''old'' (exTrade 5 ''b'')]"
proof
  let ?C = "[(''sender'', VStr ''b'')]"
  let ?new = "(''new'', \<lparr>qsDoc = exTrade 9 ''a'', qsTimestamp = 9, qsPool = ''P'', qsAmountUSD = Fin 0\<rparr>)"
  have c: "whereString ?C ''pool'' = None" "whereNumber ?C ''timestamp_lt'' = None" by code_simp+
  obtain newest rest where r: "mset newest + mset rest = mset (tbSwaps exDb)"
    "sorted_wrt (\<lambda>a c. qsTimestamp (snd a) \<ge> qsTimestamp (snd c)) (newest @ rest)" "length newest \<le> 1"
    "sqlGetSwaps exDb 1 '''' '''' ?C = VList (FilterResults (map (\<lambda>(i, r). sqlSwapToMap exDb i (qsDoc r)) newest) ?C)"
    using sql_filters_after_the_limit[OF c, of 1 exDb] by auto
  have one: "newest = [] \<or> newest = [?new]"
  proof (cases newest)
    case (Cons x xs)
    then have x: "newest = [x]" using r(3) by simp
    have "set newest \<union> set rest = set (tbSwaps exDb)" using r(1) by (metis set_mset_mset set_mset_union)
    then have "x \<in> set (tbSwaps exDb)" "?new \<in> set newest \<union> set rest" using x by (auto simp: tbSwaps_exDb)
    moreover have "\<forall>y \<in> set rest. qsTimestamp (snd x) \<ge> qsTimestamp (snd y)" using r(2) x by simp
    ultimately show ?thesis using x by (auto simp: tbSwaps_exDb)
  qed simp
  have "FilterResults [sqlSwapToMap exDb ''new'' (exTrade 9 ''a'')] ?C = []"
    by code_simp
  then show "sqlGetSwaps exDb 1 '''' '''' ?C = VList []" using one r(4) by (auto simp: FilterResults_def)
  show "GetSwaps (foldl mapWrite NewStore exWrites) 1 '''' '''' ?C = VList [sqlSwapToMap exDb ''old'' (exTrade 5 ''b'')]"
    by code_simp
qed

end
