(* ===== verification/QuoteAnswer.thy ===== *)
theory QuoteAnswer
  imports Quoter SwapCall "HOL-Library.Monad_Syntax"
begin

text \<open>
  The quote endpoint of src/engine/quote.go around \<open>best\<close>: the checks of \<open>serve\<close>, the state of the pools
  the winner crosses (\<open>decorate\<close>), price impact, and the answer (\<open>render\<close>, \<open>noRoute\<close>).

  As in SwapCall a handler is a function from the decoded request to an \<open>httpReply\<close>; the random request and
  quote ids are left out.  A render that panics in the checksum of an address is None.  The store is read
  once; in the code the chain may be indexed between the reads.

  The lemmas show when each reply is given, that a route answered is the winner of \<open>best\<close> under the names
  the caller used, and that handing the answer of a V3 route back to \<open>HandleSwap\<close> builds its call.
\<close>

record quoteRequest =
  qrTokenIn :: string
  qrTokenOut :: string
  qrAmount :: string
  qrType :: string
  qrSwapper :: string
  qrSlippage :: "f64 option"
  qrTokenInChainID :: "int option"
  qrTokenOutChainID :: "int option"

record quoteSide =
  sdToken :: string
  sdAmount :: string
  sdRecipient :: string

record tokenJSON =
  tjAddress :: string
  tjChainID :: int
  tjSymbol :: string
  tjDecimals :: string

record reserveRef =
  rrToken :: tokenJSON
  rrQuotient :: string

record hopJSON =
  hjType :: string
  hjAddress :: string
  hjTokenIn :: tokenJSON
  hjTokenOut :: tokenJSON
  hjSqrtRatioX96 :: string
  hjLiquidity :: string
  hjTickCurrent :: string
  hjFee :: string
  hjReserve0 :: "reserveRef option"
  hjReserve1 :: "reserveRef option"
  hjAmountIn :: string
  hjAmountOut :: string

record classicQuote =
  cqChainID :: int
  cqSwapper :: string
  cqInput :: quoteSide
  cqOutput :: quoteSide
  cqTradeType :: string
  cqSlippage :: f64
  cqGasUseEstimate :: string
  cqGasFee :: string
  cqRoute :: "hopJSON list list"
  cqRouteString :: string
  cqBlockNumber :: string
  cqPriceImpact :: f64

section \<open>Price impact\<close>

text \<open>A leg without a baseline ends the loop with None.\<close>

fun impactLoop :: "leg list \<Rightarrow> f64 \<Rightarrow> f64 \<Rightarrow> (f64 \<times> f64) option" where
  "impactLoop [] exec marg = Some (exec, marg)"
| "impactLoop (l # ls) exec marg =
     (if fle (marginal l) (Fin 0) \<or> \<not> positive (amtIn l) \<or> amtOut l = None then None
      else impactLoop ls (fmul exec (ratio (amtOut l) (amtIn l))) (fmul marg (marginal l)))"

definition priceImpact :: "route \<Rightarrow> f64" where
  "priceImpact r =
     (case impactLoop r (Fin 1) (Fin 1) of
        None \<Rightarrow> Fin 0
      | Some (exec, marg) \<Rightarrow>
          if fle marg (Fin 0) \<or> fle exec (Fin 0) \<or> isInf exec \<or> isInf marg then Fin 0
          else let impact = fmul (fsub (Fin 1) (fdiv exec marg)) (Fin 100) in
               if fless impact (Fin 0) then Fin 0 else if fless (Fin 100) impact then Fin 100 else impact)"

section \<open>What the pools look like\<close>

fun decorateReqs :: "quoter \<Rightarrow> nat \<Rightarrow> leg list \<Rightarrow> rpcRequest list" where
  "decorateReqs q n [] = [\<lparr>rpcID = int n, rpcMethod = ''eth_blockNumber'', rpcParams = []\<rparr>]"
| "decorateReqs q n (l # ls) =
     (if venue (legPool l) \<noteq> ''v3'' then decorateReqs q n ls
      else ethCallReq (int n) (addr (legPool l)) (selSlot0 q) # ethCallReq (int n + 1) (addr (legPool l)) (selLiquidity q)
             # decorateReqs q (n + 2) ls)"

fun decorateLegs :: "string list \<Rightarrow> nat \<Rightarrow> leg list \<Rightarrow> leg list" where
  "decorateLegs res n [] = []"
| "decorateLegs res n (l # ls) =
     (if venue (legPool l) \<noteq> ''v3'' then l # decorateLegs res n ls
      else
        (let w = words (res ! n); w' = words (res ! (n + 1));
             l1 = (if length w \<ge> 2 then l\<lparr>sqrtP := Some (w ! 0), tick := signedWord (w ! 1)\<rparr> else l);
             l2 = (if length w' \<ge> 1 then l1\<lparr>liq := Some (w' ! 0)\<rparr> else l1)
         in l2 # decorateLegs res (n + 2) ls))"

definition decorate :: "quoter \<Rightarrow> (rpcRequest list \<Rightarrow> string list option) \<Rightarrow> route \<Rightarrow> route \<times> 64 word" where
  "decorate q ask r =
     (let reqs = decorateReqs q 0 r in
      case ask reqs of
        None \<Rightarrow> (r, 0)
      | Some res \<Rightarrow>
          (case setString 16 (trimPrefix (res ! (length reqs - 1)) ''0x'') of
             (n, ok) \<Rightarrow> (decorateLegs res 0 r, if ok then bigUint64 n else 0)))"

section \<open>Rendering\<close>

definition tokenTable :: "seedToken gomap \<Rightarrow> seedToken gomap" where
  "tokenTable rows = foldl (\<lambda>m (a, t). putKey (toLower a) t m) [] rows"

definition describe :: "(string \<Rightarrow> string) \<Rightarrow> seedToken gomap \<Rightarrow> int \<Rightarrow> string \<Rightarrow> tokenJSON option" where
  "describe keccak rows chainID a =
     do {
       c \<leftarrow> checksumAddress keccak a;
       Some (case getKey rows a of
         None \<Rightarrow> \<lparr>tjAddress = c, tjChainID = chainID, tjSymbol = '''', tjDecimals = ''18''\<rparr>
       | Some t \<Rightarrow> \<lparr>tjAddress = c, tjChainID = chainID, tjSymbol = stSymbol t,
                     tjDecimals = (if stDecimals t > 0 then intText 10 (stDecimals t) else ''18'')\<rparr>)
     }"

definition symbolOf :: "(string \<Rightarrow> string) \<Rightarrow> seedToken gomap \<Rightarrow> string \<Rightarrow> string option" where
  "symbolOf keccak rows a =
     (case getKey rows a of
        Some t \<Rightarrow> if stSymbol t \<noteq> '''' then Some (stSymbol t) else checksumAddress keccak a
      | None \<Rightarrow> checksumAddress keccak a)"

text \<open>\<open>String\<close> of a nil \<open>*big.Int\<close> is the text \<open><nil>\<close>.\<close>

definition amountText :: "int option \<Rightarrow> string" where
  "amountText n = (case n of None \<Rightarrow> ''<nil>'' | Some k \<Rightarrow> intText 10 k)"

definition renderLeg :: "(string \<Rightarrow> string) \<Rightarrow> leg \<Rightarrow> tokenJSON \<Rightarrow> tokenJSON \<Rightarrow> hopJSON option" where
  "renderLeg keccak l inT outT =
     do {
       a \<leftarrow> checksumAddress keccak (addr (legPool l));
       let h = \<lparr>hjType = '''', hjAddress = a, hjTokenIn = inT, hjTokenOut = outT, hjSqrtRatioX96 = '''', hjLiquidity = '''',
                hjTickCurrent = '''', hjFee = '''', hjReserve0 = None, hjReserve1 = None,
                hjAmountIn = amountText (amtIn l), hjAmountOut = amountText (amtOut l)\<rparr>;
       Some (if venue (legPool l) = ''v2''
             then (let swapped = (legIn l = t1 (legPool l));
                       u = (if swapped then outT else inT); v = (if swapped then inT else outT)
                   in h\<lparr>hjType := ''v2-pool'', hjReserve0 := Some \<lparr>rrToken = u, rrQuotient = bigString (r0 l)\<rparr>,
                        hjReserve1 := Some \<lparr>rrToken = v, rrQuotient = bigString (r1 l)\<rparr>\<rparr>)
             else h\<lparr>hjType := ''v3-pool'', hjSqrtRatioX96 := bigString (sqrtP l), hjLiquidity := bigString (liq l),
                    hjTickCurrent := intText 10 (tick l), hjFee := intText 10 (fee (legPool l))\<rparr>)
     }"

fun renderHops ::
  "(string \<Rightarrow> string) \<Rightarrow> seedToken gomap \<Rightarrow> int \<Rightarrow> string \<Rightarrow> string \<Rightarrow> bool \<Rightarrow> leg list \<Rightarrow> hopJSON list option" where
  "renderHops keccak rows chainID echoIn echoOut first [] = Some []"
| "renderHops keccak rows chainID echoIn echoOut first (l # ls) =
     do {
       inT \<leftarrow> describe keccak rows chainID (legIn l);
       outT \<leftarrow> describe keccak rows chainID (legOut l);
       h \<leftarrow> renderLeg keccak l (if first then inT\<lparr>tjAddress := echoIn\<rparr> else inT)
              (if ls = [] then outT\<lparr>tjAddress := echoOut\<rparr> else outT);
       hs \<leftarrow> renderHops keccak rows chainID echoIn echoOut False ls;
       Some (h # hs)
     }"

fun allSome :: "'a option list \<Rightarrow> 'a list option" where
  "allSome [] = Some []"
| "allSome (x # xs) = do { y \<leftarrow> x; ys \<leftarrow> allSome xs; Some (y # ys) }"

definition render ::
  "quoter \<Rightarrow> store \<Rightarrow> quoteRequest \<Rightarrow> route \<Rightarrow> string \<Rightarrow> string \<Rightarrow> f64 \<Rightarrow> 64 word \<Rightarrow> classicQuote option" where
  "render q s req r tradeType swapper slippage blockNo =
     do {
       let rows = tokenTable (TokensRaw s);
       echoIn \<leftarrow> echoToken (qKeccak q) (qrTokenIn req);
       echoOut \<leftarrow> echoToken (qKeccak q) (qrTokenOut req);
       hops \<leftarrow> renderHops (qKeccak q) rows (qChainID q) echoIn echoOut True r;
       names \<leftarrow> allSome (map (symbolOf (qKeccak q) rows) (legIn (hd r) # map legOut r));
       Some \<lparr>cqChainID = qChainID q, cqSwapper = swapper,
             cqInput = \<lparr>sdToken = echoIn, sdAmount = amountText (routeAmountIn r), sdRecipient = ''''\<rparr>,
             cqOutput = \<lparr>sdToken = echoOut, sdAmount = amountText (routeAmountOut r), sdRecipient = swapper\<rparr>,
             cqTradeType = tradeType, cqSlippage = slippage, cqGasUseEstimate = intText 10 (routeGas r), cqGasFee = ''0'',
             cqRoute = [hops], cqRouteString = joinWith '' -> '' names, cqBlockNumber = natText 10 (unat blockNo),
             cqPriceImpact = priceImpact r\<rparr>
     }"

definition noRoute :: "(string \<Rightarrow> string) \<Rightarrow> int \<Rightarrow> quoteRequest \<Rightarrow> string \<Rightarrow> string \<Rightarrow> f64 \<Rightarrow> classicQuote option" where
  "noRoute keccak chainID req tradeType swapper slippage =
     do {
       echoIn \<leftarrow> echoToken keccak (qrTokenIn req);
       echoOut \<leftarrow> echoToken keccak (qrTokenOut req);
       Some \<lparr>cqChainID = chainID, cqSwapper = swapper, cqInput = \<lparr>sdToken = echoIn, sdAmount = ''0'', sdRecipient = ''''\<rparr>,
             cqOutput = \<lparr>sdToken = echoOut, sdAmount = ''0'', sdRecipient = swapper\<rparr>, cqTradeType = tradeType,
             cqSlippage = slippage, cqGasUseEstimate = ''0'', cqGasFee = ''0'', cqRoute = [], cqRouteString = '''',
             cqBlockNumber = ''0'', cqPriceImpact = Fin 0\<rparr>
     }"

section \<open>The endpoint\<close>

definition chainMismatch :: "quoter \<Rightarrow> quoteRequest \<Rightarrow> bool" where
  "chainMismatch q req \<longleftrightarrow>
     list_ex (\<lambda>i. case i of None \<Rightarrow> False | Some c \<Rightarrow> c \<noteq> qChainID q) [qrTokenInChainID req, qrTokenOutChainID req]"

definition tradeTypeOf :: "quoteRequest \<Rightarrow> string" where
  "tradeTypeOf req = (if qrType req = ''EXACT_OUTPUT'' then ''EXACT_OUTPUT'' else ''EXACT_INPUT'')"

definition swapperOf :: "quoter \<Rightarrow> quoteRequest \<Rightarrow> string option" where
  "swapperOf q req =
     (if IsAddress (qrSwapper req) then checksumAddress (qKeccak q) (qrSwapper req) else Some nativeSentinel)"

definition serve ::
  "quoter \<Rightarrow> (ethCall list \<Rightarrow> string list option) \<Rightarrow> (ethCall list \<Rightarrow> string list option)
   \<Rightarrow> (ethCall list \<Rightarrow> string list option) \<Rightarrow> (rpcRequest list \<Rightarrow> string list option) \<Rightarrow> venueCache \<Rightarrow> store
   \<Rightarrow> quoteRequest \<Rightarrow> classicQuote httpReply \<times> venueCache" where
  "serve q ask0 ask1 ask2 ask3 venues s req =
     (if \<not> IsAddress (qrTokenIn req) then (BadRequest ''tokenIn must be an address'', venues)
      else if \<not> IsAddress (qrTokenOut req) then (BadRequest ''tokenOut must be an address'', venues)
      else case parseWei (qrAmount req) of
        None \<Rightarrow> (BadRequest ''amount must be a decimal wei string'', venues)
      | Some amount \<Rightarrow>
      if amount \<le> 0 then (BadRequest ''amount must be > 0'', venues)
      else if chainMismatch q req then (NotFound, venues)
      else case swapperOf q req of
        None \<Rightarrow> (Panic, venues)
      | Some swapper \<Rightarrow>
      (let slippage = (case qrSlippage req of None \<Rightarrow> Fin (1 / 2) | Some p \<Rightarrow> p);
           a = unwrapNative (qWrapped q) (qrTokenIn req); b = unwrapNative (qWrapped q) (qrTokenOut req);
           tradeType = tradeTypeOf req
       in if a = b then (BadRequest ''tokenIn and tokenOut resolve to the same token'', venues)
          else case noRoute (qKeccak q) (qChainID q) req tradeType swapper slippage of
            None \<Rightarrow> (Panic, venues)
          | Some blank \<Rightarrow>
          (case best q ask0 ask1 ask2 venues (map (\<lambda>(k, p). (k, Some p)) (PoolsRaw s)) a b amount tradeType of
             (None, venues') \<Rightarrow> (OK blank, venues')
           | (Some r, venues') \<Rightarrow>
               (case decorate q ask3 r of
                  (r', blockNo) \<Rightarrow>
                    (case render q s req r' tradeType swapper slippage blockNo of
                       None \<Rightarrow> (Panic, venues')
                     | Some answer \<Rightarrow> (OK answer, venues'))))))"

section \<open>What is answered\<close>

lemma decorateLegs_same:
  "list_all2 (\<lambda>l l'. sameLeg l l' \<and> amtIn l' = amtIn l \<and> amtOut l' = amtOut l \<and> marginal l' = marginal l \<and> legGas l' = legGas l)
     r (decorateLegs res n r)"
  by (induction res n r rule: decorateLegs.induct) (auto simp: Let_def sameLeg_def)

lemma decorate_same:
  "list_all2 (\<lambda>l l'. sameLeg l l' \<and> amtIn l' = amtIn l \<and> amtOut l' = amtOut l \<and> marginal l' = marginal l \<and> legGas l' = legGas l)
     r (fst (decorate q ask r))"
  using decorateLegs_same[of r _ 0]
  by (auto simp: decorate_def Let_def sameLeg_def list.rel_refl split: option.splits prod.splits)

definition soundHash :: "(string \<Rightarrow> string) \<Rightarrow> bool" where
  "soundHash keccak \<longleftrightarrow> (\<forall>t. length (keccak t) = 32)"

lemma sound_checksum:
  "soundHash keccak \<Longrightarrow> IsAddress a \<Longrightarrow> \<exists>c. checksumAddress keccak a = Some c \<and> IsAddress c \<and> toLower c = toLower a"
  using checksumAddress_Some by (simp add: soundHash_def)

lemma IsAddress_sentinel: "IsAddress nativeSentinel"
  by code_simp

lemma sound_echo:
  "soundHash keccak \<Longrightarrow> IsAddress a \<Longrightarrow> \<exists>c. echoToken keccak a = Some c \<and> IsAddress c \<and> toLower c = toLower a"
  using sound_checksum[of keccak a] by (auto simp: echoToken_def IsAddress_sentinel)

lemma sound_describe:
  "soundHash keccak \<Longrightarrow> IsAddress a \<Longrightarrow>
   \<exists>t. describe keccak rows n a = Some t \<and> IsAddress (tjAddress t) \<and> toLower (tjAddress t) = toLower a"
  using sound_checksum[of keccak a] by (auto simp: describe_def split: option.splits)

lemma sound_swapper: "soundHash (qKeccak q) \<Longrightarrow> \<exists>c. swapperOf q req = Some c \<and> IsAddress c"
  using sound_checksum[of "qKeccak q" "qrSwapper req"] IsAddress_sentinel by (auto simp: swapperOf_def)

definition addressedLeg :: "leg \<Rightarrow> bool" where
  "addressedLeg l \<longleftrightarrow> IsAddress (addr (legPool l)) \<and> IsAddress (legIn l) \<and> IsAddress (legOut l)"

text \<open>How a hop shows a leg: \<open>a\<close> and \<open>b\<close> are the texts for its two tokens.\<close>

definition legShown :: "leg \<Rightarrow> string \<Rightarrow> string \<Rightarrow> hopJSON \<Rightarrow> bool" where
  "legShown l a b h \<longleftrightarrow> IsAddress (hjAddress h) \<and> toLower (hjAddress h) = toLower (addr (legPool l)) \<and>
     tjAddress (hjTokenIn h) = a \<and> tjAddress (hjTokenOut h) = b \<and>
     hjAmountIn h = amountText (amtIn l) \<and> hjAmountOut h = amountText (amtOut l) \<and>
     (if venue (legPool l) = ''v2'' then hjType h = ''v2-pool''
      else hjType h = ''v3-pool'' \<and> hjFee h = intText 10 (fee (legPool l)))"

lemma sound_renderLeg:
  assumes "soundHash keccak" "IsAddress (addr (legPool l))"
  shows "\<exists>h. renderLeg keccak l inT outT = Some h \<and> legShown l (tjAddress inT) (tjAddress outT) h"
  using sound_checksum[OF assms]
  by (cases "venue (legPool l) = ''v2''") (auto simp: renderLeg_def legShown_def Let_def)

text \<open>The hops of a route from the caller's token to the one wanted, the caller's texts at its two ends.\<close>

fun showsRoute :: "string \<Rightarrow> string \<Rightarrow> route \<Rightarrow> hopJSON list \<Rightarrow> bool" where
  "showsRoute a b [] hs = (hs = [])"
| "showsRoute a b [l] hs = (\<exists>h. hs = [h] \<and> legShown l a b h)"
| "showsRoute a b (l # ls) hs =
     (\<exists>h hs' c d. hs = h # hs' \<and> legShown l a c h \<and> IsAddress c \<and> toLower c = toLower (legOut l) \<and>
        IsAddress d \<and> toLower d = toLower (legIn (hd ls)) \<and> showsRoute d b ls hs')"

lemma renderHops_shows:
  assumes "soundHash keccak"
  shows "\<forall>l \<in> set r. addressedLeg l \<Longrightarrow> r \<noteq> [] \<Longrightarrow>
    \<exists>hs d. renderHops keccak rows n ein eout first r = Some hs \<and> showsRoute d eout r hs \<and>
      (if first then d = ein else IsAddress d \<and> toLower d = toLower (legIn (hd r)))"
proof (induction r arbitrary: first)
  case (Cons l ls)
  obtain inT where i: "describe keccak rows n (legIn l) = Some inT" "IsAddress (tjAddress inT)" "toLower (tjAddress inT) = toLower (legIn l)"
    using sound_describe[OF assms, of "legIn l" rows n] Cons.prems(1) by (auto simp: addressedLeg_def)
  obtain outT where o: "describe keccak rows n (legOut l) = Some outT" "IsAddress (tjAddress outT)" "toLower (tjAddress outT) = toLower (legOut l)"
    using sound_describe[OF assms, of "legOut l" rows n] Cons.prems(1) by (auto simp: addressedLeg_def)
  let ?in = "if first then inT\<lparr>tjAddress := ein\<rparr> else inT" and ?out = "if ls = [] then outT\<lparr>tjAddress := eout\<rparr> else outT"
  obtain h where h: "renderLeg keccak l ?in ?out = Some h" "legShown l (tjAddress ?in) (tjAddress ?out) h"
    using sound_renderLeg[OF assms, of l ?in ?out] Cons.prems(1) by (auto simp: addressedLeg_def)
  have d: "if first then tjAddress ?in = ein else IsAddress (tjAddress ?in) \<and> toLower (tjAddress ?in) = toLower (legIn l)"
    using i by simp
  show ?case
  proof (cases ls)
    case Nil
    then have "renderHops keccak rows n ein eout first (l # ls) = Some [h]" using i(1) o(1) h(1) by simp
    then show ?thesis using Nil h(2) d by (intro exI[of _ "[h]"] exI[of _ "tjAddress ?in"]) (cases first; simp)
  next
    case (Cons l' ls')
    obtain hs e where hs: "renderHops keccak rows n ein eout False ls = Some hs" "showsRoute e eout ls hs"
        "IsAddress e \<and> toLower e = toLower (legIn (hd ls))"
      using Cons.IH[of False] Cons.prems(1) Cons by auto
    have "renderHops keccak rows n ein eout first (l # ls) = Some (h # hs)" using i(1) o(1) h(1) hs(1) by simp
    moreover have "showsRoute (tjAddress ?in) eout (l # ls) (h # hs)"
      using Cons h(2) o(2,3) hs(2,3) by auto
    ultimately show ?thesis using d by (intro exI[of _ "h # hs"] exI[of _ "tjAddress ?in"]) (cases first; simp)
  qed
qed simp

lemma sound_symbol: "soundHash keccak \<Longrightarrow> IsAddress a \<Longrightarrow> \<exists>n. symbolOf keccak rows a = Some n"
  using sound_checksum[of keccak a] by (auto simp: symbolOf_def split: option.splits)

lemma allSome_total: "\<forall>x \<in> set xs. \<exists>y. x = Some y \<Longrightarrow> \<exists>ys. allSome xs = Some ys"
  by (induction xs) auto

lemma render_total:
  assumes "soundHash (qKeccak q)" "IsAddress (qrTokenIn req)" "IsAddress (qrTokenOut req)" "\<forall>l \<in> set r. addressedLeg l" "r \<noteq> []"
  shows "\<exists>answer hs. render q s req r ty sw sl bn = Some answer \<and> cqRoute answer = [hs] \<and>
    showsRoute (sdToken (cqInput answer)) (sdToken (cqOutput answer)) r hs \<and>
    echoToken (qKeccak q) (qrTokenIn req) = Some (sdToken (cqInput answer)) \<and>
    echoToken (qKeccak q) (qrTokenOut req) = Some (sdToken (cqOutput answer)) \<and>
    sdAmount (cqInput answer) = amountText (routeAmountIn r) \<and> sdAmount (cqOutput answer) = amountText (routeAmountOut r) \<and>
    cqSwapper answer = sw \<and> cqTradeType answer = ty \<and> cqSlippage answer = sl \<and> cqChainID answer = qChainID q"
proof -
  obtain ein eout where e: "echoToken (qKeccak q) (qrTokenIn req) = Some ein" "echoToken (qKeccak q) (qrTokenOut req) = Some eout"
    using sound_echo assms(1-3) by metis
  obtain hs where hs: "renderHops (qKeccak q) (tokenTable (TokensRaw s)) (qChainID q) ein eout True r = Some hs" "showsRoute ein eout r hs"
    using renderHops_shows[OF assms(1,4,5), of "tokenTable (TokensRaw s)" "qChainID q" ein eout True] by auto
  have "\<forall>x \<in> set (map (symbolOf (qKeccak q) (tokenTable (TokensRaw s))) (legIn (hd r) # map legOut r)). \<exists>y. x = Some y"
    using sound_symbol[OF assms(1)] assms(4,5) by (auto simp: addressedLeg_def)
  then obtain ns where ns: "allSome (map (symbolOf (qKeccak q) (tokenTable (TokensRaw s))) (legIn (hd r) # map legOut r)) = Some ns"
    using allSome_total by blast
  show ?thesis using e hs ns by (simp add: render_def Let_def del: allSome.simps list.map)
qed

lemma chained_addressed:
  "chained ps a b r \<Longrightarrow> \<forall>p \<in> ps. goodPool p \<Longrightarrow> \<forall>l \<in> set r. addressedLeg l"
  by (induction ps a b r rule: chained.induct) (auto simp: addressedLeg_def goodPool_def joins_def)

lemma chained_ends: "chained ps a b r \<Longrightarrow> r \<noteq> [] \<and> legIn (hd r) = a \<and> legOut (last r) = b"
  by (induction ps a b r rule: chained.induct) auto

lemma classified_good:
  assumes "classify q ask venues (book raw) = Some (ps, venues')"
  shows "\<forall>p \<in> set ps. goodPool p"
proof
  fix p assume "p \<in> set ps"
  then obtain i where i: "i < length ps" "p = ps ! i" by (auto simp: in_set_conv_nth)
  have "length ps = length (book raw)" using classify_same(1)[OF assms] by (metis length_map)
  then have "addr p = addr (book raw ! i)" "t0 p = t0 (book raw ! i)" "t1 p = t1 (book raw ! i)" "book raw ! i \<in> set (book raw)"
    using classify_same(1-3)[OF assms] i by (simp_all add: list_eq_iff_nth_eq)
  then show "goodPool p" using book_good[of "book raw ! i" raw] by (simp add: goodPool_def)
qed

lemma classified_book:
  assumes "classify q ask venues (book raw) = Some (ps, venues')" "p \<in> set ps"
  shows "\<exists>p' \<in> set (book raw). addr p' = addr p \<and> fee p' = fee p"
proof -
  obtain i where i: "i < length ps" "p = ps ! i" using assms(2) by (auto simp: in_set_conv_nth)
  have "length ps = length (book raw)" using classify_same(1)[OF assms(1)] by (metis length_map)
  then show ?thesis
    using classify_same(1,5)[OF assms(1)] i by (intro bexI[of _ "book raw ! i"]) (simp_all add: list_eq_iff_nth_eq)
qed

section \<open>Amounts that fit a word\<close>

lemma wordHex_bound: "setString 16 (take wordHexLen h) = (n, ok) \<Longrightarrow> \<not> length h < wordHexLen \<Longrightarrow> n \<le> maxWord"
proof -
  assume a: "setString 16 (take wordHexLen h) = (n, ok)" "\<not> length h < wordHexLen"
  have "length (take wordHexLen h) = 64" "take wordHexLen h \<noteq> []" using a(2) by (auto simp: wordHexLen_def)
  then have "\<bar>n\<bar> < int (16 ^ 64)" using setString_abs_bound[of 16 "take wordHexLen h"] a(1) by simp
  moreover have "int (16 ^ 64) = 2 ^ 256" by simp
  ultimately show ?thesis by (simp add: maxWord_def)
qed

lemma words_fit: "n \<in> set (wordsFrom h) \<Longrightarrow> n \<le> maxWord"
proof (induction h rule: wordsFrom.induct)
  case (1 h)
  obtain k ok where k: "setString 16 (take wordHexLen h) = (k, ok)" by fastforce
  then have "wordsFrom h = (if length h < wordHexLen \<or> \<not> ok then [] else k # wordsFrom (drop wordHexLen h))"
    by (subst wordsFrom.simps) simp
  then show ?case using 1 k wordHex_bound[OF k] by (auto split: if_splits)
qed

definition fitsWord :: "int option \<Rightarrow> bool" where
  "fitsWord a \<longleftrightarrow> (case a of None \<Rightarrow> True | Some n \<Rightarrow> n \<le> maxWord)"

definition fitLeg :: "leg \<Rightarrow> bool" where
  "fitLeg l \<longleftrightarrow> fitsWord (amtIn l) \<and> fitsWord (amtOut l)"

definition onV3 :: "leg \<Rightarrow> bool" where
  "onV3 l \<longleftrightarrow> venue (legPool l) \<noteq> ''v2''"

definition fitRoute :: "route \<Rightarrow> bool" where
  "fitRoute r \<longleftrightarrow> list_all onV3 r \<longrightarrow> list_all fitLeg r"

definition fitStep :: "leg \<Rightarrow> leg \<Rightarrow> bool" where
  "fitStep l l' \<longleftrightarrow> legPool l' = legPool l \<and> (onV3 l \<longrightarrow> fitLeg l \<longrightarrow> fitLeg l')"

lemma absorb_fit: "fitStep l (absorb x res (snd (legCalls q x l)))"
proof -
  have w: "(words h ! 0) \<le> maxWord" if "4 \<le> length (words h)" for h
    using words_fit that unfolding words_def by (metis nth_mem not_numeral_le_zero not_gr_zero)
  have "legPool (absorb x res (snd (legCalls q x l))) = legPool l"
    using absorb_same[of "snd (legCalls q x l)" x res] by (simp add: sameLeg_def)
  then show ?thesis
    using w by (auto simp: fitStep_def onV3_def absorb_def absorbV3_def fitLeg_def fitsWord_def Let_def
        split: list.splits)
qed

lemma absorbLegs_fit: "list_all2 fitStep ls (fst (absorbLegs q x res ls))"
proof (induction ls arbitrary: res)
  case (Cons l ls)
  have r: "fitStep l l" by (simp add: fitStep_def)
  obtain calls l' where c: "legCalls q x l = (calls, l')" by fastforce
  then have "fitStep l (absorb x (take (length calls) res) l')" using absorb_fit[of l x "take (length calls) res" q] by simp
  then show ?case using Cons r c by (simp split: prod.splits) (metis fst_conv)
qed simp

lemma fitStep_route: "list_all2 fitStep r r' \<Longrightarrow> fitRoute r \<Longrightarrow> fitRoute r'"
proof -
  assume a: "list_all2 fitStep r r'" "fitRoute r"
  have "list_all onV3 r' = list_all onV3 r" using a(1) by (induction rule: list_all2_induct) (auto simp: fitStep_def onV3_def)
  moreover have "list_all onV3 r \<Longrightarrow> list_all fitLeg r \<Longrightarrow> list_all fitLeg r'"
    using a(1) by (induction rule: list_all2_induct) (auto simp: fitStep_def)
  ultimately show ?thesis using a(2) by (simp add: fitRoute_def)
qed

lemma feed_fit: "list_all fitLeg r \<Longrightarrow> list_all fitLeg (feed x r)"
  by (induction x r rule: feed.induct) (auto simp: feedNext_def feedPrev_def fitLeg_def)

lemma feed_fitRoute: "fitRoute r \<Longrightarrow> fitRoute (feed x r)"
proof -
  have "list_all onV3 (feed x r) = list_all onV3 r"
    using feed_same[of r x] by (induction rule: list_all2_induct) (auto simp: sameLeg_def onV3_def)
  then show "fitRoute r \<Longrightarrow> fitRoute (feed x r)" using feed_fit[of r x] by (simp add: fitRoute_def)
qed

lemma absorbRoutes_fit: "list_all2 (list_all2 fitStep) cs (absorbRoutes q x res cs)"
proof (induction cs arbitrary: res)
  case (Cons c cs)
  obtain c' rest where c: "absorbLegs q x res c = (c', rest)" by fastforce
  then show ?case using Cons absorbLegs_fit[of c q x res] by simp
qed simp

lemma priceReady_fit:
  assumes "priceReady q ask x cs = Some cs'" "\<forall>r \<in> set cs. fitRoute r"
  shows "\<forall>r \<in> set cs'. fitRoute r"
proof (cases "readyLegs x cs = []")
  case False
  then obtain res where r: "cs' = map (feed x) (absorbRoutes q x res cs)"
    using assms(1) by (auto simp: priceReady_def Let_def split: option.splits)
  have "\<forall>r' \<in> set (absorbRoutes q x res cs). fitRoute (feed x r')"
    using absorbRoutes_fit assms(2) by (rule list_all2_transfer) (auto intro: feed_fitRoute fitStep_route)
  then show ?thesis using r by simp
qed (use assms in \<open>simp add: priceReady_def\<close>)

lemma seed_fit:
  assumes "r \<in> set (routes ps a b)" "a \<noteq> b" "n \<le> maxWord"
  shows "fitRoute (seed x n r)"
proof -
  have "r \<in> set (allRoutes ps a b)" using assms(1) by (auto simp: routes_take dest: in_set_takeD)
  then have "\<forall>l \<in> set r. amtIn l = None \<and> amtOut l = None"
    by (auto simp: set_allRoutes[OF assms(2)] newLeg_def hopRoute_def)
  then have r: "list_all fitLeg r" by (simp add: list_all_iff fitLeg_def fitsWord_def)
  have "list_all fitLeg (seed x n r)"
  proof (cases x)
    case True
    then show ?thesis using r assms(3) by (cases r) (auto simp: seed_def fitLeg_def fitsWord_def)
  next
    case False
    then show ?thesis using r assms(3) by (cases r rule: rev_cases) (auto simp: seed_def fitLeg_def fitsWord_def)
  qed
  then show ?thesis by (simp add: fitRoute_def)
qed

lemma winner_fit:
  assumes "best q ask0 ask1 ask2 venues raw a b n ty = (Some r, venues')" "a \<noteq> b" "n \<le> maxWord"
  shows "fitRoute r"
proof -
  let ?x = "ty = ''EXACT_INPUT''"
  obtain ps cs1 cs2 where h: "priceReady q ask1 ?x (map (seed ?x n) (routes ps a b)) = Some cs1" "priceReady q ask2 ?x cs1 = Some cs2"
    "foldl (chooseStep ?x) None cs2 = Some r"
    using best_cases[OF assms(1)] by metis
  have "\<forall>r \<in> set (map (seed ?x n) (routes ps a b)). fitRoute r" using seed_fit[OF _ assms(2,3)] by auto
  then have "\<forall>r \<in> set cs2. fitRoute r" using priceReady_fit h(1,2) by blast
  then show ?thesis using chooseStep_inv[OF h(3)] by auto
qed

section \<open>Replies\<close>

definition askable :: "quoter \<Rightarrow> quoteRequest \<Rightarrow> bool" where
  "askable q req \<longleftrightarrow> IsAddress (qrTokenIn req) \<and> IsAddress (qrTokenOut req) \<and>
     (case parseWei (qrAmount req) of None \<Rightarrow> False | Some n \<Rightarrow> 0 < n)"

definition wantedIn :: "quoter \<Rightarrow> quoteRequest \<Rightarrow> string" where
  "wantedIn q req = unwrapNative (qWrapped q) (qrTokenIn req)"

definition wantedOut :: "quoter \<Rightarrow> quoteRequest \<Rightarrow> string" where
  "wantedOut q req = unwrapNative (qWrapped q) (qrTokenOut req)"

definition storedBook :: "store \<Rightarrow> (string \<times> seedPool option) list" where
  "storedBook s = map (\<lambda>(k, p). (k, Some p)) (PoolsRaw s)"

text \<open>A winner of \<open>best\<close> over the stored pools can be rendered.\<close>

lemma winner_route:
  assumes "best q ask0 ask1 ask2 venues (storedBook s) a b n ty = (Some r, venues')" "a \<noteq> b"
  shows "\<exists>ps. classify q ask0 venues (book (storedBook s)) = Some (ps, venues') \<and> chained (set ps) a b r \<and> priced r \<and>
    length r \<le> 2 \<and> fixedIn (ty = ''EXACT_INPUT'') n r \<and> (\<forall>l \<in> set r. addressedLeg l) \<and> r \<noteq> []"
proof -
  let ?x = "ty = ''EXACT_INPUT''"
  obtain ps cs1 cs2 where h: "classify q ask0 venues (book (storedBook s)) = Some (ps, venues')"
    "priceReady q ask1 ?x (map (seed ?x n) (routes ps a b)) = Some cs1" "priceReady q ask2 ?x cs1 = Some cs2"
    "foldl (chooseStep ?x) None cs2 = Some r"
    using best_cases[OF assms(1)] .
  have p: "pricedCandidates q ask1 ask2 ?x n (routes ps a b) = Some cs2" using h(2,3) by (simp add: pricedCandidates_def)
  have c: "r \<in> set cs2 \<and> priced r" using chooseStep_inv[OF h(4)] by simp
  then have g: "goodCandidate ?x n (set ps) a b r" using pricedCandidates_good[OF p assms(2)] by blast
  then have "chained (set ps) a b r" by (simp add: goodCandidate_def)
  then show ?thesis
    using h(1) c g chained_addressed[OF _ classified_good[OF h(1)]] chained_ends by (auto simp: goodCandidate_def)
qed

definition keepsLeg :: "leg \<Rightarrow> leg \<Rightarrow> bool" where
  "keepsLeg l l' \<longleftrightarrow> sameLeg l l' \<and> amtIn l' = amtIn l \<and> amtOut l' = amtOut l"

lemma keeps_linked: "list_all2 keepsLeg r r' \<Longrightarrow> linked x n r \<Longrightarrow> linked x n r'"
proof (induction x n r arbitrary: r' rule: linked.induct)
  case (2 x n l)
  then show ?case by (auto simp: list_all2_Cons1 keepsLeg_def)
next
  case (3 x n a b ls)
  then obtain a' b' ls' where r': "r' = a' # b' # ls'" "keepsLeg a a'" "keepsLeg b b'" "list_all2 keepsLeg (b # ls) (b' # ls')"
    by (auto simp: list_all2_Cons1)
  have "linked x n (b # ls)" using 3(3) by simp
  then have "linked x n (b' # ls')" using 3(1)[OF r'(4)] by simp
  then show ?case using 3(3) r' by (simp add: keepsLeg_def split: if_splits)
qed simp

lemma keeps_priced: "list_all2 keepsLeg r r' \<Longrightarrow> priced r \<Longrightarrow> priced r'"
  by (induction rule: list_all2_induct) (simp_all add: priced_def keepsLeg_def)

lemma keeps_addressed: "list_all2 keepsLeg r r' \<Longrightarrow> \<forall>l \<in> set r. addressedLeg l \<Longrightarrow> \<forall>l \<in> set r'. addressedLeg l"
proof (induction rule: list_all2_induct)
  case (Cons l r l' r')
  have "addressedLeg l'" using Cons.hyps(1) Cons.prems by (simp add: keepsLeg_def sameLeg_def addressedLeg_def)
  then show ?case using Cons by simp
qed simp

lemma keeps_chained: "list_all2 keepsLeg r r' \<Longrightarrow> chained ps a b r \<Longrightarrow> chained ps a b r'"
proof -
  assume k: "list_all2 keepsLeg r r'" and c: "chained ps a b r"
  have "list_all2 sameLeg r r'" using k by (rule list_all2_mono) (simp add: keepsLeg_def)
  then show ?thesis using c by (rule chained_step)
qed

lemma keeps_fixedIn: "list_all2 keepsLeg r r' \<Longrightarrow> fixedIn x n r \<Longrightarrow> fixedIn x n r'"
  using keeps_linked[of r r' x n] list_all2_hd[of keepsLeg r r'] by (simp add: fixedIn_def keepsLeg_def)

lemma decorate_keeps: "list_all2 keepsLeg r (fst (decorate q ask r))"
  using decorate_same[of r q ask] by (rule list_all2_mono) (simp add: keepsLeg_def)

definition rendersRoute :: "quoter \<Rightarrow> quoteRequest \<Rightarrow> string \<Rightarrow> route \<Rightarrow> classicQuote \<Rightarrow> bool" where
  "rendersRoute q req sw r answer \<longleftrightarrow>
     (\<exists>hs. cqRoute answer = [hs] \<and> showsRoute (sdToken (cqInput answer)) (sdToken (cqOutput answer)) r hs) \<and>
     echoToken (qKeccak q) (qrTokenIn req) = Some (sdToken (cqInput answer)) \<and>
     echoToken (qKeccak q) (qrTokenOut req) = Some (sdToken (cqOutput answer)) \<and>
     sdAmount (cqInput answer) = amountText (routeAmountIn r) \<and> sdAmount (cqOutput answer) = amountText (routeAmountOut r) \<and>
     cqSwapper answer = sw \<and> cqTradeType answer = tradeTypeOf req \<and> cqChainID answer = qChainID q"

lemma serve_cases:
  assumes "soundHash (qKeccak q)" "askable q req" "\<not> chainMismatch q req" "wantedIn q req \<noteq> wantedOut q req"
  obtains n sw where "parseWei (qrAmount req) = Some n" "0 < n" "swapperOf q req = Some sw" "IsAddress sw"
    "\<And>venues'. best q ask0 ask1 ask2 venues (storedBook s) (wantedIn q req) (wantedOut q req) n (tradeTypeOf req) = (None, venues') \<Longrightarrow>
       \<exists>answer. serve q ask0 ask1 ask2 ask3 venues s req = (OK answer, venues') \<and> cqRoute answer = []"
    "\<And>r venues'. best q ask0 ask1 ask2 venues (storedBook s) (wantedIn q req) (wantedOut q req) n (tradeTypeOf req) = (Some r, venues') \<Longrightarrow>
       \<exists>answer. serve q ask0 ask1 ask2 ask3 venues s req = (OK answer, venues') \<and> rendersRoute q req sw (fst (decorate q ask3 r)) answer"
proof -
  obtain n where n: "parseWei (qrAmount req) = Some n" "0 < n" "IsAddress (qrTokenIn req)" "IsAddress (qrTokenOut req)"
    using assms(2) by (auto simp: askable_def split: option.splits)
  obtain sw where sw: "swapperOf q req = Some sw" "IsAddress sw" using sound_swapper[OF assms(1)] by blast
  define sl where "sl = (case qrSlippage req of None \<Rightarrow> Fin (1 / 2) | Some p \<Rightarrow> p)"
  obtain ein eout where e: "echoToken (qKeccak q) (qrTokenIn req) = Some ein" "echoToken (qKeccak q) (qrTokenOut req) = Some eout"
    using sound_echo[OF assms(1)] n(3,4) by metis
  obtain blank where b: "noRoute (qKeccak q) (qChainID q) req (tradeTypeOf req) sw sl = Some blank" "cqRoute blank = []"
    using e by (simp add: noRoute_def)
  have u: "serve q ask0 ask1 ask2 ask3 venues s req =
      (case best q ask0 ask1 ask2 venues (storedBook s) (wantedIn q req) (wantedOut q req) n (tradeTypeOf req) of
         (None, venues') \<Rightarrow> (OK blank, venues')
       | (Some r, venues') \<Rightarrow>
           (case decorate q ask3 r of
              (r', blockNo) \<Rightarrow>
                (case render q s req r' (tradeTypeOf req) sw sl blockNo of
                   None \<Rightarrow> (Panic, venues')
                 | Some answer \<Rightarrow> (OK answer, venues'))))"
    using n sw(1) assms(3,4) b(1)
    by (simp add: serve_def Let_def storedBook_def wantedIn_def wantedOut_def flip: sl_def)
  show ?thesis
  proof (rule that[OF n(1,2) sw])
    fix venues'
    assume "best q ask0 ask1 ask2 venues (storedBook s) (wantedIn q req) (wantedOut q req) n (tradeTypeOf req) = (None, venues')"
    then show "\<exists>answer. serve q ask0 ask1 ask2 ask3 venues s req = (OK answer, venues') \<and> cqRoute answer = []"
      using b(2) unfolding u by simp
  next
    fix r venues'
    assume bst: "best q ask0 ask1 ask2 venues (storedBook s) (wantedIn q req) (wantedOut q req) n (tradeTypeOf req) = (Some r, venues')"
    obtain r' blockNo where d: "decorate q ask3 r = (r', blockNo)" by (cases "decorate q ask3 r")
    have "\<forall>l \<in> set r. addressedLeg l" "r \<noteq> []" using winner_route[OF bst assms(4)] by auto
    then have "\<forall>l \<in> set r'. addressedLeg l" "r' \<noteq> []"
      using keeps_addressed[OF decorate_keeps] list_all2_hd[OF decorate_keeps] d by (metis fst_conv)+
    from render_total[OF assms(1) n(3,4) this, of s "tradeTypeOf req" sw sl blockNo]
    show "\<exists>answer. serve q ask0 ask1 ask2 ask3 venues s req = (OK answer, venues') \<and> rendersRoute q req sw (fst (decorate q ask3 r)) answer"
      unfolding u bst by (auto simp: d rendersRoute_def)
  qed
qed

lemma serve_refusals:
  "\<not> askable q req \<Longrightarrow> \<exists>d. serve q ask0 ask1 ask2 ask3 venues s req = (BadRequest d, venues)"
  "askable q req \<Longrightarrow> chainMismatch q req \<Longrightarrow> serve q ask0 ask1 ask2 ask3 venues s req = (NotFound, venues)"
  "soundHash (qKeccak q) \<Longrightarrow> askable q req \<Longrightarrow> \<not> chainMismatch q req \<Longrightarrow> wantedIn q req = wantedOut q req \<Longrightarrow>
   \<exists>d. serve q ask0 ask1 ask2 ask3 venues s req = (BadRequest d, venues)"
proof -
  show "\<not> askable q req \<Longrightarrow> \<exists>d. serve q ask0 ask1 ask2 ask3 venues s req = (BadRequest d, venues)"
    by (auto simp: askable_def serve_def split: option.splits)
  show "askable q req \<Longrightarrow> chainMismatch q req \<Longrightarrow> serve q ask0 ask1 ask2 ask3 venues s req = (NotFound, venues)"
    by (auto simp: askable_def serve_def split: option.splits)
  assume a: "soundHash (qKeccak q)" "askable q req" "\<not> chainMismatch q req" "wantedIn q req = wantedOut q req"
  obtain sw where "swapperOf q req = Some sw" using sound_swapper[OF a(1)] by blast
  then show "\<exists>d. serve q ask0 ask1 ask2 ask3 venues s req = (BadRequest d, venues)"
    using a(2-4) by (auto simp: askable_def serve_def Let_def wantedIn_def wantedOut_def split: option.splits)
qed

text \<open>C19: The quote endpoint always answers, and says no for a reason: a request with bad addresses, a bad amount or twice the
same token is a 400, a request for another chain is a 404, and any other request is a 200, with an empty route when the quoter
found none; it never panics when the hash gives 32 bytes, and a refused request leaves the venue cache as it was.\<close>

theorem serve_replies:
  assumes "soundHash (qKeccak q)"
  shows "let reply = fst (serve q ask0 ask1 ask2 ask3 venues s req) in
    ((\<exists>d. reply = BadRequest d) \<longleftrightarrow> \<not> askable q req \<or> (\<not> chainMismatch q req \<and> wantedIn q req = wantedOut q req)) \<and>
    (reply = NotFound \<longleftrightarrow> askable q req \<and> chainMismatch q req) \<and>
    ((\<exists>answer. reply = OK answer) \<longleftrightarrow> askable q req \<and> \<not> chainMismatch q req \<and> wantedIn q req \<noteq> wantedOut q req) \<and>
    ((\<exists>answer. reply = OK answer) \<or> snd (serve q ask0 ask1 ask2 ask3 venues s req) = venues)"
proof -
  note no = serve_refusals[of q req ask0 ask1 ask2 ask3 venues s]
  consider (bad) "\<not> askable q req" | (chain) "askable q req" "chainMismatch q req"
    | (same) "askable q req" "\<not> chainMismatch q req" "wantedIn q req = wantedOut q req"
    | (ok) "askable q req" "\<not> chainMismatch q req" "wantedIn q req \<noteq> wantedOut q req" by blast
  then show ?thesis
  proof cases
    case bad
    then show ?thesis using no(1) by (auto simp: Let_def)
  next
    case chain
    then show ?thesis using no(2) by (auto simp: Let_def)
  next
    case same
    then show ?thesis using no(3)[OF assms] by (auto simp: Let_def)
  next
    case ok
    obtain n sw where none: "\<And>venues'. best q ask0 ask1 ask2 venues (storedBook s) (wantedIn q req) (wantedOut q req) n (tradeTypeOf req) = (None, venues') \<Longrightarrow>
         \<exists>answer. serve q ask0 ask1 ask2 ask3 venues s req = (OK answer, venues') \<and> cqRoute answer = []"
      and some: "\<And>r venues'. best q ask0 ask1 ask2 venues (storedBook s) (wantedIn q req) (wantedOut q req) n (tradeTypeOf req) = (Some r, venues') \<Longrightarrow>
         \<exists>answer. serve q ask0 ask1 ask2 ask3 venues s req = (OK answer, venues') \<and> rendersRoute q req sw (fst (decorate q ask3 r)) answer"
      by (rule serve_cases[OF assms ok, of ask0 ask1 ask2 venues s ask3]) blast
    obtain w venues' where "best q ask0 ask1 ask2 venues (storedBook s) (wantedIn q req) (wantedOut q req) n (tradeTypeOf req) = (w, venues')"
      by fastforce
    then have "\<exists>answer. serve q ask0 ask1 ask2 ask3 venues s req = (OK answer, venues')" using none some by (cases w) blast+
    then show ?thesis using ok by (auto simp: Let_def)
  qed
qed

fun hopsMeet :: "hopJSON list \<Rightarrow> bool" where
  "hopsMeet (h # h' # hs) =
     (toLower (tjAddress (hjTokenOut h)) = toLower (tjAddress (hjTokenIn h')) \<and> hjAmountOut h = hjAmountIn h' \<and> hopsMeet (h' # hs))"
| "hopsMeet hs = True"

lemma showsRoute_ends:
  "showsRoute a b r hs \<Longrightarrow> r \<noteq> [] \<Longrightarrow> hs \<noteq> [] \<and> length hs = length r \<and> tjAddress (hjTokenIn (hd hs)) = a \<and>
     tjAddress (hjTokenOut (last hs)) = b \<and> hjAmountIn (hd hs) = amountText (amtIn (hd r)) \<and>
     hjAmountOut (last hs) = amountText (amtOut (last r)) \<and>
     (\<forall>h \<in> set hs. \<exists>l \<in> set r. \<exists>c d. legShown l c d h)"
proof (induction a b r hs rule: showsRoute.induct)
  case (3 a b l v va hs)
  then obtain h hs' c d where h: "hs = h # hs'" "legShown l a c h" "showsRoute d b (v # va) hs'" by auto
  then show ?case using 3(1)[OF h(3)] by (auto simp: legShown_def)
qed (auto simp: legShown_def)

lemma showsRoute_meet:
  "showsRoute a b r hs \<Longrightarrow> chained ps u v r \<Longrightarrow> linked x n r \<Longrightarrow> priced r \<Longrightarrow> hopsMeet hs"
proof (induction a b r hs arbitrary: u rule: showsRoute.induct)
  case (3 a b l l' ls hs)
  then obtain h hs' c d where h: "hs = h # hs'" "legShown l a c h" "toLower c = toLower (legOut l)" "toLower d = toLower (legIn l')"
      "showsRoute d b (l' # ls) hs'" by auto
  have c: "chained ps (legOut l) v (l' # ls)" "linked x n (l' # ls)" "priced (l' # ls)" using 3(3-5) by (auto simp: priced_def)
  have m: "hopsMeet hs'" by (rule 3(1)[OF h(5) c])
  obtain h' hs'' where h': "hs' = h' # hs''" "tjAddress (hjTokenIn h') = d" "hjAmountIn h' = amountText (amtIn l')"
    using showsRoute_ends[OF h(5)] by (cases hs') auto
  have "legIn l' = legOut l" using chained_ends[OF c(1)] by simp
  moreover have "amtOut l = amtIn l'" using 3(4,5) by (cases x) (auto simp: priced_def positive_def split: option.splits)
  ultimately show ?case using h h' m by (simp add: legShown_def)
qed auto

lemma chained_pools: "chained ps u v r \<Longrightarrow> l \<in> set r \<Longrightarrow> legPool l \<in> ps"
  by (induction ps u v r rule: chained.induct) auto

lemma linked_out: "linked False n r \<Longrightarrow> amtOut (last r) = Some n"
  by (induction False n r rule: linked.induct) auto

lemma stored_pool:
  assumes "classify q ask venues (book (storedBook s)) = Some (ps, venues')" "p \<in> set ps"
  shows "\<exists>(k, row) \<in> set (PoolsRaw s). toLower k = addr p \<and> spFeeTier row = fee p"
proof -
  obtain p' where p': "p' \<in> set (book (storedBook s))" "addr p' = addr p" "fee p' = fee p"
    using classified_book[OF assms] by blast
  then obtain i where i: "i < length (PoolsRaw s)" "bookEntry i (storedBook s ! i) = Some p'" by (auto simp: set_book storedBook_def)
  obtain k row where k: "PoolsRaw s ! i = (k, row)" by (cases "PoolsRaw s ! i")
  then have "(k, row) \<in> set (PoolsRaw s)" using i(1) by (metis nth_mem)
  moreover have "addr p' = toLower k" "fee p' = spFeeTier row"
    using i k by (auto simp: storedBook_def bookEntry_def Let_def split: if_splits)
  ultimately show ?thesis using p' by (intro bexI[of _ "(k, row)"]) auto
qed

lemma hop_is_stored:
  assumes "classify q ask venues (book (storedBook s)) = Some (ps, venues')" "chained (set ps) a b r"
    "\<forall>h \<in> set hs. \<exists>l \<in> set r. \<exists>c d. legShown l c d h" "h \<in> set hs"
  shows "\<exists>(k, p) \<in> set (PoolsRaw s). toLower k = toLower (hjAddress h)"
proof -
  obtain l c d where l: "l \<in> set r" "legShown l c d h" using assms(3,4) by blast
  obtain k row where k: "(k, row) \<in> set (PoolsRaw s)" "toLower k = addr (legPool l)"
    using stored_pool[OF assms(1) chained_pools[OF assms(2) l(1)]] by auto
  have "toLower (hjAddress h) = toLower (toLower k)" using l(2) k(2) by (simp add: legShown_def)
  then show ?thesis using k(1) by (intro bexI[of _ "(k, row)"]) simp_all
qed

lemma keeps_fit: "list_all2 keepsLeg r r' \<Longrightarrow> fitRoute r \<Longrightarrow> fitRoute r'"
proof -
  assume k: "list_all2 keepsLeg r r'"
  have "list_all onV3 r' = list_all onV3 r" "list_all fitLeg r' = list_all fitLeg r"
    using k by (induction rule: list_all2_induct) (auto simp: keepsLeg_def sameLeg_def onV3_def fitLeg_def)
  then show "fitRoute r \<Longrightarrow> fitRoute r'" by (simp add: fitRoute_def)
qed

text \<open>A route answered is a winner of \<open>best\<close>, decorated.\<close>

lemma served_winner:
  assumes "soundHash (qKeccak q)" "serve q ask0 ask1 ask2 ask3 venues s req = (OK answer, venues')" "cqRoute answer \<noteq> []"
  obtains n r ps hs where "parseWei (qrAmount req) = Some n" "askable q req"
    "classify q ask0 venues (book (storedBook s)) = Some (ps, venues')" "chained (set ps) (wantedIn q req) (wantedOut q req) r"
    "priced r" "length r \<le> 2" "fixedIn (tradeTypeOf req = ''EXACT_INPUT'') n r" "r \<noteq> []" "fitRoute r"
    "cqRoute answer = [hs]" "showsRoute (sdToken (cqInput answer)) (sdToken (cqOutput answer)) r hs"
    "toLower (sdToken (cqInput answer)) = toLower (qrTokenIn req)" "toLower (sdToken (cqOutput answer)) = toLower (qrTokenOut req)"
    "IsAddress (sdToken (cqInput answer))" "IsAddress (sdToken (cqOutput answer))"
    "sdAmount (cqInput answer) = amountText (routeAmountIn r)" "sdAmount (cqOutput answer) = amountText (routeAmountOut r)"
    "IsAddress (cqSwapper answer)" "cqChainID answer = qChainID q"
proof -
  have r: "(\<exists>a. fst (serve q ask0 ask1 ask2 ask3 venues s req) = OK a)" using assms(2) by simp
  have no: "askable q req" "\<not> chainMismatch q req" "wantedIn q req \<noteq> wantedOut q req"
    using r serve_refusals[of q req ask0 ask1 ask2 ask3 venues s] assms(1) by force+
  obtain n sw where c: "parseWei (qrAmount req) = Some n" "IsAddress sw"
    and none: "\<And>venues'. best q ask0 ask1 ask2 venues (storedBook s) (wantedIn q req) (wantedOut q req) n (tradeTypeOf req) = (None, venues') \<Longrightarrow>
       \<exists>answer. serve q ask0 ask1 ask2 ask3 venues s req = (OK answer, venues') \<and> cqRoute answer = []"
    and some: "\<And>r venues'. best q ask0 ask1 ask2 venues (storedBook s) (wantedIn q req) (wantedOut q req) n (tradeTypeOf req) = (Some r, venues') \<Longrightarrow>
       \<exists>answer. serve q ask0 ask1 ask2 ask3 venues s req = (OK answer, venues') \<and> rendersRoute q req sw (fst (decorate q ask3 r)) answer"
    by (rule serve_cases[OF assms(1) no, of ask0 ask1 ask2 venues s ask3]) blast
  let ?B = "best q ask0 ask1 ask2 venues (storedBook s) (wantedIn q req) (wantedOut q req) n (tradeTypeOf req)"
  obtain w v where b: "?B = (w, v)" by fastforce
  obtain r where w: "w = Some r" using none b assms(2,3) by (cases w) fastforce+
  have v: "v = venues'" and "rendersRoute q req sw (fst (decorate q ask3 r)) answer"
    using some[of r v] b w assms(2) by auto
  then obtain hs where hs: "v = venues'" "cqRoute answer = [hs]"
    "showsRoute (sdToken (cqInput answer)) (sdToken (cqOutput answer)) (fst (decorate q ask3 r)) hs"
    "echoToken (qKeccak q) (qrTokenIn req) = Some (sdToken (cqInput answer))"
    "echoToken (qKeccak q) (qrTokenOut req) = Some (sdToken (cqOutput answer))"
    "sdAmount (cqInput answer) = amountText (routeAmountIn (fst (decorate q ask3 r)))"
    "sdAmount (cqOutput answer) = amountText (routeAmountOut (fst (decorate q ask3 r)))"
    "cqSwapper answer = sw" "cqChainID answer = qChainID q"
    by (auto simp: rendersRoute_def)
  define r' where "r' = fst (decorate q ask3 r)"
  obtain ps where ps: "classify q ask0 venues (book (storedBook s)) = Some (ps, v)" "chained (set ps) (wantedIn q req) (wantedOut q req) r"
    "priced r" "length r \<le> 2" "fixedIn (tradeTypeOf req = ''EXACT_INPUT'') n r" "r \<noteq> []"
    using winner_route[OF b[unfolded w] no(3)] by blast
  have k: "list_all2 keepsLeg r r'" unfolding r'_def by (rule decorate_keeps)
  have "length r' \<le> 2" "r' \<noteq> []" using list_all2_lengthD[OF k] ps(4,6) by auto
  moreover have "fitRoute r'"
    using keeps_fit[OF k] winner_fit[OF b[unfolded w] no(3)] parseWei_range[OF c(1)] by simp
  moreover have "toLower (sdToken (cqInput answer)) = toLower (qrTokenIn req)" "IsAddress (sdToken (cqInput answer))"
    using sound_echo[OF assms(1), of "qrTokenIn req"] hs(4) no(1) by (auto simp: askable_def)
  moreover have "toLower (sdToken (cqOutput answer)) = toLower (qrTokenOut req)" "IsAddress (sdToken (cqOutput answer))"
    using sound_echo[OF assms(1), of "qrTokenOut req"] hs(5) no(1) by (auto simp: askable_def)
  ultimately show thesis
    using that[OF c(1) no(1) ps(1)[unfolded hs(1)] keeps_chained[OF k ps(2)] keeps_priced[OF k ps(3)] _ keeps_fixedIn[OF k ps(5)]
        _ _ hs(2) hs(3)[folded r'_def] _ _ _ _ hs(6,7)[folded r'_def]] c(2) hs(8,9) by (simp only: simp_thms)
qed


section \<open>A quote handed back\<close>

text \<open>How the JSON of an answer is read as the body of a swap request: a hop keeps its type, the addresses of
its two tokens and its fee.\<close>

definition asHop :: "hopJSON \<Rightarrow> hop" where
  "asHop h = \<lparr>hopType = hjType h, hopTokenIn = tjAddress (hjTokenIn h), hopTokenOut = tjAddress (hjTokenOut h), hopFee = hjFee h\<rparr>"

definition asSwapQuote :: "classicQuote \<Rightarrow> swapQuote" where
  "asSwapQuote a =
     \<lparr>sqChainID = cqChainID a, sqSwapper = cqSwapper a, sqInputToken = sdToken (cqInput a), sqInputAmount = sdAmount (cqInput a),
      sqOutputToken = sdToken (cqOutput a), sqOutputAmount = sdAmount (cqOutput a), sqTradeType = cqTradeType a,
      sqSlippage = Some (cqSlippage a), sqRoute = map (map asHop) (cqRoute a), sqGasUseEstimate = cqGasUseEstimate a\<rparr>"

definition feeFits :: "int \<Rightarrow> bool" where
  "feeFits f \<longleftrightarrow> 0 \<le> f \<and> f < 2 ^ 24"

lemma parseInt64_fee: "feeFits f \<Longrightarrow> parseInt64 (intText 10 f) = Some f"
  by (simp add: feeFits_def parseInt64_def setString_intText)

lemma parseWei_amount:
  assumes "positive a" "fitsWord a"
  shows "\<exists>n. a = Some n \<and> 0 < n \<and> parseWei (amountText a) = Some n"
proof (cases a)
  case (Some n)
  then have n: "0 < n" "n \<le> maxWord" using assms by (simp_all add: positive_def fitsWord_def)
  have "intText 10 n = natText 10 (nat n)" using n(1) by (simp add: intText_def)
  then have "parseWei (intText 10 n) = Some n"
    using n natText_decimal[of "nat n"] setString_natText[of 10 "nat n"] by (simp add: parseWei_def)
  then show ?thesis using Some n(1) by (simp add: amountText_def)
qed (use assms in \<open>simp add: positive_def\<close>)

lemma readHops_accepts: "\<forall>h \<in> set hs. \<forall>i. hopError i h = None \<Longrightarrow> \<exists>r. readHops w i hs ts fs = Inr r"
  by (induction hs arbitrary: i ts fs) (auto split del: if_split)

definition payableHop :: "hopJSON \<Rightarrow> bool" where
  "payableHop h \<longleftrightarrow> hjType h = ''v3-pool'' \<and> IsAddress (tjAddress (hjTokenIn h)) \<and> IsAddress (tjAddress (hjTokenOut h)) \<and>
     (\<exists>f. hjFee h = intText 10 f \<and> feeFits f)"

lemma payableHop_ok: "payableHop h \<Longrightarrow> hopError i (asHop h) = None"
proof -
  assume h: "payableHop h"
  then obtain f where f: "hjFee h = intText 10 f" "feeFits f" by (auto simp: payableHop_def)
  have p: "parseInt64 (hjFee h) = Some f" using f parseInt64_fee by simp
  have "\<not> f < 0" "\<not> f > 2 ^ 24 - 1" using f(2) by (simp_all add: feeFits_def)
  then show ?thesis using h p by (simp add: hopError_def asHop_def payableHop_def)
qed

lemma legShown_payable:
  "legShown l a b h \<Longrightarrow> hjType h = ''v3-pool'' \<Longrightarrow> IsAddress a \<Longrightarrow> IsAddress b \<Longrightarrow> feeFits (fee (legPool l)) \<Longrightarrow> payableHop h"
  by (auto simp: legShown_def payableHop_def split: if_splits)

lemma showsRoute_payable:
  "showsRoute a b r hs \<Longrightarrow> IsAddress a \<Longrightarrow> IsAddress b \<Longrightarrow> \<forall>h \<in> set hs. hjType h = ''v3-pool'' \<Longrightarrow>
   \<forall>l \<in> set r. feeFits (fee (legPool l)) \<Longrightarrow> list_all onV3 r \<and> (\<forall>h \<in> set hs. payableHop h)"
proof (induction a b r hs rule: showsRoute.induct)
  case (2 a b l hs)
  then obtain h where h: "hs = [h]" "legShown l a b h" by auto
  have "payableHop h" using legShown_payable[OF h(2)] 2(2-5) h(1) by simp
  moreover have "onV3 l" using h 2(4) by (auto simp: onV3_def legShown_def)
  ultimately show ?case using h(1) by simp
next
  case (3 a b l l' ls hs)
  then obtain h hs' c d where h: "hs = h # hs'" "legShown l a c h" "IsAddress c" "IsAddress d" "showsRoute d b (l' # ls) hs'" by auto
  have "payableHop h" using legShown_payable[OF h(2) _ 3(3) h(3)] 3(5,6) h(1) by simp
  moreover have "onV3 l" using h(1,2) 3(5) by (auto simp: onV3_def legShown_def)
  moreover have "list_all onV3 (l' # ls) \<and> (\<forall>h \<in> set hs'. payableHop h)" using 3(1)[OF h(5,4) 3(4)] 3(5,6) h(1) by simp
  ultimately show ?case using h(1) by simp
qed simp

lemma IsAddress_trim: "IsAddress a \<Longrightarrow> trimSpace a = a"
proof -
  assume a: "IsAddress a"
  then have l: "length a = 42" "hasPrefix a ''0x''" "list_all isHexChar (drop 2 a)" by (simp_all add: IsAddress_def)
  have "hd a = CHR ''0''" using l(1,2) by (cases a) (auto simp: hasPrefix_def)
  moreover have "last (drop 2 a) = last a" "drop 2 a \<noteq> []" using l(1) by simp_all
  then have "last a \<in> set (drop 2 a)" by (metis last_in_set)
  then have "isHexChar (last a)" using l(3) by (simp add: list_all_iff)
  then have "solid (last a)" by (auto simp: isHexChar_def solid_def asciiSpace_def byteOf_def)
  moreover have "a \<noteq> []" "solid (CHR ''0'')" using l(1) by (auto simp: solid_def asciiSpace_def byteOf_def)
  ultimately show ?thesis using trimSpace_both[of a "[]" "[]"] by simp
qed

text \<open>C18: A quote can be handed back as it was answered: when every hop of its route is a V3 pool whose stored fee fits the
router's uint24, the swap endpoint reads the quote's JSON and builds a call, for the quote's chain, from its swapper, that
sends the quoted amount along exactly when the caller asked to sell the native coin.\<close>

theorem quote_can_be_swapped:
  assumes "soundHash (qKeccak q)" "IsAddress router"
    "serve q ask0 ask1 ask2 ask3 venues s req = (OK answer, venues')" "cqRoute answer \<noteq> []"
    "\<forall>h \<in> set (concat (cqRoute answer)). hjType h = ''v3-pool''" "\<forall>(k, p) \<in> set (PoolsRaw s). feeFits (spFeeTier p)"
  shows "\<exists>call. HandleSwap (qKeccak q) (qChainID q) router wrapped (asSwapQuote answer) = OK call \<and>
    toLower (scTo call) = toLower router \<and> toLower (scFrom call) = toLower (cqSwapper answer) \<and> scChainID call = cqChainID answer \<and>
    scValue call = (if isNativeAddr (qrTokenIn req) then sdAmount (cqInput answer) else ''0'')"
proof -
  obtain n r ps hs where h: "askable q req"
    "classify q ask0 venues (book (storedBook s)) = Some (ps, venues')" "chained (set ps) (wantedIn q req) (wantedOut q req) r"
    "priced r" "r \<noteq> []" "fitRoute r" "cqRoute answer = [hs]"
    "showsRoute (sdToken (cqInput answer)) (sdToken (cqOutput answer)) r hs"
    "toLower (sdToken (cqInput answer)) = toLower (qrTokenIn req)"
    "IsAddress (sdToken (cqInput answer))" "IsAddress (sdToken (cqOutput answer))"
    "sdAmount (cqInput answer) = amountText (routeAmountIn r)" "sdAmount (cqOutput answer) = amountText (routeAmountOut r)"
    "IsAddress (cqSwapper answer)" "cqChainID answer = qChainID q"
    by (rule served_winner[OF assms(1,3,4)])
  have fees: "\<forall>l \<in> set r. feeFits (fee (legPool l))"
  proof
    fix l assume "l \<in> set r"
    from stored_pool[OF h(2) chained_pools[OF h(3) this]]
    obtain k row where "(k, row) \<in> set (PoolsRaw s)" "spFeeTier row = fee (legPool l)" by auto
    then show "feeFits (fee (legPool l))" using assms(6) by auto
  qed
  have v: "list_all onV3 r" "\<forall>h \<in> set hs. payableHop h"
    using showsRoute_payable[OF h(8,10,11) _ fees] assms(5) h(7) by simp_all
  then have fit: "list_all fitLeg r" using h(6) by (simp add: fitRoute_def)
  have ends: "positive (amtIn (hd r))" "fitsWord (amtIn (hd r))" "positive (amtOut (last r))" "fitsWord (amtOut (last r))"
    using h(4,5) fit by (simp_all add: priced_def list_all_iff fitLeg_def)
  obtain ain where ain: "amtIn (hd r) = Some ain" "0 < ain" "parseWei (sdAmount (cqInput answer)) = Some ain"
    using parseWei_amount[OF ends(1,2)] h(12) by (auto simp: routeAmountIn_def)
  obtain aout where aout: "0 < aout" "parseWei (sdAmount (cqOutput answer)) = Some aout"
    using parseWei_amount[OF ends(3,4)] h(13) by (auto simp: routeAmountOut_def)
  have shown: "sdAmount (cqInput answer) = intText 10 ain" using h(12) ain(1) by (simp add: routeAmountIn_def amountText_def)
  obtain ts fs where hops: "readHops (toLower (trimSpace wrapped)) 0 (map asHop hs) [] [] = Inr (ts, fs)"
    using readHops_accepts[of "map asHop hs"] payableHop_ok v(2) by fastforce
  obtain sw where sw: "checksumAddress (qKeccak q) (cqSwapper answer) = Some sw" "toLower sw = toLower (cqSwapper answer)"
    using sound_checksum[OF assms(1) h(14)] by blast
  obtain rt where rt: "checksumAddress (qKeccak q) router = Some rt" "toLower rt = toLower router"
    using sound_checksum[OF assms(1,2)] by blast
  have ne: "hs \<noteq> []" "sdToken (cqInput answer) \<noteq> ''''" using showsRoute_ends[OF h(8,5)] h(10) by (auto simp: IsAddress_def)
  have native: "isNativeAddr (sdToken (cqInput answer)) = isNativeAddr (qrTokenIn req)"
    using h(1,9,10) by (simp add: isNativeAddr_def equalFold_def askable_def IsAddress_trim)
  show ?thesis
    using hops h(7,14,15) ne sw rt ain(2,3) aout shown native
    by (simp add: HandleSwap_def asSwapQuote_def Let_def)
qed

section \<open>Price impact is a percentage\<close>

definition cleanLeg :: "leg \<Rightarrow> bool" where
  "cleanLeg l \<longleftrightarrow> (\<exists>m. marginal l = Fin m) \<and> (\<exists>x. ratio (amtOut l) (amtIn l) = Fin x \<and> 0 < x)"

lemma impactLoop_upward:
  "impactLoop r e m = Some (e', m') \<Longrightarrow> list_all cleanLeg r \<Longrightarrow> upward e \<Longrightarrow> upward m \<Longrightarrow> upward e' \<and> upward m'"
proof (induction r e m rule: impactLoop.induct)
  case (2 l ls e m)
  have l: "\<not> (fle (marginal l) (Fin 0) \<or> \<not> positive (amtIn l) \<or> amtOut l = None)" "impactLoop ls (fmul e (ratio (amtOut l) (amtIn l))) (fmul m (marginal l)) = Some (e', m')"
    using 2(2) by (auto split: if_splits)
  obtain k x where k: "marginal l = Fin k" "ratio (amtOut l) (amtIn l) = Fin x" "0 < x" using 2(3) by (auto simp: cleanLeg_def)
  have "0 < k" using l(1) k(1) by (auto simp: fle_def)
  then have "upward (fmul e (Fin x))" "upward (fmul m (Fin k))" using fmul_upward 2(4,5) k(3) by simp_all
  then have "upward (fmul e (ratio (amtOut l) (amtIn l)))" "upward (fmul m (marginal l))" using k by simp_all
  from 2(1)[OF l(1,2) _ this] 2(3) show ?case by simp
qed simp

definition percentOf :: "f64 \<Rightarrow> f64" where
  "percentOf i = (if fless i (Fin 0) then Fin 0 else if fless (Fin 100) i then Fin 100 else i)"

lemma percentOf_bounds: "\<not> isNaN i \<Longrightarrow> \<exists>v. percentOf i = Fin v \<and> 0 \<le> v \<and> v \<le> 100"
  by (cases i) (auto simp: percentOf_def)

lemma fmul_hundred: "\<not> isNaN x \<Longrightarrow> \<not> isNaN (fmul x (Fin 100))"
  using toF64_number[of "_ * 100"] by (cases x) (auto, metis isNaN.simps)

lemma impact_number: "0 < m \<Longrightarrow> 0 < e \<Longrightarrow> \<not> isNaN (fmul (fsub (Fin 1) (fdiv (Fin e) (Fin m))) (Fin 100))"
proof (rule fmul_hundred)
  assume "0 < m" "0 < e"
  then show "\<not> isNaN (fsub (Fin 1) (fdiv (Fin e) (Fin m)))"
    using toF64_number[of "e / m"] toF64_number[of "1 + - _"] by (auto simp: fsub_def) (metis isNaN.simps)
qed

text \<open>Price impact is a percentage: on a route whose legs have a finite marginal rate and a positive finite rate
of their own, it is a finite number between 0 and 100, whatever overflows on the way.\<close>

theorem price_impact_is_a_percentage:
  assumes "list_all cleanLeg r"
  shows "\<exists>x. priceImpact r = Fin x \<and> 0 \<le> x \<and> x \<le> 100"
proof (cases "impactLoop r (Fin 1) (Fin 1)")
  case (Some p)
  obtain e m where p: "p = (e, m)" by fastforce
  have "upward (Fin 1)" by (simp add: upward_def)
  then have up: "upward e" "upward m" using impactLoop_upward[OF Some[unfolded p] assms] by simp_all
  show ?thesis
  proof (cases "fle m (Fin 0) \<or> fle e (Fin 0) \<or> isInf e \<or> isInf m")
    case False
    then obtain a b where ab: "e = Fin a" "m = Fin b" "0 < a" "0 < b" using up by (auto simp: upward_def fle_def)
    then have "priceImpact r = percentOf (fmul (fsub (Fin 1) (fdiv (Fin a) (Fin b))) (Fin 100))"
      using False Some p by (simp add: priceImpact_def percentOf_def Let_def)
    then show ?thesis using percentOf_bounds[OF impact_number[OF ab(4,3)]] by simp
  qed (use Some p in \<open>simp add: priceImpact_def\<close>)
qed (simp add: priceImpact_def)

section \<open>A quote over one pool\<close>

definition exStored :: store where
  "exStored = fold (\<lambda>(k, p) s. case p of None \<Rightarrow> s | Some row \<Rightarrow> SeedPool k row s) exBook NewStore"

definition exAsked :: "string \<Rightarrow> quoteRequest" where
  "exAsked amount = \<lparr>qrTokenIn = exAddress (CHR ''a''), qrTokenOut = exAddress (CHR ''b''), qrAmount = amount, qrType = '''',
     qrSwapper = exAddress (CHR ''5''), qrSlippage = None, qrTokenInChainID = None, qrTokenOutChainID = None\<rparr>"

definition exHead :: "rpcRequest list \<Rightarrow> string list option" where
  "exHead reqs = Some [exQuoted 0, exQuoted 7, ''0x10'']"

definition exServed :: "string \<Rightarrow> classicQuote httpReply \<times> venueCache" where
  "exServed amount = serve exQuoter exSlot0 (exAsk 1813) (exAsk 1813) exHead (\<lambda>_. None) exStored (exAsked amount)"

lemma exSound: "soundHash (qKeccak exQuoter)"
  by (simp add: soundHash_def exQuoter_def NewQuoter_def)

lemma exAsked_best:
  "best exQuoter exSlot0 (exAsk 1813) (exAsk 1813) (\<lambda>_. None) (storedBook exStored) (wantedIn exQuoter (exAsked amount))
     (wantedOut exQuoter (exAsked amount)) 1000 (tradeTypeOf (exAsked amount)) = exBest 1813"
proof -
  have "wantedIn exQuoter (exAsked [])= exAddress (CHR ''a'')" "wantedOut exQuoter (exAsked []) = exAddress (CHR ''b'')" by code_simp+
  then have "wantedIn exQuoter (exAsked amount) = exAddress (CHR ''a'')" "wantedOut exQuoter (exAsked amount) = exAddress (CHR ''b'')"
    by (simp_all add: wantedIn_def wantedOut_def exAsked_def)
  moreover have "storedBook exStored = exBook" by code_simp
  ultimately show ?thesis by (simp add: exBest_def tradeTypeOf_def exAsked_def)
qed

definition onV3Route :: "route option \<Rightarrow> bool" where
  "onV3Route w = (case w of None \<Rightarrow> False | Some r \<Rightarrow> list_all onV3 r)"

lemma exBest_v3: "onV3Route (fst (exBest 1813))"
  by code_simp

lemma exServed_answer:
  obtains answer v where "exServed ''1000'' = (OK answer, v)" "cqRoute answer \<noteq> []" "\<forall>h \<in> set (concat (cqRoute answer)). hjType h = ''v3-pool''"
proof -
  have ask: "askable exQuoter (exAsked ''1000'')" "\<not> chainMismatch exQuoter (exAsked ''1000'')"
    "wantedIn exQuoter (exAsked ''1000'') \<noteq> wantedOut exQuoter (exAsked ''1000'')" by code_simp+
  obtain r v where r: "exBest 1813 = (Some r, v)" "list_all onV3 r"
    using exBest_v3 by (cases "exBest 1813") (auto simp: onV3Route_def split: option.splits)
  have n: "parseWei (qrAmount (exAsked ''1000'')) = Some 1000" by code_simp
  obtain m sw where m: "parseWei (qrAmount (exAsked ''1000'')) = Some m"
    and some: "\<And>r venues'. best exQuoter exSlot0 (exAsk 1813) (exAsk 1813) (\<lambda>_. None) (storedBook exStored) (wantedIn exQuoter (exAsked ''1000''))
        (wantedOut exQuoter (exAsked ''1000'')) m (tradeTypeOf (exAsked ''1000'')) = (Some r, venues') \<Longrightarrow>
      \<exists>answer. serve exQuoter exSlot0 (exAsk 1813) (exAsk 1813) exHead (\<lambda>_. None) exStored (exAsked ''1000'') = (OK answer, venues') \<and>
        rendersRoute exQuoter (exAsked ''1000'') sw (fst (decorate exQuoter exHead r)) answer"
    by (rule serve_cases[OF exSound ask, of exSlot0 "exAsk 1813" "exAsk 1813" "\<lambda>_. None" exStored exHead]) blast
  let ?r = "fst (decorate exQuoter exHead r)"
  have "m = 1000" using m n by simp
  then obtain answer where a: "exServed ''1000'' = (OK answer, v)" "rendersRoute exQuoter (exAsked ''1000'') sw ?r answer"
    using some[of r v] exAsked_best[of "''1000''"] r(1) by (auto simp: exServed_def)
  then obtain hs where hs: "cqRoute answer = [hs]" "showsRoute (sdToken (cqInput answer)) (sdToken (cqOutput answer)) ?r hs"
    by (auto simp: rendersRoute_def)
  have k: "list_all2 keepsLeg r ?r" by (rule decorate_keeps)
  have "list_all onV3 ?r"
    using k r(2) by (induction rule: list_all2_induct) (auto simp: keepsLeg_def sameLeg_def onV3_def)
  moreover have "?r \<noteq> []"
    using winner_route[OF exAsked_best[of "''1000''", unfolded r(1)] ask(3)] list_all2_lengthD[OF k] by auto
  ultimately have "\<forall>h \<in> set hs. hjType h = ''v3-pool''"
    using showsRoute_ends[OF hs(2)] by (fastforce simp: legShown_def onV3_def list_all_iff)
  then show ?thesis using that[OF a(1)] hs(1) by simp
qed

theorem serve_replies_witness:
  "\<exists>d. fst (exServed ''0'') = BadRequest d"
proof -
  have "\<not> askable exQuoter (exAsked ''0'')" by code_simp
  then show ?thesis
    using serve_replies[OF exSound, of exSlot0 "exAsk 1813" "exAsk 1813" exHead "\<lambda>_. None" exStored "exAsked ''0''"]
    by (simp add: Let_def exServed_def)
qed


theorem quote_can_be_swapped_witness:
  "\<exists>answer v call. exServed ''1000'' = (OK answer, v) \<and>
     HandleSwap (qKeccak exQuoter) (qChainID exQuoter) (exAddress (CHR ''7'')) (exAddress (CHR ''8'')) (asSwapQuote answer) = OK call \<and>
     scValue call = ''0''"
proof -
  obtain answer v where a: "exServed ''1000'' = (OK answer, v)" "cqRoute answer \<noteq> []"
    "\<forall>h \<in> set (concat (cqRoute answer)). hjType h = ''v3-pool''" by (rule exServed_answer)
  have r: "IsAddress (exAddress (CHR ''7''))" by code_simp
  have f: "\<forall>(k, p) \<in> set (PoolsRaw exStored). feeFits (spFeeTier p)" by code_simp
  have n: "\<not> isNativeAddr (qrTokenIn (exAsked ''1000''))" by code_simp
  from quote_can_be_swapped[OF exSound r a(1)[unfolded exServed_def] a(2,3) f, of "exAddress (CHR ''8'')"] n a(1)
  show ?thesis by auto
qed

definition exLeg :: leg where
  "exLeg = (newLeg (hd (book exBook)) (exAddress (CHR ''a'')) (exAddress (CHR ''b'')))
     \<lparr>amtIn := Some 4, amtOut := Some 3, marginal := Fin 1\<rparr>"

theorem price_impact_is_a_percentage_witness:
  "priceImpact [exLeg] = Fin 25 \<and> (\<exists>x. priceImpact [exLeg] = Fin x \<and> 0 \<le> x \<and> x \<le> 100)"
proof -
  have x: "toF64 (3 / 4) = Fin (3 / 4)" "toF64 (1 / 4) = Fin (1 / 4)" "toF64 25 = Fin 25" "toF64 1 = Fin 1"
    using toF64_exact[of 3 "- 2"] toF64_exact[of 1 "- 2"] toF64_int[of 25] toF64_int[of 1] by (simp_all add: pow2_def)
  have q: "quotient_of (3 / 4) = (3, 4)" "floorlog 2 3 = 2" "floorlog 2 4 = 3" by code_simp+
  have l: "floorLog2 (3 / 4) = - 1" by (simp add: floorLog2_def q pow2_def)
  have "roundAt (- 64) (3 / 4) = 3 / 4" using roundAt_exact[of "- 64" "- 2" 3] by (simp add: pow2_def)
  then have p: "roundPrec 64 (3 / 4) = 3 / 4" by (simp add: roundPrec_def l)
  have r: "ratio (Some 3) (Some 4) = Fin (3 / 4)" by (simp add: ratio_def bigQuotient_def bitLen_def q p x)
  then have "list_all cleanLeg [exLeg]" by (simp add: cleanLeg_def exLeg_def) (intro exI[of _ "3 / 4"], simp)
  moreover have "priceImpact [exLeg] = Fin 25"
    by (simp add: priceImpact_def exLeg_def r x fle_def fsub_def positive_def)
  ultimately show ?thesis using price_impact_is_a_percentage[of "[exLeg]"] by blast
qed

end
