(* ===== verification/Daemon.thy ===== *)
theory Daemon
  imports Float64 Value "HOL-Library.Signed_Division"
begin

text \<open>
  The serving side of the daemon: the token bucket of src/cmd/graphd/ratelimit.go, the address a request is
  counted under, and the middleware and routes main.go mounts in front of the engine.

  A time is a reading of the monotonic clock in nanoseconds; a run is the list of requests and sweeps in the
  order the limiter's lock admits them.  \<open>net.SplitHostPort\<close> is modelled as the standard library documents
  it.  What the handlers answer is a parameter; listening, logging and metrics are input and output.

  The locale \<open>meter\<close> is the contract of a token bucket; its lemma bounds what it admits in a window.
\<close>

section \<open>The token bucket\<close>

record bucket =
  bkTokens :: f64
  bkLastSeen :: int

record rateLimiter =
  rlBuckets :: "bucket gomap"
  rlRate :: f64
  rlBurst :: int

definition newRateLimiter :: "f64 \<Rightarrow> int \<Rightarrow> rateLimiter" where
  "newRateLimiter rate burst = \<lparr>rlBuckets = [], rlRate = rate, rlBurst = burst\<rparr>"

text \<open>\<open>Time.Sub\<close> saturates; \<open>Duration.Seconds\<close> adds the whole seconds and the rest as floats.\<close>

definition sinceNs :: "int \<Rightarrow> int \<Rightarrow> int" where
  "sinceNs now seen = max (- (2 ^ 63)) (min (2 ^ 63 - 1) (now - seen))"

definition second :: int where
  "second = 1000000000"

definition seconds :: "int \<Rightarrow> f64" where
  "seconds d = fadd (toF64 (of_int (d sdiv second))) (fdiv (toF64 (of_int (d smod second))) (toF64 (of_int second)))"

definition fmin :: "f64 \<Rightarrow> f64 \<Rightarrow> f64" where
  "fmin x y =
     (if x = FInf True \<or> y = FInf True then FInf True
      else if isNaN x \<or> isNaN y then FNaN
      else if fless x y then x else y)"

definition allow :: "string \<Rightarrow> int \<Rightarrow> rateLimiter \<Rightarrow> bool \<times> rateLimiter" where
  "allow ip now rl =
     (let burst = toF64 (of_int (rlBurst rl)) in
      case getKey (rlBuckets rl) ip of
        None \<Rightarrow>
          (True, rl\<lparr>rlBuckets := putKey ip \<lparr>bkTokens = fsub burst (Fin 1), bkLastSeen = now\<rparr> (rlBuckets rl)\<rparr>)
      | Some b \<Rightarrow>
          (let elapsed = seconds (sinceNs now (bkLastSeen b));
               n = fmin burst (fadd (bkTokens b) (fmul elapsed (rlRate rl)))
           in if fless n (Fin 1)
              then (False, rl\<lparr>rlBuckets := putKey ip \<lparr>bkTokens = n, bkLastSeen = now\<rparr> (rlBuckets rl)\<rparr>)
              else (True, rl\<lparr>rlBuckets := putKey ip \<lparr>bkTokens = fsub n (Fin 1), bkLastSeen = now\<rparr> (rlBuckets rl)\<rparr>)))"

text \<open>One round of \<open>cleanup\<close>.\<close>

definition sweep :: "int \<Rightarrow> rateLimiter \<Rightarrow> rateLimiter" where
  "sweep now rl = rl\<lparr>rlBuckets := filter (\<lambda>(_, b). \<not> bkLastSeen b < now - 180 * second) (rlBuckets rl)\<rparr>"

section \<open>Whose bucket\<close>

text \<open>Header keys are canonical, and a key holds the first of its values.\<close>

record httpRequest =
  rqMethod :: string
  rqPath :: string
  rqHeaders :: "string gomap"
  rqRemoteAddr :: string

definition header :: "httpRequest \<Rightarrow> string \<Rightarrow> string" where
  "header r k = (case getKey (rqHeaders r) k of None \<Rightarrow> '''' | Some v \<Rightarrow> v)"

text \<open>The host of \<open>net.SplitHostPort\<close>, None for an error: \<open>host:port\<close> or \<open>[host]:port\<close>, the host in
  brackets when it holds a colon.\<close>

definition splitHost :: "string \<Rightarrow> string option" where
  "splitHost hp =
     (let colon = CHR '':''; port = takeWhile (\<lambda>c. c \<noteq> colon) (rev hp); host = rev (drop (Suc (length port)) (rev hp)) in
      if colon \<notin> set hp then None
      else if hd hp = CHR ''['' then
        (case indexByte hp (CHR '']'') of
           None \<Rightarrow> None
         | Some e \<Rightarrow>
             if e + 1 = length host \<and> CHR ''['' \<notin> set (drop 1 hp) \<and> CHR '']'' \<notin> set (drop (e + 1) hp)
             then Some (take (e - 1) (drop 1 hp)) else None)
      else if colon \<in> set host \<or> CHR ''['' \<in> set hp \<or> CHR '']'' \<in> set hp then None
      else Some host)"

definition clientIP :: "httpRequest \<Rightarrow> string" where
  "clientIP r =
     (if header r ''X-Forwarded-For'' \<noteq> '''' then takeWhile (\<lambda>c. c \<noteq> CHR '','') (header r ''X-Forwarded-For'')
      else if header r ''X-Real-Ip'' \<noteq> '''' then header r ''X-Real-Ip''
      else case splitHost (rqRemoteAddr r) of None \<Rightarrow> rqRemoteAddr r | Some host \<Rightarrow> host)"

section \<open>Middleware and routes\<close>

datatype 'a served = TooManyRequests | NoContent | Served 'a

definition exempt :: "string \<Rightarrow> bool" where
  "exempt path \<longleftrightarrow> path = ''/health'' \<or> path = ''/ready''"

definition rateLimitMiddleware ::
  "(httpRequest \<Rightarrow> 'a served) \<Rightarrow> httpRequest \<Rightarrow> int \<Rightarrow> rateLimiter \<Rightarrow> 'a served \<times> rateLimiter" where
  "rateLimitMiddleware next r now rl =
     (if exempt (rqPath r) then (next r, rl)
      else case allow (clientIP r) now rl of
             (ok, rl') \<Rightarrow> (if ok then next r else TooManyRequests, rl'))"

text \<open>The headers every answer carries; a preflight request is answered here.\<close>

definition corsHeaders :: "httpRequest \<Rightarrow> string gomap" where
  "corsHeaders r =
     [(''Access-Control-Allow-Origin'', ''*''), (''Access-Control-Allow-Methods'', ''GET, POST, OPTIONS''),
      (''Access-Control-Allow-Headers'',
        let asked = header r ''Access-Control-Request-Headers'' in if asked \<noteq> '''' then asked else ''Content-Type''),
      (''Vary'', ''Origin, Access-Control-Request-Headers''), (''X-Content-Type-Options'', ''nosniff''),
      (''X-Frame-Options'', ''DENY''), (''Cache-Control'', ''no-store'')]"

definition securityMiddleware :: "(httpRequest \<Rightarrow> 'a served) \<Rightarrow> httpRequest \<Rightarrow> 'a served" where
  "securityMiddleware next r = (if rqMethod r = ''OPTIONS'' then NoContent else next r)"

definition mountPrefix :: "string \<Rightarrow> string" where
  "mountPrefix env = (if env = '''' then ''/v1/explorer'' else env)"

definition routeTable :: "bool \<Rightarrow> string \<Rightarrow> (string \<times> string) list" where
  "routeTable identified env =
     (let p = mountPrefix env in
      [(''POST'', p @ ''/graphql''), (''GET'', p @ ''/graphql'')]
        @ (if identified then [(''GET'', p @ ''/swappable_tokens''), (''POST'', p @ ''/quote'')] else [])
        @ [(''POST'', p @ ''/ql''), (''GET'', p @ ''/ql''), (''GET'', p @ ''/health''), (''GET'', p @ ''/ready''),
           (''GET'', p @ ''/metrics''), (''GET'', p @ ''/'')])"

text \<open>How \<open>ServeMux\<close> matches a method and path pattern: GET serves HEAD, a pattern that ends in a slash serves
  the paths below it.\<close>

definition matchesRoute :: "httpRequest \<Rightarrow> string \<times> string \<Rightarrow> bool" where
  "matchesRoute r route \<longleftrightarrow>
     (rqMethod r = fst route \<or> (rqMethod r = ''HEAD'' \<and> fst route = ''GET'')) \<and>
     (rqPath r = snd route \<or> (last (snd route) = CHR ''/'' \<and> hasPrefix (rqPath r) (snd route)))"

definition routed :: "bool \<Rightarrow> string \<Rightarrow> httpRequest \<Rightarrow> bool" where
  "routed identified env r \<longleftrightarrow> list_ex (matchesRoute r) (routeTable identified env)"

text \<open>The handler main.go builds.\<close>

definition deployed :: rateLimiter where
  "deployed = newRateLimiter (Fin 100) 100"

definition handleRequest ::
  "(httpRequest \<Rightarrow> 'a served) \<Rightarrow> httpRequest \<Rightarrow> int \<Rightarrow> rateLimiter \<Rightarrow> 'a served \<times> rateLimiter" where
  "handleRequest mux = rateLimitMiddleware (securityMiddleware mux)"
section \<open>Metered admission\<close>

text \<open>A meter holds a level, never above \<open>cap\<close>, that rises by \<open>rate\<close> per unit of time and falls by one at
  each admission, up to \<open>cost\<close>: the rounding of a step.\<close>

locale meter =
  fixes valid :: "int \<Rightarrow> 's \<Rightarrow> bool" and level :: "int \<Rightarrow> 's \<Rightarrow> rat" and rate :: rat
    and time :: "'e \<Rightarrow> int" and step :: "'e \<Rightarrow> 's \<Rightarrow> bool \<times> 's" and cost :: "'e \<Rightarrow> rat"
  assumes valid_later: "valid t s \<Longrightarrow> t \<le> t' \<Longrightarrow> valid t' s"
    and valid_step: "valid (time e) s \<Longrightarrow> valid (time e) (snd (step e s))"
    and level_nonneg: "valid t s \<Longrightarrow> 0 \<le> level t s"
    and level_later: "valid t s \<Longrightarrow> t \<le> t' \<Longrightarrow> level t' s \<le> level t s + rate * of_int (t' - t)"
    and level_step: "valid (time e) s \<Longrightarrow>
      level (time e) (snd (step e s)) + of_bool (fst (step e s)) \<le> level (time e) s + cost e"
begin

fun admitted :: "'s \<Rightarrow> 'e list \<Rightarrow> nat" where
  "admitted s [] = 0"
| "admitted s (e # es) = of_bool (fst (step e s)) + admitted (snd (step e s)) es"

lemma admitted_bound:
  "valid t s \<Longrightarrow> sorted (t # map time es) \<Longrightarrow> \<forall>e \<in> set es. time e \<le> t' \<Longrightarrow> t \<le> t' \<Longrightarrow>
   of_nat (admitted s es) \<le> level t s + rate * of_int (t' - t) + sum_list (map cost es)"
proof (induction es arbitrary: t s)
  case Nil
  then show ?case using level_nonneg[of t' s] valid_later[of t s t'] level_later[of t s t'] by simp
next
  case (Cons e es)
  have e: "t \<le> time e" "time e \<le> t'" using Cons.prems(2,3) by simp_all
  have v: "valid (time e) s" using valid_later Cons.prems(1) e(1) by blast
  have "of_nat (admitted (snd (step e s)) es) \<le>
      level (time e) (snd (step e s)) + rate * of_int (t' - time e) + sum_list (map cost es)"
    using Cons.IH[OF valid_step[OF v]] Cons.prems(2,3) e(2) by simp
  moreover have "level (time e) s \<le> level t s + rate * of_int (time e - t)" using level_later Cons.prems(1) e(1) by blast
  moreover have "rate * of_int (t' - t) = rate * of_int (time e - t) + rate * of_int (t' - time e)"
    by (simp add: algebra_simps)
  ultimately show ?case using level_step[OF v] by (simp del: of_int_diff)
qed

end

section \<open>A bucket between two looks\<close>

definition reaches :: "rat \<Rightarrow> f64 \<Rightarrow> bool" where
  "reaches y x \<longleftrightarrow> x = FInf False \<or> (\<exists>r. x = Fin r \<and> y \<le> r)"

lemma reaches_le: "reaches y x \<Longrightarrow> z \<le> y \<Longrightarrow> reaches z x"
  by (auto simp: reaches_def)

lemma toF64_half:
  assumes "1 \<le> x"
  shows "reaches (x / 2) (toF64 x)"
proof -
  define e where "e = max (floorLog2 x - 52) (- 1074)"
  have "pow2 (floorLog2 x) \<le> x" using floorLog2_le assms by simp
  moreover have "pow2 e \<le> pow2 (max (floorLog2 x) 0)" using assms by (intro pow2_mono) (simp add: e_def le_max_iff_disj, linarith)
  moreover have "pow2 (max (floorLog2 x) 0) \<le> max (pow2 (floorLog2 x)) 1" by (simp add: max_def pow2_def)
  ultimately have "pow2 e \<le> x" using assms by linarith
  moreover have "roundAt e x \<ge> x - pow2 e / 2" using roundAt_error[of e x] by linarith
  ultimately have r: "x / 2 \<le> roundAt e x" by linarith
  have "toF64 x = (if pow2 1024 \<le> \<bar>roundAt e x\<bar> then FInf (roundAt e x < 0) else Fin (roundAt e x))"
    using assms by (simp add: toF64_def Let_def e_def)
  moreover have "\<not> roundAt e x < 0" using r assms by linarith
  ultimately show ?thesis using r by (simp add: reaches_def)
qed

lemma fmul_reaches: "reaches y x \<Longrightarrow> 1 \<le> y \<Longrightarrow> reaches (y * 50) (fmul x (Fin 100))"
proof -
  assume a: "reaches y x" "1 \<le> y"
  have "reaches (y * 50) (toF64 (r * 100))" if "y \<le> r" for r
    using that a(2) by (intro reaches_le[OF toF64_half]) simp_all
  then show ?thesis using a(1) by (auto simp: reaches_def[of y]) (simp add: reaches_def)
qed

lemma fadd_reaches: "reaches y x \<Longrightarrow> 1 \<le> y \<Longrightarrow> 0 \<le> v \<Longrightarrow> reaches (y / 2) (fadd (Fin v) x)"
proof -
  assume a: "reaches y x" "1 \<le> y" "0 \<le> v"
  have "reaches (y / 2) (toF64 (v + r))" if "y \<le> r" for r
    using that a(2,3) by (intro reaches_le[OF toF64_half]) simp_all
  then show ?thesis using a(1) by (auto simp: reaches_def[of y]) (simp add: reaches_def)
qed

lemma float_consts: "toF64 (of_int second) = Fin 1000000000" "toF64 100 = Fin 100" "toF64 99 = Fin 99" "toF64 0 = Fin 0"
  using toF64_int[of second] toF64_int[of 100] toF64_int[of 99] toF64_int[of 0] by (simp_all add: second_def)

lemma seconds_nonneg:
  assumes "0 \<le> d" "d < 2 ^ 63"
  shows "seconds d = fadd (Fin (of_int (d div second))) (toF64 (of_int (d mod second) / 1000000000))"
proof -
  have "d div second \<le> d" "0 \<le> d div second" "d div second < 2 ^ 53" "d mod second < 2 ^ 53" "0 \<le> d mod second"
    using assms by (simp_all add: second_def)
  then have "toF64 (of_int (d div second)) = Fin (of_int (d div second))" "toF64 (of_int (d mod second)) = Fin (of_int (d mod second))"
    by (intro toF64_int; simp)+
  moreover have "d sdiv second = d div second" "d smod second = d mod second"
    using assms by (simp_all add: signed_divide_int_def signed_modulo_int_def second_def sgn_if minus_div_mult_eq_mod)
  ultimately show ?thesis by (simp add: seconds_def float_consts)
qed

lemma sinceNs_later: "0 \<le> d \<Longrightarrow> sinceNs (t + d) t = min (2 ^ 63 - 1) d"
  by (simp add: sinceNs_def)

lemma seconds_upward: "0 \<le> d \<Longrightarrow> d < 2 ^ 63 \<Longrightarrow> upward (seconds d)"
  unfolding seconds_nonneg
  by (intro fadd_upward toF64_upward) (auto simp: upward_def second_def pos_imp_zdiv_nonneg_iff)

text \<open>What the bucket holds at the next look, before a token is taken.\<close>

definition refill :: "rat \<Rightarrow> int \<Rightarrow> f64" where
  "refill v d = fmin (Fin 100) (fadd (Fin v) (fmul (seconds (min (2 ^ 63 - 1) d)) (Fin 100)))"

lemma fmin_upward: "upward y \<Longrightarrow> fmin (Fin 100) y = Fin (case y of Fin w \<Rightarrow> min 100 w | _ \<Rightarrow> 100)"
  by (auto simp: upward_def fmin_def min_def)

lemma refill_range:
  assumes "0 \<le> v" "0 \<le> d"
  shows "\<exists>w. refill v d = Fin w \<and> 0 \<le> w \<and> w \<le> 100"
proof -
  have "upward (seconds (min (2 ^ 63 - 1) d))" using assms(2) by (intro seconds_upward) simp_all
  then have u: "upward (fadd (Fin v) (fmul (seconds (min (2 ^ 63 - 1) d)) (Fin 100)))"
    using assms(1) by (intro fadd_upward fmul_upward) (simp_all add: upward_def)
  then show ?thesis unfolding refill_def fmin_upward[OF u] by (auto simp: upward_def)
qed

lemma refill_soon:
  assumes "0 \<le> v" "v \<le> 100" "0 \<le> d" "d < second"
  shows "\<exists>w. refill v d = Fin w \<and> 0 \<le> w \<and> w \<le> 100 \<and> w \<le> v + 100 * (of_int d / 1000000000) + 1 / 2 ^ 24"
proof -
  define x :: rat where "x = of_int d / 1000000000"
  have "(of_int d :: rat) < of_int second" using assms(4) by (simp only: of_int_less_iff)
  then have x: "0 \<le> x" "x \<le> 1" using assms(3) by (simp_all add: x_def second_def)
  have m: "min (2 ^ 63 - 1) d = d" "d div second = 0" "d mod second = d" "d < 2 ^ 63"
    using assms(3,4) by (simp_all add: second_def)
  have near: "\<bar>u - y\<bar> \<le> 1 / 2 ^ 32 \<Longrightarrow> u \<le> y + 1 / 2 ^ 32" for u y :: rat
    using abs_ge_self[of "u - y"] by linarith
  obtain a where a: "toF64 x = Fin a" "0 \<le> a" "\<bar>a - x\<bar> \<le> 1 / 2 ^ 32" by (rule toF64_small[of x]) (use x in simp_all)
  obtain b where b: "toF64 a = Fin b" "0 \<le> b" "\<bar>b - a\<bar> \<le> 1 / 2 ^ 32"
    by (rule toF64_small[of a]) (use near[OF a(3)] a(2) x in simp_all)
  obtain c where c: "toF64 (b * 100) = Fin c" "0 \<le> c" "\<bar>c - b * 100\<bar> \<le> 1 / 2 ^ 32"
    by (rule toF64_small[of "b * 100"]) (use near[OF a(3)] near[OF b(3)] b(2) x in simp_all)
  obtain w where w: "toF64 (v + c) = Fin w" "0 \<le> w" "\<bar>w - (v + c)\<bar> \<le> 1 / 2 ^ 32"
    by (rule toF64_small[of "v + c"]) (use near[OF a(3)] near[OF b(3)] near[OF c(3)] c(2) x assms in simp_all)
  have "seconds d = Fin b"
    unfolding seconds_nonneg[OF assms(3) m(4)] m(2,3) using a(1) b(1) by (simp flip: x_def)
  then have "refill v d = fmin (Fin 100) (Fin w)" unfolding refill_def m(1) by (simp add: c(1) w(1))
  also have "\<dots> = Fin (min 100 w)" by (simp add: fmin_def min_def)
  finally have r: "refill v d = Fin (min 100 w)" .
  have "w \<le> v + 100 * x + 203 / 2 ^ 32" using near[OF a(3)] near[OF b(3)] near[OF c(3)] near[OF w(3)] by simp
  also have "\<dots> \<le> v + 100 * x + 1 / 2 ^ 24" by simp
  finally show ?thesis using r w(2) by (auto simp: x_def)
qed

lemma refill_bound:
  assumes "0 \<le> v" "v \<le> 100" "0 \<le> d"
  shows "\<exists>w. refill v d = Fin w \<and> 0 \<le> w \<and> w \<le> 100 \<and> w \<le> v + 100 * (of_int d / 1000000000) + 1 / 2 ^ 24"
proof (cases "d < second")
  case False
  then have "(of_int second :: rat) \<le> of_int d" by (simp only: of_int_le_iff)
  then have "(100 :: rat) \<le> v + 100 * (of_int d / 1000000000) + 1 / 2 ^ 24" using assms(1) by (simp add: second_def)
  then show ?thesis using refill_range[OF assms(1,3)] by fastforce
qed (use refill_soon assms in blast)

text \<open>A bucket left alone for as long as a sweep waits is full again.\<close>

lemma refill_full:
  assumes "0 \<le> v" "v \<le> 100" "180 * second < d"
  shows "refill v d = Fin 100"
proof -
  define k where "k = min (2 ^ 63 - 1) d"
  have k: "0 \<le> k" "k < 2 ^ 63" "180 * second \<le> k" using assms(3) by (simp_all add: k_def second_def)
  define n where "n = k div second"
  have "180 \<le> n" using k(3) by (simp add: n_def second_def)
  then have n: "(180 :: rat) \<le> of_int n" by (metis of_int_le_iff of_int_numeral)
  have "upward (toF64 (of_int (k mod second) / 1000000000))" by (intro toF64_upward) (simp add: second_def)
  then have "reaches 90 (seconds k)"
    unfolding seconds_nonneg[OF k(1,2)] n_def[symmetric]
    using n toF64_half[of "of_int n + finVal (toF64 (of_int (k mod second) / 1000000000))"]
    by (auto simp: upward_def reaches_def)
  then have "reaches (90 * 50) (fmul (seconds k) (Fin 100))" by (rule fmul_reaches) simp
  then have "reaches (90 * 50 / 2) (fadd (Fin v) (fmul (seconds k) (Fin 100)))"
    by (rule fadd_reaches) (use assms(1) in simp_all)
  then show ?thesis unfolding refill_def k_def[symmetric] by (auto simp: fmin_def reaches_def)
qed

section \<open>The deployed limiter\<close>

text \<open>What the lock of the limiter admits: a request of an address, or a round of \<open>cleanup\<close>.\<close>

datatype limiterEvent = Ask string int | Sweep int

fun eventTime :: "limiterEvent \<Rightarrow> int" where
  "eventTime (Ask ip now) = now"
| "eventTime (Sweep now) = now"

fun limiterStep :: "string \<Rightarrow> limiterEvent \<Rightarrow> rateLimiter \<Rightarrow> bool \<times> rateLimiter" where
  "limiterStep ip (Ask ip' now) rl = (case allow ip' now rl of (ok, rl') \<Rightarrow> (ok \<and> ip' = ip, rl'))"
| "limiterStep ip (Sweep now) rl = (False, sweep now rl)"

definition goodBucket :: "int \<Rightarrow> bucket \<Rightarrow> bool" where
  "goodBucket t b \<longleftrightarrow> (\<exists>v. bkTokens b = Fin v \<and> 0 \<le> v \<and> v \<le> 100) \<and> bkLastSeen b \<le> t"

definition goodLimiter :: "int \<Rightarrow> rateLimiter \<Rightarrow> bool" where
  "goodLimiter t rl \<longleftrightarrow> rlRate rl = Fin 100 \<and> rlBurst rl = 100 \<and> distinct (map fst (rlBuckets rl)) \<and>
     (\<forall>ip b. getKey (rlBuckets rl) ip = Some b \<longrightarrow> goodBucket t b)"

lemma goodLimiter_later: "goodLimiter t rl \<Longrightarrow> t \<le> t' \<Longrightarrow> goodLimiter t' rl"
  by (fastforce simp: goodLimiter_def goodBucket_def)

lemma goodLimiter_put:
  "goodLimiter t rl \<Longrightarrow> goodBucket t b \<Longrightarrow> goodLimiter t (rl\<lparr>rlBuckets := putKey ip b (rlBuckets rl)\<rparr>)"
  by (auto simp: goodLimiter_def)

lemma goodLimiter_deployed: "goodLimiter t deployed"
  by (simp add: goodLimiter_def deployed_def newRateLimiter_def getKey_def)

lemma map_of_kept:
  "distinct (map fst m) \<Longrightarrow>
   map_of (filter (\<lambda>(_, b). \<not> P b) m) k = (case map_of m k of None \<Rightarrow> None | Some b \<Rightarrow> if P b then None else Some b)"
proof (induction m)
  case (Cons a m)
  obtain k' b where a: "a = (k', b)" by fastforce
  have "map_of m k' = None" using Cons.prems a by (simp add: map_of_eq_None_iff)
  then show ?case using Cons a by (cases "k = k'") simp_all
qed simp

lemma getKey_sweep:
  assumes "distinct (map fst (rlBuckets rl))"
  shows "getKey (rlBuckets (sweep now rl)) ip =
    (case getKey (rlBuckets rl) ip of None \<Rightarrow> None
     | Some b \<Rightarrow> if bkLastSeen b < now - 180 * second then None else Some b)"
  using map_of_kept[OF assms, of "\<lambda>b. bkLastSeen b < now - 180 * second" ip] by (simp add: sweep_def getKey_def)

lemma goodLimiter_sweep: "goodLimiter t rl \<Longrightarrow> goodLimiter t (sweep now rl)"
proof -
  assume g: "goodLimiter t rl"
  then have "distinct (map fst (rlBuckets (sweep now rl)))" by (simp add: goodLimiter_def sweep_def distinct_map_filter)
  then show ?thesis using g getKey_sweep[of rl now] by (auto simp: goodLimiter_def sweep_def[of now rl] split: option.splits if_splits)
qed

lemma one_token: "1 \<le> w \<Longrightarrow> w \<le> 100 \<Longrightarrow> \<exists>u. fsub (Fin w) (Fin 1) = Fin u \<and> 0 \<le> u \<and> u \<le> 100 \<and> u \<le> w - 1 + 1 / 2 ^ 32"
proof -
  assume w: "1 \<le> w" "w \<le> 100"
  obtain u where u: "toF64 (w - 1) = Fin u" "0 \<le> u" "\<bar>u - (w - 1)\<bar> \<le> 1 / 2 ^ 32" by (rule toF64_small[of "w - 1"]) (use w in simp_all)
  then have "u \<le> w - 1 + 1 / 2 ^ 32" using abs_ge_self[of "u - (w - 1)"] by linarith
  then show ?thesis using u(1,2) w by (simp add: fsub_def)
qed

lemma allow_new:
  assumes "goodLimiter now rl" "getKey (rlBuckets rl) ip = None"
  shows "allow ip now rl = (True, rl\<lparr>rlBuckets := putKey ip \<lparr>bkTokens = Fin 99, bkLastSeen = now\<rparr> (rlBuckets rl)\<rparr>)"
  using assms by (simp add: allow_def goodLimiter_def fsub_def float_consts)

lemma allow_known:
  assumes "goodLimiter now rl" "getKey (rlBuckets rl) ip = Some b" "bkTokens b = Fin v"
  shows "allow ip now rl =
    (case refill v (now - bkLastSeen b) of n \<Rightarrow>
       if fless n (Fin 1) then (False, rl\<lparr>rlBuckets := putKey ip \<lparr>bkTokens = n, bkLastSeen = now\<rparr> (rlBuckets rl)\<rparr>)
       else (True, rl\<lparr>rlBuckets := putKey ip \<lparr>bkTokens = fsub n (Fin 1), bkLastSeen = now\<rparr> (rlBuckets rl)\<rparr>))"
proof -
  have "bkLastSeen b \<le> now" using assms(1,2) by (auto simp: goodLimiter_def goodBucket_def)
  then have "sinceNs now (bkLastSeen b) = min (2 ^ 63 - 1) (now - bkLastSeen b)" by (simp add: sinceNs_def)
  then show ?thesis using assms by (simp add: allow_def refill_def goodLimiter_def float_consts Let_def)
qed

lemma allow_cases:
  assumes "goodLimiter now rl"
  obtains (first) "getKey (rlBuckets rl) ip = None"
      "allow ip now rl = (True, rl\<lparr>rlBuckets := putKey ip \<lparr>bkTokens = Fin 99, bkLastSeen = now\<rparr> (rlBuckets rl)\<rparr>)"
    | (known) b v u ok where "getKey (rlBuckets rl) ip = Some b" "bkTokens b = Fin v" "bkLastSeen b \<le> now" "0 \<le> v" "v \<le> 100"
      "allow ip now rl = (ok, rl\<lparr>rlBuckets := putKey ip \<lparr>bkTokens = Fin u, bkLastSeen = now\<rparr> (rlBuckets rl)\<rparr>)"
      "0 \<le> u" "u \<le> 100" "u + of_bool ok \<le> 100 + 1 / 2 ^ 23"
      "u + of_bool ok \<le> v + 100 * (of_int (now - bkLastSeen b) / 1000000000) + 1 / 2 ^ 23"
proof (cases "getKey (rlBuckets rl) ip")
  case None
  then show ?thesis using first allow_new[OF assms] by blast
next
  case (Some b)
  then obtain v where b: "bkTokens b = Fin v" "0 \<le> v" "v \<le> 100" "bkLastSeen b \<le> now"
    using assms by (auto simp: goodLimiter_def goodBucket_def)
  then obtain w where w: "refill v (now - bkLastSeen b) = Fin w" "0 \<le> w" "w \<le> 100"
      "w \<le> v + 100 * (of_int (now - bkLastSeen b) / 1000000000) + 1 / 2 ^ 24"
    using refill_bound[of v "now - bkLastSeen b"] by auto
  note a = allow_known[OF assms Some b(1)]
  show ?thesis
  proof (cases "w < 1")
    case True
    then show ?thesis using known[OF Some b(1,4,2,3), of False w] a w by simp
  next
    case False
    obtain u where "fsub (Fin w) (Fin 1) = Fin u" "0 \<le> u" "u \<le> 100" "u \<le> w - 1 + 1 / 2 ^ 32" using one_token[of w] False w(3) by auto
    then show ?thesis using known[OF Some b(1,4,2,3), of True u] a w False by simp
  qed
qed

lemma goodLimiter_allow: "goodLimiter now rl \<Longrightarrow> goodLimiter now (snd (allow ip now rl))"
  by (rule allow_cases[of now rl ip]) (auto intro!: goodLimiter_put simp: goodBucket_def)

definition level :: "string \<Rightarrow> int \<Rightarrow> rateLimiter \<Rightarrow> rat" where
  "level ip t rl =
     (case getKey (rlBuckets rl) ip of None \<Rightarrow> 100
      | Some b \<Rightarrow> min 100 (finVal (bkTokens b) + 100 * (of_int (t - bkLastSeen b) / 1000000000)))"

fun askCost :: "string \<Rightarrow> limiterEvent \<Rightarrow> rat" where
  "askCost ip (Ask ip' now) = (if ip' = ip then 1 / 2 ^ 23 else 0)"
| "askCost ip (Sweep now) = 0"

lemma level_nonneg: "goodLimiter t rl \<Longrightarrow> 0 \<le> level ip t rl"
  by (force simp: level_def goodLimiter_def goodBucket_def split: option.splits)

lemma level_cap: "level ip t rl \<le> 100"
  by (simp add: level_def split: option.splits)

lemma level_later: "t \<le> t' \<Longrightarrow> level ip t' rl \<le> level ip t rl + 100 / 1000000000 * of_int (t' - t)"
  by (simp add: level_def min_def add_divide_distrib diff_divide_distrib algebra_simps split: option.splits)

lemma level_put [simp]:
  "level ip t (rl\<lparr>rlBuckets := putKey ip' b (rlBuckets rl)\<rparr>) =
     (if ip' = ip then min 100 (finVal (bkTokens b) + 100 * (of_int (t - bkLastSeen b) / 1000000000)) else level ip t rl)"
  by (simp add: level_def)

lemma level_ask:
  assumes "goodLimiter now rl"
  shows "level ip now (snd (allow ip' now rl)) + of_bool (fst (allow ip' now rl) \<and> ip' = ip) \<le> level ip now rl + askCost ip (Ask ip' now)"
proof (cases rule: allow_cases[OF assms, of ip', case_names first known])
  case first
  then show ?thesis by (cases "ip' = ip") (simp_all add: level_def)
next
  case (known b v u ok)
  have "level ip now rl = min 100 (v + 100 * (of_int (now - bkLastSeen b) / 1000000000))" if "ip' = ip"
    using known(1,2) that by (simp add: level_def)
  then show ?thesis using known(6-10) by (simp add: min_def)
qed

text \<open>A bucket idle for three minutes is worth a full one, so a sweep changes no level.\<close>

lemma level_sweep:
  assumes "goodLimiter now rl"
  shows "level ip now (sweep now rl) = level ip now rl"
proof -
  have "100 \<le> finVal (bkTokens b) + 100 * (of_int (now - bkLastSeen b) / 1000000000)"
    if "getKey (rlBuckets rl) ip = Some b" "bkLastSeen b < now - 180 * second" for b
  proof -
    have "(180 * of_int second :: rat) \<le> of_int (now - bkLastSeen b)"
      using that(2) by (metis add.commute diff_le_eq le_diff_eq less_imp_le of_int_le_iff of_int_mult of_int_numeral)
    moreover have "goodBucket now b" using assms that(1) by (simp add: goodLimiter_def)
    then have "0 \<le> finVal (bkTokens b)" by (auto simp: goodBucket_def)
    moreover define x :: rat where "x = of_int (now - bkLastSeen b)"
    ultimately have "180000000000 \<le> x" "0 \<le> finVal (bkTokens b)" by (simp_all add: second_def)
    then show ?thesis unfolding x_def[symmetric] by linarith
  qed
  then show ?thesis
    using getKey_sweep[of rl now ip] assms by (auto simp: level_def goodLimiter_def min_def split: option.splits)
qed

interpretation bucketMeter: meter goodLimiter "level ip" "100 / 1000000000" eventTime "limiterStep ip" "askCost ip"
  for ip :: string
proof
  fix e rl assume g: "goodLimiter (eventTime e) rl"
  show "goodLimiter (eventTime e) (snd (limiterStep ip e rl))"
    using g goodLimiter_allow goodLimiter_sweep by (cases e) (auto split: prod.splits, metis snd_conv)
  show "level ip (eventTime e) (snd (limiterStep ip e rl)) + of_bool (fst (limiterStep ip e rl)) \<le> level ip (eventTime e) rl + askCost ip e"
  proof (cases e)
    case (Ask ip' now)
    then show ?thesis using level_ask[of now rl ip ip'] g by (cases "allow ip' now rl") simp
  next
    case (Sweep now)
    then show ?thesis using level_sweep g by simp
  qed
next
  show "goodLimiter t' rl" if "goodLimiter t rl" "t \<le> t'" for t t' rl using that by (rule goodLimiter_later)
  show "0 \<le> level ip t rl" if "goodLimiter t rl" for t rl using that by (rule level_nonneg)
  show "level ip t' rl \<le> level ip t rl + 100 / 1000000000 * of_int (t' - t)" if "goodLimiter t rl" "t \<le> t'" for t t' rl
    using that(2) by (rule level_later)
qed

section \<open>What the limiter admits\<close>

definition limiterNext :: "limiterEvent \<Rightarrow> rateLimiter \<Rightarrow> rateLimiter" where
  "limiterNext e rl = (case e of Ask ip now \<Rightarrow> snd (allow ip now rl) | Sweep now \<Rightarrow> sweep now rl)"

lemma limiterStep_next [simp]: "snd (limiterStep ip e rl) = limiterNext e rl"
  by (cases e) (simp_all add: limiterNext_def split: prod.splits)

lemma goodLimiter_next: "goodLimiter (eventTime e) rl \<Longrightarrow> goodLimiter (eventTime e) (limiterNext e rl)"
  using bucketMeter.valid_step[of e rl] by simp

lemma goodLimiter_run:
  "goodLimiter t rl \<Longrightarrow> sorted (t # map eventTime es) \<Longrightarrow> \<forall>e \<in> set es. eventTime e \<le> t' \<Longrightarrow> t \<le> t' \<Longrightarrow>
   goodLimiter t' (fold limiterNext es rl)"
proof (induction es arbitrary: t rl)
  case (Cons e es)
  then show ?case using goodLimiter_next[OF goodLimiter_later[of t rl "eventTime e"]] by simp
qed (auto intro: goodLimiter_later)

fun admissions :: "string \<Rightarrow> rateLimiter \<Rightarrow> limiterEvent list \<Rightarrow> nat" where
  "admissions ip rl [] = 0"
| "admissions ip rl (e # es) = of_bool (fst (limiterStep ip e rl)) + admissions ip (limiterNext e rl) es"

lemma admissions_metered: "bucketMeter.admitted ip rl es = admissions ip rl es"
  by (induction es arbitrary: rl) simp_all

definition asksOf :: "string \<Rightarrow> limiterEvent list \<Rightarrow> nat" where
  "asksOf ip es = length (filter (\<lambda>e. case e of Ask ip' _ \<Rightarrow> ip' = ip | Sweep _ \<Rightarrow> False) es)"

lemma askCost_sum: "sum_list (map (askCost ip) es) = of_nat (asksOf ip es) / 2 ^ 23"
  by (induction es) (auto simp: asksOf_def add_divide_distrib split: limiterEvent.splits)

text \<open>C10: In any stretch of time the limiter admits at most one burst of an address's requests plus a hundred per second, one
more for rounding: whatever other addresses ask, and however often the buckets are swept, over up to 2^23 requests of it.\<close>

theorem admissions_are_bounded:
  assumes "sorted (map eventTime (past @ es))" "\<forall>e \<in> set past. eventTime e \<le> t" "\<forall>e \<in> set es. t \<le> eventTime e \<and> eventTime e \<le> t'"
    "t \<le> t'" "asksOf ip es \<le> 2 ^ 23"
  shows "rat_of_nat (admissions ip (fold limiterNext past deployed) es) \<le> 101 + of_int (t' - t) / 10000000"
proof -
  define t0 where "t0 = Min (set (t # map eventTime past))"
  have "sorted (t0 # map eventTime past)" "t0 \<le> t" using assms(1) by (simp_all add: t0_def sorted_append)
  then have g: "goodLimiter t (fold limiterNext past deployed)"
    using goodLimiter_run[OF goodLimiter_deployed, of t0] assms(2) by blast
  have "sorted (t # map eventTime es)" using assms(1,3) by (simp add: sorted_append)
  then have "rat_of_nat (admissions ip (fold limiterNext past deployed) es) \<le>
      level ip t (fold limiterNext past deployed) + 100 / 1000000000 * of_int (t' - t) + of_nat (asksOf ip es) / 2 ^ 23"
    using bucketMeter.admitted_bound[OF g, of es t' ip] assms(3,4) by (simp add: admissions_metered askCost_sum)
  moreover have "rat_of_nat (asksOf ip es) / 2 ^ 23 \<le> 1" using assms(5) by (simp add: divide_le_eq)
  ultimately show ?thesis using level_cap[of ip t "fold limiterNext past deployed"] by simp
qed

section \<open>Sweeps\<close>

fun answers :: "rateLimiter \<Rightarrow> limiterEvent list \<Rightarrow> bool list" where
  "answers rl [] = []"
| "answers rl (Ask ip now # es) = fst (allow ip now rl) # answers (snd (allow ip now rl)) es"
| "answers rl (Sweep now # es) = answers (sweep now rl) es"

fun isAsk :: "limiterEvent \<Rightarrow> bool" where
  "isAsk (Ask ip now) = True"
| "isAsk (Sweep now) = False"

text \<open>The limiter that sweeps against the one that does not: a bucket the first dropped has been idle for
  three minutes in the second.\<close>

definition swept :: "int \<Rightarrow> rateLimiter \<Rightarrow> rateLimiter \<Rightarrow> bool" where
  "swept t rl rl' \<longleftrightarrow> goodLimiter t rl \<and> goodLimiter t rl' \<and>
     (\<forall>ip. getKey (rlBuckets rl) ip = getKey (rlBuckets rl') ip \<or>
        (getKey (rlBuckets rl) ip = None \<and>
         (\<exists>b. getKey (rlBuckets rl') ip = Some b \<and> bkLastSeen b < t - 180 * second)))"

lemma swept_later: "swept t rl rl' \<Longrightarrow> t \<le> t' \<Longrightarrow> swept t' rl rl'"
proof -
  assume w: "swept t rl rl'" "t \<le> t'"
  have "x < t' - 180 * second" if "x < t - 180 * second" for x using that w(2) by linarith
  moreover have "goodLimiter t' rl" "goodLimiter t' rl'" using w goodLimiter_later by (auto simp: swept_def)
  ultimately show ?thesis using w(1) unfolding swept_def by meson
qed

lemma swept_sweep: "swept now rl rl' \<Longrightarrow> swept now (sweep now rl) rl'"
proof -
  assume w: "swept now rl rl'"
  then have "distinct (map fst (rlBuckets rl))" by (simp add: swept_def goodLimiter_def)
  note k = getKey_sweep[OF this]
  have "getKey (rlBuckets (sweep now rl)) ip = getKey (rlBuckets rl') ip \<or>
      (getKey (rlBuckets (sweep now rl)) ip = None \<and> (\<exists>b. getKey (rlBuckets rl') ip = Some b \<and> bkLastSeen b < now - 180 * second))" for ip
  proof -
    have "getKey (rlBuckets rl) ip = getKey (rlBuckets rl') ip \<or>
        (getKey (rlBuckets rl) ip = None \<and> (\<exists>b. getKey (rlBuckets rl') ip = Some b \<and> bkLastSeen b < now - 180 * second))"
      using w by (simp add: swept_def)
    then show ?thesis using k[of now ip] by (auto split: option.splits if_splits)
  qed
  then show ?thesis using w goodLimiter_sweep by (simp add: swept_def)
qed

lemma allow_same_bucket:
  assumes "goodLimiter now rl" "goodLimiter now rl'" "getKey (rlBuckets rl) ip = getKey (rlBuckets rl') ip"
  shows "\<exists>b. allow ip now rl = (fst (allow ip now rl'), rl\<lparr>rlBuckets := putKey ip b (rlBuckets rl)\<rparr>) \<and>
    snd (allow ip now rl') = rl'\<lparr>rlBuckets := putKey ip b (rlBuckets rl')\<rparr>"
  using assms by (auto simp: allow_def goodLimiter_def Let_def split: option.splits)

lemma allow_idle_bucket:
  assumes "goodLimiter now rl" "goodLimiter now rl'" "getKey (rlBuckets rl) ip = None"
    "getKey (rlBuckets rl') ip = Some b" "bkLastSeen b < now - 180 * second"
  shows "\<exists>b. allow ip now rl = (fst (allow ip now rl'), rl\<lparr>rlBuckets := putKey ip b (rlBuckets rl)\<rparr>) \<and>
    snd (allow ip now rl') = rl'\<lparr>rlBuckets := putKey ip b (rlBuckets rl')\<rparr>"
proof -
  have "goodBucket now b" using assms(2,4) by (simp add: goodLimiter_def)
  then obtain v where v: "bkTokens b = Fin v" "0 \<le> v" "v \<le> 100" by (auto simp: goodBucket_def)
  have "refill v (now - bkLastSeen b) = Fin 100" using refill_full[OF v(2,3)] assms(5) by simp
  then have "allow ip now rl' = (True, rl'\<lparr>rlBuckets := putKey ip \<lparr>bkTokens = Fin 99, bkLastSeen = now\<rparr> (rlBuckets rl')\<rparr>)"
    using allow_known[OF assms(2,4) v(1)] by (simp add: fsub_def float_consts)
  then show ?thesis using allow_new[OF assms(1,3)] by (intro exI[of _ "\<lparr>bkTokens = Fin 99, bkLastSeen = now\<rparr>"]) simp
qed

lemma swept_ask:
  assumes "swept now rl rl'"
  shows "fst (allow ip now rl) = fst (allow ip now rl') \<and> swept now (snd (allow ip now rl)) (snd (allow ip now rl'))"
proof -
  obtain b where b: "allow ip now rl = (fst (allow ip now rl'), rl\<lparr>rlBuckets := putKey ip b (rlBuckets rl)\<rparr>)"
    "snd (allow ip now rl') = rl'\<lparr>rlBuckets := putKey ip b (rlBuckets rl')\<rparr>"
    using assms allow_same_bucket[of now rl rl' ip] allow_idle_bucket[of now rl rl' ip] unfolding swept_def by metis
  have "goodLimiter now (snd (allow ip now rl))" "goodLimiter now (snd (allow ip now rl'))"
    using assms goodLimiter_allow by (simp_all add: swept_def)
  then show ?thesis using assms b by (auto simp: swept_def)
qed

lemma swept_answers:
  "swept t rl rl' \<Longrightarrow> sorted (t # map eventTime es) \<Longrightarrow> answers rl es = answers rl' (filter isAsk es)"
proof (induction es arbitrary: t rl rl')
  case (Cons e es)
  have s: "swept (eventTime e) rl rl'" "sorted (eventTime e # map eventTime es)"
    using swept_later Cons.prems by auto
  show ?case
  proof (cases e)
    case (Ask ip now)
    then show ?thesis using swept_ask[of now rl rl' ip] s Cons.IH[of now] by simp
  next
    case (Sweep now)
    then show ?thesis using swept_sweep[of now rl rl'] s Cons.IH[of now] by simp
  qed
qed simp

text \<open>C27: Sweeping cannot be noticed: forgetting the buckets that were idle for three minutes gives every request of every
run the answer it would have had from buckets that are kept for ever.\<close>

theorem sweeps_are_invisible:
  assumes "sorted (map eventTime es)"
  shows "answers deployed es = answers deployed (filter isAsk es)"
proof -
  define t where "t = Min (set (0 # map eventTime es))"
  have "sorted (t # map eventTime es)" using assms by (simp add: t_def)
  moreover have "swept t deployed deployed" using goodLimiter_deployed by (simp add: swept_def)
  ultimately show ?thesis using swept_answers by blast
qed

section \<open>Probes\<close>

lemma slashes_of_exempt: "exempt p \<Longrightarrow> length (filter (\<lambda>c. c = CHR ''/'') p) = 1"
  by (auto simp: exempt_def)

lemma hasPrefix_split: "hasPrefix s p \<Longrightarrow> \<exists>r. s = p @ r"
  by (metis append_take_drop_id hasPrefix_def)

text \<open>C36: The daemon's own probes are metered: the limiter exempts the paths /health and /ready, but every route is mounted
below a prefix, so no path that is served is exempt, and a probe of an address whose bucket is empty is answered 429.\<close>

theorem probes_are_metered:
  assumes "routed identified env r" "env = '''' \<or> hasPrefix env ''/''"
  shows "handleRequest mux r now rl =
    (if fst (allow (clientIP r) now rl) then securityMiddleware mux r else TooManyRequests, snd (allow (clientIP r) now rl))"
proof -
  define p where "p = mountPrefix env"
  obtain q where q: "p = ''/'' @ q" using assms(2) hasPrefix_split[of env "''/''"] by (auto simp: p_def mountPrefix_def)
  obtain m route where "(m, route) \<in> set (routeTable identified env)" "matchesRoute r (m, route)"
    using assms(1) by (auto simp: routed_def list_ex_iff)
  then obtain rest where "rqPath r = p @ ''/'' @ rest"
    using hasPrefix_split[of "rqPath r" "p @ ''/''"]
    by (auto simp: routeTable_def Let_def matchesRoute_def simp flip: p_def split: if_splits)
  then have "length (filter (\<lambda>c. c = CHR ''/'') (rqPath r)) \<noteq> 1" using q by simp
  then have "\<not> exempt (rqPath r)" using slashes_of_exempt by blast
  then show ?thesis by (simp add: handleRequest_def rateLimitMiddleware_def split: prod.splits)
qed

section \<open>Concrete runs\<close>

theorem admissions_are_bounded_witness:
  "rat_of_nat (admissions ''a'' (fold limiterNext [Ask ''b'' 3] deployed) [Ask ''a'' 5, Sweep 6, Ask ''b'' 6, Ask ''a'' 7]) \<le> 101 + of_int (7 - 5) / 10000000"
  by (rule admissions_are_bounded) (simp_all add: asksOf_def)

theorem sweeps_are_invisible_witness:
  "answers deployed [Ask ''a'' 0, Sweep 200000000000, Ask ''a'' 200000000000] = answers deployed [Ask ''a'' 0, Ask ''a'' 200000000000]"
  using sweeps_are_invisible[of "[Ask ''a'' 0, Sweep 200000000000, Ask ''a'' 200000000000]"] by simp

definition exProbe :: httpRequest where
  "exProbe = \<lparr>rqMethod = ''GET'', rqPath = ''/v1/explorer/health'', rqHeaders = [], rqRemoteAddr = ''10.0.0.1:5000''\<rparr>"

definition exDrained :: rateLimiter where
  "exDrained = deployed\<lparr>rlBuckets := [(''10.0.0.1'', \<lparr>bkTokens = Fin 0, bkLastSeen = 0\<rparr>)]\<rparr>"

theorem probes_are_metered_witness:
  "fst (handleRequest (\<lambda>_. Served ()) exProbe 0 exDrained) = TooManyRequests"
proof -
  have r: "routed True '''' exProbe" "clientIP exProbe = ''10.0.0.1''" by code_simp+
  have g: "goodLimiter 0 exDrained"
    by (simp add: goodLimiter_def goodBucket_def exDrained_def deployed_def newRateLimiter_def getKey_def)
  have b: "getKey (rlBuckets exDrained) ''10.0.0.1'' = Some \<lparr>bkTokens = Fin 0, bkLastSeen = 0\<rparr>"
    by (simp add: exDrained_def getKey_def)
  obtain w where "refill 0 0 = Fin w" "w < 1" using refill_bound[of 0 0] by fastforce
  then have "\<not> fst (allow (clientIP exProbe) 0 exDrained)" unfolding r(2) allow_known[OF g b bucket.select_convs(1)] by simp
  then show ?thesis using probes_are_metered[OF r(1), of "\<lambda>_. Served ()" 0 exDrained] by simp
qed

end
