(* ===== verification/Tokens.thy ===== *)
theory Tokens
  imports QuoteAnswer
begin

text \<open>
  The token list of the swap form, src/engine/tokens.go: which tokens are offered, under which names and in
  which order, and the chain id read from the node's answer.

  As in SwapCall the handler is a function from the query parameter to an \<open>httpReply\<close>; the random request id
  is left out, and the 404 does not carry its text.  The order of the list is the class \<open>linorder\<close> of a rank.

  The lemmas relate the list to the pool rows and to the quoter's book: what is offered is held by a pool row,
  and what every row of which is keyed by an address can be routed.  V4 rows are keyed by a pool id.
\<close>

record swapProject =
  pjLogo :: string
  pjSafetyLevel :: string
  pjIsSpam :: bool

record swapToken =
  tkAddress :: string
  tkChainID :: int
  tkName :: string
  tkSymbol :: string
  tkDecimals :: int
  tkIsSpam :: bool
  tkProject :: swapProject

definition iconURL :: "string \<Rightarrow> string" where
  "iconURL symbol = ''https://cdn.lux.network/exchange/icon-png/'' @ toLower symbol @ ''.png''"

definition verified :: "string \<Rightarrow> swapProject" where
  "verified symbol = \<lparr>pjLogo = iconURL symbol, pjSafetyLevel = ''VERIFIED'', pjIsSpam = False\<rparr>"

section \<open>The order of the list\<close>

datatype rank = Rank string string

text \<open>The comparison the list is sorted by: the symbols, and the addresses where these are the same.\<close>

fun rankBefore :: "rank \<Rightarrow> rank \<Rightarrow> bool" where
  "rankBefore (Rank s a) (Rank s' a') = (if s \<noteq> s' then s < s' else a < a')"

instantiation rank :: linorder
begin

definition less_rank :: "rank \<Rightarrow> rank \<Rightarrow> bool" where
  "x < y \<longleftrightarrow> rankBefore x y" for x y :: rank

definition less_eq_rank :: "rank \<Rightarrow> rank \<Rightarrow> bool" where
  "x \<le> y \<longleftrightarrow> x = y \<or> rankBefore x y" for x y :: rank

instance
proof
  fix x y z :: rank
  obtain s a s' a' s'' a'' where r: "x = Rank s a" "y = Rank s' a'" "z = Rank s'' a''"
    by (cases x; cases y; cases z) blast
  show "(x < y) = (x \<le> y \<and> \<not> y \<le> x)" "x \<le> x" "x \<le> y \<or> y \<le> x"
    using r by (auto simp: less_rank_def less_eq_rank_def split: if_splits)
  show "x \<le> z" if "x \<le> y" "y \<le> z" using that r by (auto simp: less_eq_rank_def split: if_splits)
  show "x = y" if "x \<le> y" "y \<le> x" using that r by (auto simp: less_eq_rank_def split: if_splits)
qed

end

definition rankOf :: "swapToken \<Rightarrow> rank" where
  "rankOf t = Rank (tkSymbol t) (tkAddress t)"

section \<open>The list\<close>

definition heldTokens :: "seedPool gomap \<Rightarrow> string list" where
  "heldTokens pools = concat (map (\<lambda>(_, p). [toLower (spToken0 p), toLower (spToken1 p)]) pools)"

definition coinRow :: "seedToken gomap \<Rightarrow> string list \<Rightarrow> int \<Rightarrow> string \<Rightarrow> string \<Rightarrow> swapToken list" where
  "coinRow raw held chainID coin native =
     (let wrapped = toLower native in
      if wrapped \<noteq> '''' \<and> wrapped \<in> set held
      then case getKey raw wrapped of
             None \<Rightarrow> []
           | Some t \<Rightarrow>
               (let sym = (if coin = '''' then trimPrefix (stSymbol t) ''W'' else coin) in
                [\<lparr>tkAddress = nativeSentinel, tkChainID = chainID, tkName = sym, tkSymbol = sym, tkDecimals = stDecimals t,
                  tkIsSpam = False, tkProject = verified sym\<rparr>])
      else [])"

definition tokenRow :: "int \<Rightarrow> string \<times> seedToken \<Rightarrow> swapToken" where
  "tokenRow chainID row =
     (case row of (a, t) \<Rightarrow>
        \<lparr>tkAddress = a, tkChainID = chainID, tkName = stName t, tkSymbol = stSymbol t, tkDecimals = stDecimals t,
         tkIsSpam = False, tkProject = verified (stSymbol t)\<rparr>)"

definition offeredRow :: "string list \<Rightarrow> string \<times> seedToken \<Rightarrow> bool" where
  "offeredRow held row \<longleftrightarrow> stSymbol (snd row) \<noteq> '''' \<and> toLower (fst row) \<in> set held"

definition swappableTokens :: "store \<Rightarrow> int \<Rightarrow> string \<Rightarrow> string \<Rightarrow> swapToken list" where
  "swappableTokens s chainID coin native =
     (let held = heldTokens (PoolsRaw s); raw = TokensRaw s in
      sort_key rankOf (coinRow raw held chainID coin native @ map (tokenRow chainID) (filter (offeredRow held) raw)))"

definition HandleSwappableTokens :: "store \<Rightarrow> int \<Rightarrow> string \<Rightarrow> string \<Rightarrow> string \<Rightarrow> swapToken list httpReply" where
  "HandleSwappableTokens s chainID coin native query =
     (if query = '''' then OK (swappableTokens s chainID coin native)
      else case parseInt64 query of
             None \<Rightarrow> BadRequest ''chainId must be an integer''
           | Some n \<Rightarrow> if n \<noteq> chainID then NotFound else OK (swappableTokens s n coin native))"

text \<open>The chain id in the node's answer to \<open>eth_chainId\<close>.\<close>

definition chainIDFromResult :: "string \<Rightarrow> int option" where
  "chainIDFromResult result =
     (case setString 16 (trimPrefix result ''0x'') of (n, ok) \<Rightarrow> if ok then Some (bigInt64 n) else None)"

section \<open>What is offered\<close>

definition holds :: "seedPool \<Rightarrow> string \<Rightarrow> bool" where
  "holds p a \<longleftrightarrow> toLower (spToken0 p) = a \<or> toLower (spToken1 p) = a"

lemma set_heldTokens: "a \<in> set (heldTokens pools) \<longleftrightarrow> (\<exists>(k, p) \<in> set pools. holds p a)"
  by (auto simp: heldTokens_def holds_def)

lemma tokens_replies:
  "HandleSwappableTokens s chainID coin native query =
     (if query = '''' then OK (swappableTokens s chainID coin native)
      else if parseInt64 query = None then BadRequest ''chainId must be an integer''
      else if parseInt64 query \<noteq> Some chainID then NotFound else OK (swappableTokens s chainID coin native))"
  by (auto simp: HandleSwappableTokens_def split: option.splits)

definition coinOffered :: "store \<Rightarrow> string \<Rightarrow> bool" where
  "coinOffered s native \<longleftrightarrow> native \<noteq> '''' \<and> (\<exists>(k, p) \<in> set (PoolsRaw s). holds p (toLower native)) \<and>
     getKey (TokensRaw s) (toLower native) \<noteq> None"

lemma toLower_Nil [simp]: "toLower x = '''' \<longleftrightarrow> x = ''''"
  by (metis length_0_conv length_toLower)

lemma set_coinRow:
  assumes "t \<in> set (coinRow (TokensRaw s) (heldTokens (PoolsRaw s)) chainID coin native)"
  shows "coinOffered s native \<and> tkAddress t = nativeSentinel"
proof (cases "toLower native \<noteq> '''' \<and> toLower native \<in> set (heldTokens (PoolsRaw s))")
  case False
  then have "coinRow (TokensRaw s) (heldTokens (PoolsRaw s)) chainID coin native = []" unfolding coinRow_def Let_def by (rule if_not_P)
  then show ?thesis using assms by simp
next
  case True
  then have c: "coinRow (TokensRaw s) (heldTokens (PoolsRaw s)) chainID coin native =
      (case getKey (TokensRaw s) (toLower native) of
         None \<Rightarrow> []
       | Some t \<Rightarrow>
           (let sym = (if coin = '''' then trimPrefix (stSymbol t) ''W'' else coin) in
            [\<lparr>tkAddress = nativeSentinel, tkChainID = chainID, tkName = sym, tkSymbol = sym, tkDecimals = stDecimals t,
              tkIsSpam = False, tkProject = verified sym\<rparr>]))"
    unfolding coinRow_def Let_def by (rule if_P)
  show ?thesis
    using assms True unfolding c
    by (cases "getKey (TokensRaw s) (toLower native)") (simp_all add: coinOffered_def set_heldTokens Let_def)
qed

lemma coinRow_offered:
  "coinOffered s native \<Longrightarrow> coinRow (TokensRaw s) (heldTokens (PoolsRaw s)) chainID coin native \<noteq> []"
  by (auto simp: coinRow_def Let_def coinOffered_def set_heldTokens)

lemma set_swappable:
  "t \<in> set (swappableTokens s chainID coin native) \<longleftrightarrow>
     t \<in> set (coinRow (TokensRaw s) (heldTokens (PoolsRaw s)) chainID coin native) \<or>
     (\<exists>row \<in> set (TokensRaw s). offeredRow (heldTokens (PoolsRaw s)) row \<and> t = tokenRow chainID row)"
  by (auto simp: swappableTokens_def Let_def)

text \<open>C16: The token list is the pools' own: ordered by symbol, it holds the named token rows that a pool row holds and nothing
else, each as its row says, and the chain's coin exactly when a pool holds the wrapped token and that has a row, under the
coin's own name and the scale of the wrapped token.\<close>

theorem token_list_is_what_pools_hold:
  "HandleSwappableTokens s chainID coin native '''' = OK (swappableTokens s chainID coin native) \<and>
   sorted (map rankOf (swappableTokens s chainID coin native)) \<and>
   mset (swappableTokens s chainID coin native) =
     mset (map (tokenRow chainID) (filter (\<lambda>(a, t). stSymbol t \<noteq> '''' \<and> (\<exists>(k, p) \<in> set (PoolsRaw s). holds p (toLower a))) (TokensRaw s))) +
     (if coinOffered s native
      then (let t = the (getKey (TokensRaw s) (toLower native)); sym = (if coin = '''' then trimPrefix (stSymbol t) ''W'' else coin)
            in {#(tokenRow chainID (nativeSentinel, t\<lparr>stSymbol := sym, stName := sym\<rparr>))#})
      else {#})"
proof -
  have f: "offeredRow (heldTokens (PoolsRaw s)) = (\<lambda>(a, t). stSymbol t \<noteq> '''' \<and> (\<exists>(k, p) \<in> set (PoolsRaw s). holds p (toLower a)))"
    by (rule ext) (auto simp: offeredRow_def set_heldTokens split: prod.splits)
  have c: "mset (coinRow (TokensRaw s) (heldTokens (PoolsRaw s)) chainID coin native) =
     (if coinOffered s native
      then (let t = the (getKey (TokensRaw s) (toLower native)); sym = (if coin = '''' then trimPrefix (stSymbol t) ''W'' else coin)
            in {#(tokenRow chainID (nativeSentinel, t\<lparr>stSymbol := sym, stName := sym\<rparr>))#})
      else {#})"
    by (auto simp: coinRow_def Let_def coinOffered_def set_heldTokens tokenRow_def split: option.splits)
  show ?thesis
    unfolding swappableTokens_def Let_def[of "heldTokens (PoolsRaw s)"] Let_def[of "TokensRaw s"] tokens_replies f
    using c by (simp add: add.commute swappableTokens_def Let_def f)
qed

section \<open>What can be traded\<close>

text \<open>A pool row that the quoter's book takes.\<close>

definition bookable :: "string \<times> seedPool \<Rightarrow> bool" where
  "bookable row \<longleftrightarrow> IsAddress (fst row) \<and> IsAddress (spToken0 (snd row)) \<and> IsAddress (spToken1 (snd row)) \<and>
     toLower (spToken0 (snd row)) \<noteq> toLower (spToken1 (snd row))"

lemma book_holds:
  "(\<exists>p \<in> set (book (storedBook s)). a = t0 p \<or> a = t1 p) \<longleftrightarrow> (\<exists>row \<in> set (PoolsRaw s). bookable row \<and> holds (snd row) a)"
proof
  assume "\<exists>p \<in> set (book (storedBook s)). a = t0 p \<or> a = t1 p"
  then obtain i p where p: "i < length (PoolsRaw s)" "bookEntry i (storedBook s ! i) = Some p" "a = t0 p \<or> a = t1 p"
    by (auto simp: set_book storedBook_def)
  obtain k row where k: "PoolsRaw s ! i = (k, row)" by fastforce
  then have "bookable (k, row)" "holds row a"
    using p by (auto simp: storedBook_def bookEntry_def bookable_def holds_def Let_def split: if_splits)
  moreover have "(k, row) \<in> set (PoolsRaw s)" using k p(1) by (metis nth_mem)
  ultimately show "\<exists>row \<in> set (PoolsRaw s). bookable row \<and> holds (snd row) a" by force
next
  assume "\<exists>row \<in> set (PoolsRaw s). bookable row \<and> holds (snd row) a"
  then obtain i k row where i: "i < length (PoolsRaw s)" "PoolsRaw s ! i = (k, row)" "bookable (k, row)" "holds row a"
    by (auto simp: in_set_conv_nth)
  then obtain p where p: "bookEntry i (storedBook s ! i) = Some p" "a = t0 p \<or> a = t1 p"
    by (auto simp: storedBook_def bookEntry_def bookable_def holds_def Let_def)
  have "i < length (storedBook s)" using i(1) by (simp add: storedBook_def)
  then have "p \<in> set (book (storedBook s))" using p(1) by (auto simp: set_book)
  then show "\<exists>p \<in> set (book (storedBook s)). a = t0 p \<or> a = t1 p" using p(2) by blast
qed

lemma book_routes:
  assumes "a \<noteq> b" "r \<in> set (routes ps a b)"
  shows "\<exists>p \<in> set ps. a = t0 p \<or> a = t1 p"
  using assms(2) set_allRoutes[OF assms(1), of ps]
  by (auto simp: routes_take twoHop_def joins_def dest!: in_set_takeD)

text \<open>C23: What is offered can be traded, when every stored pool is keyed by its address and holds two tokens that are addresses:
each token of the list, the coin included, is on a pool of the quoter's book under the name the quoter routes it by.\<close>

theorem offered_tokens_are_tradable:
  assumes "HandleSwappableTokens s chainID coin native query = OK ts" "t \<in> set ts" "trimSpace native = native"
    "\<forall>row \<in> set (PoolsRaw s). bookable row \<and> \<not> holds (snd row) nativeSentinel"
  shows "\<exists>p \<in> set (book (storedBook s)).
    unwrapNative (qWrapped (NewQuoter chainID quoterV2 native keccak)) (tkAddress t) \<in> {t0 p, t1 p}"
proof -
  have w: "qWrapped (NewQuoter chainID quoterV2 native keccak) = toLower native" using assms(3) by (simp add: NewQuoter_def)
  have "\<exists>n. ts = swappableTokens s n coin native" using assms(1) by (auto simp: tokens_replies split: if_splits)
  then consider (coin) "coinOffered s native" "tkAddress t = nativeSentinel"
    | (row) a row where "(a, row) \<in> set (TokensRaw s)" "toLower a \<in> set (heldTokens (PoolsRaw s))" "tkAddress t = a"
    using assms(2) set_coinRow by (fastforce simp: set_swappable offeredRow_def tokenRow_def)
  then obtain row where "row \<in> set (PoolsRaw s)" "holds (snd row) (unwrapNative (toLower native) (tkAddress t))"
  proof cases
    case coin
    then obtain k p where "(k, p) \<in> set (PoolsRaw s)" "holds p (toLower native)" "native \<noteq> ''''" by (auto simp: coinOffered_def)
    then show thesis using that[of "(k, p)"] coin(2) by (simp add: unwrapNative_wrapped)
  next
    case (row a r)
    then obtain k p where "(k, p) \<in> set (PoolsRaw s)" "holds p (toLower a)" by (auto simp: set_heldTokens)
    moreover have "toLower a \<noteq> nativeSentinel" using calculation assms(4) by force
    ultimately show thesis using that[of "(k, p)"] row(3) by (simp add: unwrapNative_def)
  qed
  then show ?thesis using book_holds[of s "unwrapNative (toLower native) (tkAddress t)"] assms(4) unfolding w by blast
qed

text \<open>A token that only V4 pools hold is offered and cannot be traded: a V4 pool row is keyed by its pool id, which is not an
address, so the token is in the list and the quoter has no route from it to anything.\<close>

theorem v4_tokens_are_offered_not_routed:
  assumes "(a, row) \<in> set (TokensRaw s)" "stSymbol row \<noteq> ''''" "\<exists>(k, p) \<in> set (PoolsRaw s). holds p (toLower a)"
    "\<forall>(k, p) \<in> set (PoolsRaw s). holds p (toLower a) \<longrightarrow> \<not> IsAddress k" "b \<noteq> toLower a"
  shows "tokenRow chainID (a, row) \<in> set (swappableTokens s chainID coin native) \<and> routes (book (storedBook s)) (toLower a) b = []"
proof
  have "offeredRow (heldTokens (PoolsRaw s)) (a, row)" using assms(2,3) by (simp add: offeredRow_def set_heldTokens)
  then show "tokenRow chainID (a, row) \<in> set (swappableTokens s chainID coin native)" using assms(1) set_swappable by blast
  have "\<not> (\<exists>row \<in> set (PoolsRaw s). bookable row \<and> holds (snd row) (toLower a))"
    using assms(4) by (fastforce simp: bookable_def)
  then have "\<not> (\<exists>p \<in> set (book (storedBook s)). toLower a = t0 p \<or> toLower a = t1 p)" using book_holds[of s "toLower a"] by blast
  then show "routes (book (storedBook s)) (toLower a) b = []"
    using book_routes[of "toLower a" b _ "book (storedBook s)"] assms(5) by (metis list.set_intros(1) neq_Nil_conv)
qed

section \<open>Two stores\<close>

definition exNamed :: "string \<Rightarrow> seedToken" where
  "exNamed n = \<lparr>stSymbol = n, stName = n, stDecimals = 18, stTotalSupply = '''', stStaked = '''', stVolumeUSD = '''',
     stTotalValueLockedUSD = '''', stDerivedETH = '''', stTxCount = 0\<rparr>"

definition exOffered :: store where
  "exOffered = SeedToken (exAddress (CHR ''a'')) (exNamed ''WLUX'') (SeedToken (exAddress (CHR ''b'')) (exNamed ''AAA'') exStored)"

theorem offered_tokens_are_tradable_witness:
  "\<exists>t. t \<in> set (swappableTokens exOffered 1 '''' (exAddress (CHR ''a''))) \<and> tkAddress t = nativeSentinel \<and>
     (\<exists>p \<in> set (book (storedBook exOffered)). exAddress (CHR ''a'') \<in> {t0 p, t1 p})"
proof -
  let ?a = "exAddress (CHR ''a'')"
  have "map tkAddress (swappableTokens exOffered 1 '''' ?a) = [exAddress (CHR ''b''), nativeSentinel, ?a]" by code_simp
  then have "nativeSentinel \<in> tkAddress ` set (swappableTokens exOffered 1 '''' ?a)"
    by (metis list.set_intros(1,2) list.set_map)
  then obtain t where t: "t \<in> set (swappableTokens exOffered 1 '''' ?a)" "tkAddress t = nativeSentinel" by auto
  have n: "trimSpace ?a = ?a" "qWrapped (NewQuoter 1 '''' ?a (\<lambda>_. '''')) = ?a" "?a \<noteq> ''''" by code_simp+
  have "PoolsRaw exOffered = PoolsRaw exStored" by (simp add: exOffered_def SeedToken_def PoolsRaw_def)
  moreover have "list_all (\<lambda>row. bookable row \<and> \<not> holds (snd row) nativeSentinel) (PoolsRaw exStored)" by code_simp
  ultimately have b: "\<forall>row \<in> set (PoolsRaw exOffered). bookable row \<and> \<not> holds (snd row) nativeSentinel" by (simp add: list_all_iff)
  have "HandleSwappableTokens exOffered 1 '''' ?a '''' = OK (swappableTokens exOffered 1 '''' ?a)" by (simp add: tokens_replies)
  from offered_tokens_are_tradable[OF this t(1) n(1) b, of "''''" "\<lambda>_. ''''"] t n show ?thesis
    by (auto simp: unwrapNative_wrapped)
qed

definition exV4Store :: store where
  "exV4Store = SeedToken (exAddress (CHR ''b'')) (exNamed ''AAA'')
     (SeedPool (''0x'' @ replicate 64 (CHR ''7'')) \<lparr>spToken0 = exAddress (CHR ''a''), spToken1 = exAddress (CHR ''b''), spFeeTier = 3000,
        spTotalValueLockedUSD = ''0'', spVolumeUSD = ''0'', spToken0Price = ''0'', spToken1Price = ''0'', spTxCount = 0\<rparr> NewStore)"

theorem v4_tokens_are_offered_not_routed_witness:
  "tokenRow 1 (exAddress (CHR ''b''), exNamed ''AAA'') \<in> set (swappableTokens exV4Store 1 '''' '''') \<and>
   routes (book (storedBook exV4Store)) (toLower (exAddress (CHR ''b''))) (exAddress (CHR ''a'')) = []"
proof -
  let ?b = "exAddress (CHR ''b'')"
  have t: "(?b, exNamed ''AAA'') \<in> set (TokensRaw exV4Store)" "stSymbol (exNamed ''AAA'') \<noteq> ''''"
    by (simp_all add: exV4Store_def SeedToken_def SeedPool_def TokensRaw_def NewStore_def putKey_def exNamed_def)
  have "list_ex (\<lambda>(k, p). holds p (toLower ?b)) (PoolsRaw exV4Store)" "list_all (\<lambda>(k, p). \<not> IsAddress k) (PoolsRaw exV4Store)"
    by code_simp+
  then have p: "\<exists>(k, p) \<in> set (PoolsRaw exV4Store). holds p (toLower ?b)"
    "\<forall>(k, p) \<in> set (PoolsRaw exV4Store). holds p (toLower ?b) \<longrightarrow> \<not> IsAddress k"
    by (auto simp: list_ex_iff list_all_iff)
  have n: "exAddress (CHR ''a'') \<noteq> toLower ?b" by code_simp
  from v4_tokens_are_offered_not_routed[OF t p n] show ?thesis by blast
qed

end
