(* ===== verification/Backfill.thy ===== *)
theory Backfill
  imports StoreQuery Erc20
begin

text \<open>
  The token pass at start-up, src/indexer/erc20.go (\<open>BackfillTokens\<close>): the rows of the token table are read once, and
  the chain is asked about each row that lacks a symbol or a supply.

  \<open>ended i\<close> tells whether the context has ended when row \<open>i\<close> is reached.  The flag of the answer is False where
  the code returns the error of the context; None is a run-time panic, which nothing recovers here: \<open>main\<close> calls
  the pass directly, unlike the poll loop.
\<close>

definition backfillPage :: int where "backfillPage = 2 ^ 20"

type_synonym backfillState = "nat \<times> store \<times> tokenCache"

definition backfillRow :: "ethCalls \<Rightarrow> backfillState \<Rightarrow> val \<Rightarrow> backfillState option" where
  "backfillRow call st r =
     (case st of (filled, s, cache) \<Rightarrow>
        case r of
          VMap m \<Rightarrow>
            (let addr = (case getVal m ''id'' of VStr a \<Rightarrow> a | _ \<Rightarrow> '''') in
             if addr = '''' \<or> settled (storedToken s addr) addr then Some st
             else case token call addr (s, cache) of
                    None \<Rightarrow> None
                  | Some (t, s', cache') \<Rightarrow> Some (if settled (Some t) addr then filled + 1 else filled, s', cache'))
        | _ \<Rightarrow> Some st)"

fun backfillRows :: "ethCalls \<Rightarrow> (nat \<Rightarrow> bool) \<Rightarrow> nat \<Rightarrow> val list \<Rightarrow> backfillState \<Rightarrow> (bool \<times> backfillState) option" where
  "backfillRows call ended i [] st = Some (True, st)"
| "backfillRows call ended i (r # rs) st =
     (if ended i then Some (False, st)
      else case backfillRow call st r of None \<Rightarrow> None | Some st' \<Rightarrow> backfillRows call ended (Suc i) rs st')"

definition BackfillTokens :: "ethCalls \<Rightarrow> (nat \<Rightarrow> bool) \<Rightarrow> store \<times> tokenCache \<Rightarrow> (bool \<times> backfillState) option" where
  "BackfillTokens call ended st =
     (case GetTokens (fst st) backfillPage '''' '''' [] of
        VList rows \<Rightarrow> backfillRows call ended 0 rows (0, st)
      | _ \<Rightarrow> Some (True, 0, st))"

section \<open>One row\<close>

lemma GetTokens_all:
  "int (length (dbTokens s)) \<le> n \<Longrightarrow> GetTokens s n '''' '''' [] = VList (map (\<lambda>(a, t). tokenToMap a t) (dbTokens s))"
  by (simp add: GetTokens_def page_def sortResults_def FilterResults_def)

lemma backfillRow_token:
  "backfillRow call (n, s, cache) (tokenToMap a t) =
     (if a = '''' \<or> settled (getKey (dbTokens s) a) a then Some (n, s, cache)
      else case token call a (s, cache) of
             None \<Rightarrow> None
           | Some (t, s', cache') \<Rightarrow> Some (if settled (Some t) a then n + 1 else n, s', cache'))"
  by (simp add: backfillRow_def tokenToMap_def getVal_def getKey_def storedToken_raw)

lemma find_only:
  "distinct (map (toLower \<circ> fst) m) \<Longrightarrow> (a, t) \<in> set m \<Longrightarrow> \<not> settled (Some t) a \<Longrightarrow>
   find (\<lambda>(a', t). \<not> settled (Some t) a' \<and> toLower a' = toLower a) m = Some (a, t)"
  by (induction m) force+

text \<open>What the pass makes of a row, and whether it counts it.\<close>

definition refreshed :: "ethCalls \<Rightarrow> string \<times> seedToken \<Rightarrow> string \<times> seedToken" where
  "refreshed call row =
     (if settled (Some (snd row)) (fst row) then row
      else (fst row, resolve (Some (snd row)) (readERC20 call (fst row)) (fst row)))"

definition newlySettled :: "ethCalls \<Rightarrow> string \<times> seedToken \<Rightarrow> bool" where
  "newlySettled call row \<longleftrightarrow>
     \<not> settled (Some (snd row)) (fst row) \<and> settled (Some (snd (refreshed call row))) (fst row)"

text \<open>A token table as the indexer writes it: one row per address whatever its letter case, none for the empty address.\<close>

definition oneRowEach :: "seedToken gomap \<Rightarrow> bool" where
  "oneRowEach m \<longleftrightarrow> distinct (map (toLower \<circ> fst) m) \<and> '''' \<notin> fst ` set m"

definition readable :: "ethCalls \<Rightarrow> seedToken gomap \<Rightarrow> bool" where
  "readable call m \<longleftrightarrow> list_all (\<lambda>(a, t). settled (Some t) a \<or> readERC20 call a \<noteq> None) m"

lemma fst_refreshed [simp]: "fst (refreshed call row) = fst row"
  by (simp add: refreshed_def)

lemma getKey_middle: "k \<notin> fst ` set xs \<Longrightarrow> getKey (xs @ (k, v) # ys) k = Some v"
  by (induction xs) (auto simp: getKey_def)

lemma putKey_middle: "k \<notin> fst ` set xs \<Longrightarrow> putKey k w (xs @ (k, v) # ys) = xs @ (k, w) # ys"
  by (induction xs) (auto simp: putKey_def)

lemma store_tokens_same [simp]: "s\<lparr>dbTokens := dbTokens s\<rparr> = s"
  by simp

lemma getKey_absent: "k \<notin> fst ` set m \<Longrightarrow> getKey m k = None"
  by (simp add: getKey_def map_of_eq_None_iff)

lemma row_step:
  assumes "oneRowEach (xs @ (a, t) # ys)" "readable call [(a, t)]" "toLower a \<notin> fst ` set cache"
  shows "\<exists>cache'. backfillRow call (n, s\<lparr>dbTokens := map (refreshed call) xs @ (a, t) # ys\<rparr>, cache) (tokenToMap a t0) =
      Some (n + (if newlySettled call (a, t) then 1 else 0), s\<lparr>dbTokens := map (refreshed call) xs @ refreshed call (a, t) # ys\<rparr>, cache')
    \<and> cache' = (if settled (Some t) a then cache else putKey (toLower a) (snd (refreshed call (a, t))) cache)"
proof -
  let ?s = "s\<lparr>dbTokens := map (refreshed call) xs @ (a, t) # ys\<rparr>"
  have a: "a \<noteq> ''''" "a \<notin> fst ` set xs" using assms(1) by (auto simp: oneRowEach_def)
  have "fst ` set (map (refreshed call) xs) = fst ` set xs" by (simp add: image_image)
  then have "a \<notin> fst ` set (map (refreshed call) xs)" using a(2) by simp
  then have g: "getKey (dbTokens ?s) a = Some t"
    and p: "putKey a w (dbTokens ?s) = map (refreshed call) xs @ (a, w) # ys" for w
    by (simp_all add: getKey_middle putKey_middle)
  show ?thesis
  proof (cases "settled (Some t) a")
    case True
    then show ?thesis using a g by (simp add: backfillRow_token newlySettled_def refreshed_def)
  next
    case False
    then obtain r where r: "readERC20 call a = Some r" using assms(2) by (auto simp: readable_def)
    have "token call a (?s, cache) = Some (resolve (Some t) (Some r) a, SeedToken a (resolve (Some t) (Some r) a) ?s,
        putKey (toLower a) (resolve (Some t) (Some r) a) cache)"
      using False r g getKey_absent[OF assms(3)] by (simp add: token_def storedToken_raw Let_def)
    then show ?thesis using a False g r p
      by (simp add: backfillRow_token newlySettled_def refreshed_def SeedToken_def)
  qed
qed

section \<open>The pass\<close>

lemma rows_run:
  assumes "oneRowEach (xs @ ys)" "readable call ys" "fst ` set cache \<subseteq> (toLower \<circ> fst) ` set xs"
  shows "\<exists>cache'. backfillRows call (\<lambda>_. False) i (map (\<lambda>(a, t). tokenToMap a t) ys)
        (n, s\<lparr>dbTokens := map (refreshed call) xs @ ys\<rparr>, cache) =
      Some (True, n + length (filter (newlySettled call) ys), s\<lparr>dbTokens := map (refreshed call) (xs @ ys)\<rparr>, cache') \<and>
    (\<forall>b. getKey cache' b = (case find (\<lambda>(a, t). \<not> settled (Some t) a \<and> toLower a = b) ys of
        None \<Rightarrow> getKey cache b | Some row \<Rightarrow> Some (snd (refreshed call row))))"
  using assms
proof (induction ys arbitrary: xs i n cache)
  case (Cons row ys)
  obtain a t where row: "row = (a, t)" by fastforce
  have fresh: "toLower a \<notin> fst ` set cache" using Cons.prems(1,3) by (auto simp: row oneRowEach_def)
  have ra: "readable call [(a, t)]" "readable call ys" using Cons.prems(2) by (simp_all add: readable_def row)
  obtain c where c: "backfillRow call (n, s\<lparr>dbTokens := map (refreshed call) xs @ (a, t) # ys\<rparr>, cache) (tokenToMap a t) =
      Some (n + (if newlySettled call (a, t) then 1 else 0), s\<lparr>dbTokens := map (refreshed call) xs @ refreshed call (a, t) # ys\<rparr>, c)"
    "c = (if settled (Some t) a then cache else putKey (toLower a) (snd (refreshed call (a, t))) cache)"
    using row_step[OF Cons.prems(1)[unfolded row] ra(1) fresh, of n s t] by (elim exE conjE) (rule that)
  have sub: "fst ` set c \<subseteq> (toLower \<circ> fst) ` set (xs @ [row])"
    using Cons.prems(3) unfolding c(2) row by (cases "settled (Some t) a") auto
  have one: "oneRowEach ((xs @ [row]) @ ys)" using Cons.prems(1) by simp
  let ?n = "n + (if newlySettled call (a, t) then 1 else 0)"
  obtain cache' where i: "backfillRows call (\<lambda>_. False) (Suc i) (map (\<lambda>(a, t). tokenToMap a t) ys)
        (?n, s\<lparr>dbTokens := map (refreshed call) (xs @ [row]) @ ys\<rparr>, c) =
      Some (True, ?n + length (filter (newlySettled call) ys), s\<lparr>dbTokens := map (refreshed call) ((xs @ [row]) @ ys)\<rparr>, cache')"
    "\<forall>b. getKey cache' b = (case find (\<lambda>(a, t). \<not> settled (Some t) a \<and> toLower a = b) ys of
        None \<Rightarrow> getKey c b | Some row \<Rightarrow> Some (snd (refreshed call row)))"
    using Cons.IH[OF one ra(2) sub, of "Suc i" ?n] by (elim exE conjE) (rule that)
  have other: "find (\<lambda>(a', t). \<not> settled (Some t) a' \<and> toLower a' = toLower a) ys = None"
  proof -
    have "toLower a \<notin> (toLower \<circ> fst) ` set ys" using Cons.prems(1) by (simp add: oneRowEach_def row)
    then have "toLower (fst r) \<noteq> toLower a" if "r \<in> set ys" for r using that by force
    then show ?thesis by (auto simp: find_None_iff)
  qed
  have "backfillRows call (\<lambda>_. False) i (map (\<lambda>(a, t). tokenToMap a t) (row # ys))
        (n, s\<lparr>dbTokens := map (refreshed call) xs @ row # ys\<rparr>, cache) =
      Some (True, n + length (filter (newlySettled call) (row # ys)), s\<lparr>dbTokens := map (refreshed call) (xs @ row # ys)\<rparr>, cache')"
    unfolding row list.map prod.case backfillRows.simps if_False c(1) option.case using i(1) by (simp add: row)
  moreover have "getKey cache' b = (case find (\<lambda>(a, t). \<not> settled (Some t) a \<and> toLower a = b) (row # ys) of
        None \<Rightarrow> getKey cache b | Some row \<Rightarrow> Some (snd (refreshed call row)))" for b
  proof (cases "b = toLower a \<and> \<not> settled (Some t) a")
    case True
    then show ?thesis using i(2)[rule_format, of b] other by (simp add: row c(2))
  next
    case False
    then have "getKey c b = getKey cache b" by (auto simp: c(2))
    then show ?thesis using False i(2)[rule_format, of b] by (auto simp: row split: option.splits)
  qed
  ultimately show ?case by blast
qed simp

text \<open>C17: The pass settles what it can and touches nothing else: with one row per address, every unsettled row becomes the
chain's reading folded over it, every settled row stays as it was, and the pass counts exactly the rows that had something
missing and no longer do.\<close>

theorem backfill_settles_rows:
  assumes "oneRowEach (dbTokens s)" "readable call (dbTokens s)" "int (length (dbTokens s)) \<le> 2 ^ 20"
  shows "\<exists>cache. BackfillTokens call (\<lambda>_. False) (s, []) =
    Some (True, length (filter (newlySettled call) (dbTokens s)), s\<lparr>dbTokens := map (refreshed call) (dbTokens s)\<rparr>, cache)"
  using rows_run[of "[]" "dbTokens s" call "[]" 0 0 s] assms
  by (auto simp: BackfillTokens_def GetTokens_all backfillPage_def)

section \<open>A second pass\<close>

definition quietRow :: "store \<Rightarrow> tokenCache \<Rightarrow> string \<Rightarrow> bool" where
  "quietRow s cache a \<longleftrightarrow> a = '''' \<or> settled (getKey (dbTokens s) a) a \<or>
     (\<exists>t. getKey cache (toLower a) = Some t \<and> \<not> settled (Some t) a)"

lemma quiet_rows:
  "\<forall>(a, t) \<in> set rows. quietRow s cache a \<Longrightarrow>
   backfillRows call (\<lambda>_. False) i (map (\<lambda>(a, t). tokenToMap a t) rows) (n, s, cache) = Some (True, n, s, cache)"
proof (induction rows arbitrary: i)
  case (Cons row rows)
  obtain a t where row: "row = (a, t)" by fastforce
  have "backfillRow call (n, s, cache) (tokenToMap a t) = Some (n, s, cache)"
    using Cons.prems by (auto simp: row backfillRow_token quietRow_def token_cached)
  then show ?case using Cons by (simp add: row)
qed simp

text \<open>C28: A second pass in the same process changes nothing, counts nothing and asks the chain nothing, whatever the chain would
answer now.\<close>

theorem backfill_is_idempotent:
  assumes "oneRowEach (dbTokens s)" "readable call (dbTokens s)" "int (length (dbTokens s)) \<le> 2 ^ 20"
    "BackfillTokens call (\<lambda>_. False) (s, []) = Some (ok, n, s', cache)"
  shows "BackfillTokens call' (\<lambda>_. False) (s', cache) = Some (True, 0, s', cache)"
proof -
  obtain c where c: "backfillRows call (\<lambda>_. False) 0 (map (\<lambda>(a, t). tokenToMap a t) (dbTokens s)) (0, s, []) =
      Some (True, length (filter (newlySettled call) (dbTokens s)), s\<lparr>dbTokens := map (refreshed call) (dbTokens s)\<rparr>, c)"
    "\<forall>b. getKey c b = (case find (\<lambda>(a, t). \<not> settled (Some t) a \<and> toLower a = b) (dbTokens s) of
        None \<Rightarrow> getKey [] b | Some row \<Rightarrow> Some (snd (refreshed call row)))"
    using rows_run[of "[]" "dbTokens s" call "[]" 0 0 s] assms(1,2) by auto
  then have s': "s' = s\<lparr>dbTokens := map (refreshed call) (dbTokens s)\<rparr>" "cache = c"
    using assms(3,4) by (simp_all add: BackfillTokens_def GetTokens_all backfillPage_def)
  have "quietRow s' cache a" if m: "(a, t') \<in> set (dbTokens s')" for a t'
  proof -
    obtain t where t: "(a, t) \<in> set (dbTokens s)" "refreshed call (a, t) = (a, t')"
      using m by (auto simp: s' refreshed_def split: if_splits)
    have d: "distinct (map (toLower \<circ> fst) (dbTokens s))" using assms(1) by (simp add: oneRowEach_def)
    then have "distinct (map fst (dbTokens s))" by (metis distinct_map list.map_comp)
    then have "distinct (map fst (dbTokens s'))" by (simp add: s' comp_def)
    then have g: "getKey (dbTokens s') a = Some t'" using m by (simp add: getKey_def)
    show ?thesis
    proof (cases "settled (Some t') a")
      case True
      then show ?thesis using g by (simp add: quietRow_def)
    next
      case False
      then have u: "\<not> settled (Some t) a" using t(2) by (auto simp: refreshed_def)
      have "find (\<lambda>(a', t). \<not> settled (Some t) a' \<and> toLower a' = toLower a) (dbTokens s) = Some (a, t)"
        using d t(1) u by (rule find_only)
      then have "getKey cache (toLower a) = Some t'" using c(2) s'(2) t(2) by simp
      then show ?thesis using False by (auto simp: quietRow_def)
    qed
  qed
  moreover have "int (length (dbTokens s')) \<le> 2 ^ 20" using assms(3) by (simp add: s')
  ultimately show ?thesis
    by (auto simp: BackfillTokens_def GetTokens_all backfillPage_def intro!: quiet_rows)
qed

section \<open>A panic at start-up\<close>

lemma row_panics:
  "a \<noteq> '''' \<Longrightarrow> \<not> settled (getKey (dbTokens s) a) a \<Longrightarrow> getKey cache (toLower a) = None \<Longrightarrow> readERC20 call a = None \<Longrightarrow>
   backfillRow call (n, s, cache) (tokenToMap a t) = None"
  by (simp add: backfillRow_token token_def storedToken_raw Let_def)

lemma rows_panic:
  assumes "oneRowEach (xs @ (a, t) # ys)" "readable call xs" "readERC20 call a = None" "\<not> settled (Some t) a"
    "oneRowEach (zs @ xs @ (a, t) # ys)" "fst ` set cache \<subseteq> (toLower \<circ> fst) ` set zs"
  shows "backfillRows call (\<lambda>_. False) i (map (\<lambda>(a, t). tokenToMap a t) (xs @ (a, t) # ys))
        (n, s\<lparr>dbTokens := map (refreshed call) zs @ xs @ (a, t) # ys\<rparr>, cache) = None"
  using assms
proof (induction xs arbitrary: zs i n cache)
  case Nil
  have a: "a \<noteq> ''''" "a \<notin> fst ` set zs" "toLower a \<notin> fst ` set cache" using Nil.prems(5,6) by (auto simp: oneRowEach_def)
  have "fst ` set (map (refreshed call) zs) = fst ` set zs" by (simp add: image_image)
  then have "a \<notin> fst ` set (map (refreshed call) zs)" using a(2) by simp
  then show ?case using a Nil.prems(3,4) by (simp add: row_panics getKey_middle getKey_absent)
next
  case (Cons row xs)
  obtain b u where row: "row = (b, u)" by fastforce
  have fresh: "toLower b \<notin> fst ` set cache" using Cons.prems(5,6) by (auto simp: row oneRowEach_def)
  have rb: "readable call [(b, u)]" "readable call xs" using Cons.prems(2) by (simp_all add: readable_def row)
  obtain c where c: "backfillRow call (n, s\<lparr>dbTokens := map (refreshed call) zs @ (b, u) # xs @ (a, t) # ys\<rparr>, cache) (tokenToMap b u) =
      Some (n + (if newlySettled call (b, u) then 1 else 0),
        s\<lparr>dbTokens := map (refreshed call) zs @ refreshed call (b, u) # xs @ (a, t) # ys\<rparr>, c)"
    "c = (if settled (Some u) b then cache else putKey (toLower b) (snd (refreshed call (b, u))) cache)"
    using row_step[of zs b u "xs @ (a, t) # ys" call cache n s u] Cons.prems(5) rb(1) fresh
    by (simp add: row)
  have sub: "fst ` set c \<subseteq> (toLower \<circ> fst) ` set (zs @ [row])"
    using Cons.prems(6) unfolding c(2) row by (cases "settled (Some u) b") auto
  have one: "oneRowEach (xs @ (a, t) # ys)" using Cons.prems(1) by (simp add: oneRowEach_def)
  have "oneRowEach ((zs @ [row]) @ xs @ (a, t) # ys)" using Cons.prems(5) by simp
  from Cons.IH[OF one rb(2) Cons.prems(3,4) this sub, of "Suc i" "n + (if newlySettled call (b, u) then 1 else 0)"]
  show ?case unfolding row append_Cons list.map prod.case backfillRows.simps if_False c(1) option.case by (simp add: row)
qed

text \<open>A token row that still lacks a symbol or a supply, whose contract answers \<open>symbol()\<close> with a declared length just
below 2^63, stops the daemon at start-up: the pass panics, every time, and nothing recovers it.\<close>

theorem hostile_symbol_stops_startup:
  assumes "oneRowEach (dbTokens s)" "int (length (dbTokens s)) \<le> 2 ^ 20" "(a, t) \<in> set (dbTokens s)" "\<not> settled (Some t) a"
    "call a selSymbol = Some (abiString n bytes)" "2 ^ 63 - 64 \<le> n" "n < 2 ^ 63"
  shows "BackfillTokens call (\<lambda>_. False) (s, []) = None"
proof -
  let ?bad = "\<lambda>(a, t). \<not> settled (Some t) a \<and> readERC20 call a = None"
  have "\<exists>row \<in> set (dbTokens s). ?bad row" using assms(3,4) readERC20_panics[of call a n bytes] assms(5-7) by blast
  then obtain xs row ys where r: "dbTokens s = xs @ row # ys" "?bad row" "\<forall>row \<in> set xs. \<not> ?bad row"
    using split_list_first_prop[of "dbTokens s" ?bad] by blast
  obtain b u where row: "row = (b, u)" by fastforce
  have "readable call xs" using r(3) by (auto simp: readable_def list_all_iff)
  then have "backfillRows call (\<lambda>_. False) 0 (map (\<lambda>(a, t). tokenToMap a t) (dbTokens s)) (0, s\<lparr>dbTokens := dbTokens s\<rparr>, []) = None"
    using rows_panic[of xs b u ys call "[]" "[]" 0 0 s] assms(1) r(1,2) by (simp add: row)
  then show ?thesis using assms(2) by (simp add: BackfillTokens_def GetTokens_all backfillPage_def)
qed

section \<open>Instances\<close>

definition exUnread :: "string \<Rightarrow> string \<Rightarrow> seedToken" where
  "exUnread sy supply = emptyToken\<lparr>stSymbol := sy, stTotalSupply := supply, stDecimals := 18\<rparr>"

definition exTokens :: store where
  "exTokens = NewStore\<lparr>dbTokens := [(''0xaa'', exUnread ''WLUX'' ''100''), (''0xbb'', exUnread ''0xbb'' '''')]\<rparr>"

definition exChain :: ethCalls where
  "exChain a sel = (if sel = selSymbol then Some (abiString 4 ''ZOOM'') else if sel = selTotalSupply then Some (''0x'' @ hexOf (beBytes 32 7)) else None)"

lemma ex_rows: "oneRowEach (dbTokens exTokens)" "readable exChain (dbTokens exTokens)" "int (length (dbTokens exTokens)) \<le> 2 ^ 20"
  by code_simp+

theorem backfill_settles_rows_witness:
  "\<exists>cache. BackfillTokens exChain (\<lambda>_. False) (exTokens, []) =
     Some (True, 1, exTokens\<lparr>dbTokens := map (refreshed exChain) (dbTokens exTokens)\<rparr>, cache)"
proof -
  have "length (filter (newlySettled exChain) (dbTokens exTokens)) = 1" by code_simp
  then show ?thesis using backfill_settles_rows[OF ex_rows] by simp
qed

theorem backfill_is_idempotent_witness:
  "\<exists>s' cache. BackfillTokens exChain (\<lambda>_. False) (exTokens, []) = Some (True, 1, s', cache) \<and>
     BackfillTokens (\<lambda>_ _. None) (\<lambda>_. False) (s', cache) = Some (True, 0, s', cache)"
proof -
  have "map_option (\<lambda>(ok, n, _). (ok, n)) (BackfillTokens exChain (\<lambda>_. False) (exTokens, [])) = Some (True, 1)" by code_simp
  then obtain s' cache where r: "BackfillTokens exChain (\<lambda>_. False) (exTokens, []) = Some (True, 1, s', cache)" by auto
  then show ?thesis using backfill_is_idempotent[OF ex_rows r] by blast
qed

theorem hostile_symbol_stops_startup_witness:
  "BackfillTokens (\<lambda>a sel. if a = ''0xbb'' then Some (abiString (2 ^ 63 - 1) ''EVIL'') else None) (\<lambda>_. False) (exTokens, []) = None"
proof (rule hostile_symbol_stops_startup[where a = "''0xbb''" and n = "2 ^ 63 - 1" and bytes = "''EVIL''" and t = "exUnread ''0xbb'' ''''"])
  show "oneRowEach (dbTokens exTokens)" "int (length (dbTokens exTokens)) \<le> 2 ^ 20" by (rule ex_rows)+
  show "(''0xbb'', exUnread ''0xbb'' '''') \<in> set (dbTokens exTokens)" by (simp add: exTokens_def)
  show "\<not> settled (Some (exUnread ''0xbb'' '''')) ''0xbb''" by code_simp
qed simp_all

end
