(* ===== verification/System.thy ===== *)
theory System
  imports Cursor Clob SwapTimes Revalue SqlStore Backfill
begin

text \<open>
  The jobs of the daemon over one store, src/indexer/indexer.go (\<open>Run\<close>) and src/cmd/graphd/main.go: the token pass at
  start-up, the poll loop, the pass that dates old swaps, the valuation pass, and the source of native trades.

  A job is one step.  In the code the jobs after the start-up pass are goroutines; each locks the store for one
  operation at a time, so their writes interleave.  What is shown here is an invariant of every single write, so an
  interleaving of the writes keeps it too.  A restart builds the indexer again over the same store.

  The invariant is the type of the store: each table holds a key once, every entity row is a document that carries its
  own id under one of the type names the writers use, and the decimals of a token are a byte.
\<close>

section \<open>Typed rows\<close>

definition entityTypes :: "string list" where
  "entityTypes =
     [''FrozenAccount'', ''TransferAgentAction'', ''FrozenTokens'', ''IdentityRegistryAction'', ''OnchainIdClaim'',
      ''OnchainIdKey'', ''TrustedIssuerAction'', ''ClaimTopicAction'', ''ComplianceAction'', ''SecuritiesEvent'',
      ''Market'', ''Fill'', ''Order'', ''TokenDayData'', ''PoolDayData'', ''FactoryDayData'']"

definition document :: "string \<times> val \<Rightarrow> bool" where
  "document row \<longleftrightarrow>
     (case snd row of
        VMap m \<Rightarrow> (case getKey m ''id'' of Some (VStr i) \<Rightarrow> list_ex (\<lambda>t. fst row = entityKey t i) entityTypes | _ \<Rightarrow> False)
      | _ \<Rightarrow> False)"

definition byteScale :: "seedToken \<Rightarrow> bool" where
  "byteScale t \<longleftrightarrow> 0 \<le> stDecimals t \<and> stDecimals t < 256"

definition typed :: "store \<Rightarrow> bool" where
  "typed s \<longleftrightarrow> mapKeys s \<and> list_all document (dbGeneric s) \<and> list_all (byteScale \<circ> snd) (dbTokens s)"

lemma list_all_putKey: "list_all P m \<Longrightarrow> P (k, v) \<Longrightarrow> list_all P (putKey k v m)"
  using set_putKey[of k v m] by (auto simp: list_all_iff)

lemma documentI: "t \<in> set entityTypes \<Longrightarrow> getKey m ''id'' = Some (VStr i) \<Longrightarrow> document (entityKey t i, VMap m)"
  by (auto simp: document_def list_ex_iff)

lemma documentE:
  assumes "document (k, v)"
  obtains t i m where "k = entityKey t i" "v = VMap m" "t \<in> set entityTypes" "getKey m ''id'' = Some (VStr i)"
proof (cases v)
  case (VMap m)
  then obtain x where x: "getKey m ''id'' = Some x" using assms by (cases "getKey m ''id''") (auto simp: document_def)
  then show ?thesis using assms VMap that by (cases x) (auto simp: document_def list_ex_iff)
qed (use assms in \<open>simp_all add: document_def\<close>)

lemma entityTypes_colonFree: "t \<in> set entityTypes \<Longrightarrow> colonFree t"
  by (auto simp: entityTypes_def colonFree_def)

lemma typed_SetEntity: "typed s \<Longrightarrow> document (entityKey t i, v) \<Longrightarrow> typed (SetEntity t i v s)"
  by (simp add: typed_def SetEntity_def mapKeys_def list_all_putKey)

lemma typed_SeedToken: "typed s \<Longrightarrow> byteScale t \<Longrightarrow> typed (SeedToken a t s)"
  by (simp add: typed_def SeedToken_def mapKeys_def list_all_putKey)

lemma typed_seeds:
  "typed s \<Longrightarrow> typed (SeedFactory i f s)" "typed s \<Longrightarrow> typed (SeedBundle i b s)" "typed s \<Longrightarrow> typed (SeedPool i p s)"
  "typed s \<Longrightarrow> typed (SeedSwap i w s)" "typed s \<Longrightarrow> typed (SetLastBlock n s)" "typed s \<Longrightarrow> typed (SetPricedThrough m s)"
  by (simp_all add: typed_def mapKeys_def SeedFactory_def SeedBundle_def SeedPool_def SeedSwap_def SetLastBlock_def SetPricedThrough_def)

lemma typed_ValueSwaps: "typed s \<Longrightarrow> typed (fst (ValueSwaps usd s))"
proof -
  have "typed (fst st) \<Longrightarrow> typed (fst (foldl valueSwap st usd))" for st
    by (induction usd arbitrary: st) (auto simp: valueSwap_def typed_seeds split: option.splits)
  then show "typed s \<Longrightarrow> ?thesis" by (simp add: ValueSwaps_def)
qed

lemma typed_DropDerived [simp]: "typed (DropDerived s)"
  by (simp add: typed_def DropDerived_def mapKeys_def)

lemma typed_NewStore [simp]: "typed NewStore"
  by (simp add: typed_def NewStore_def mapKeys_def)

text \<open>What a typed store holds at the key of a type.\<close>

lemma typed_row:
  assumes "typed s" "t \<in> set entityTypes" "getKey (dbGeneric s) (entityKey t i) = Some v"
  shows "\<exists>m. v = VMap m \<and> getKey m ''id'' = Some (VStr i)"
proof -
  have "document (entityKey t i, v)" using assms(1,3) by (auto simp: typed_def list_all_iff getKey_def dest: map_of_SomeD)
  then obtain u j m where m: "entityKey t i = entityKey u j" "v = VMap m" "u \<in> set entityTypes" "getKey m ''id'' = Some (VStr j)"
    by (rule documentE)
  then have "i = j" using entityKey_inj entityTypes_colonFree assms(2) by blast
  then show ?thesis using m by blast
qed

lemma typed_reads:
  "typed s \<Longrightarrow> t \<in> set entityTypes \<Longrightarrow>
   GetByType s t i = VNil \<or> (\<exists>m. GetByType s t i = VMap m \<and> getKey m ''id'' = Some (VStr i))"
  by (cases "getKey (dbGeneric s) (entityKey t i)") (auto simp: GetByType_def dest: typed_row)

lemma typed_token: "typed s \<Longrightarrow> (a, t) \<in> set (dbTokens s) \<Longrightarrow> byteScale t"
  by (auto simp: typed_def list_all_iff)

lemma typed_getToken: "typed s \<Longrightarrow> getKey (dbTokens s) a = Some t \<Longrightarrow> byteScale t"
  by (auto simp: getKey_def intro: typed_token dest: map_of_SomeD)

section \<open>Tokens\<close>

lemma decimals_byte: "decodeERC20Decimals raw = Some d \<Longrightarrow> 0 \<le> d \<and> d < 256"
  using byteOf_less by (auto simp: decodeERC20Decimals_def Let_def split: if_splits)

lemma readERC20_decimals: "readERC20 call a = Some r \<Longrightarrow> stDecimals r = unread \<or> byteScale r"
  by (auto simp: readERC20_def byteScale_def emptyToken_def Let_def bind_eq_Some_conv dest: decimals_byte split: option.splits)

lemma resolve_byte:
  assumes "case stored of None \<Rightarrow> True | Some t \<Rightarrow> byteScale t" "stDecimals r = unread \<or> byteScale r"
  shows "byteScale (resolve stored (Some r) a)"
  using assms by (auto simp: resolve_def foldRead_def Let_def byteScale_def emptyToken_def unread_def defaultDecimals_def split: option.splits)

lemma typed_tokenCall:
  assumes "typed s" "token call a (s, c) = Some (t, s', c')"
  shows "typed s'"
proof (cases "s' = s")
  case False
  then obtain r where "readERC20 call a = Some r" "s' = SeedToken a (resolve (storedToken s a) (Some r) a) s"
    using assms(2) by (auto simp: token_def Let_def split: option.splits if_splits)
  then show ?thesis
    using assms(1) by (auto intro!: typed_SeedToken resolve_byte readERC20_decimals simp: storedToken_raw dest: typed_getToken split: option.splits)
qed (use assms in simp)

section \<open>Event handlers\<close>

lemma typed_securities: "typed s \<Longrightarrow> typed (securitiesLog sig l n tx i s)"
proof -
  assume s: "typed s"
  have "typed (handleAddressFrozen l n tx i s)" "typed (handleTokensFrozen l n tx i b s)" "typed (handleSecurityPause l n tx i b s)"
    "typed (handleRecoverySuccess l n tx i s)" "typed (handleIdentityRegistryAction l n tx i k s)" "typed (handleClaim l n tx i k s)"
    "typed (handleKey l n tx i k s)" "typed (handleTrustedIssuer l n tx i k s)" "typed (handleClaimTopic l n tx i k s)"
    "typed (handleComplianceEvent l n tx i k s)" "typed (handleSimpleSecuritiesEvent l n tx i k s)" for b k
    using s by (auto simp: securities_defs Let_def getKey_def putKey_def entityTypes_def intro!: typed_SetEntity documentI)
  then show ?thesis unfolding securitiesLog_def using s by simp
qed

lemma typed_tokenOf: "tokenOf call a idx = Some (t, idx') \<Longrightarrow> typed (ixStore idx) \<Longrightarrow> typed (ixStore idx')"
  by (auto simp: tokenOf_def dest: typed_tokenCall)

lemma typed_seeToken: "typed (ixStore idx) \<Longrightarrow> typed (ixStore (after (seeToken call a idx)))"
  by (auto simp: seeToken_def dest: typed_tokenOf split: option.splits)

lemma typed_onStore: "typed (f (ixStore idx)) \<Longrightarrow> typed (ixStore (onStore f idx))"
  by (simp add: onStore_def)

lemma typed_andThen:
  "typed (ixStore (after r)) \<Longrightarrow> (\<And>i. typed (ixStore i) \<Longrightarrow> typed (ixStore (after (f i)))) \<Longrightarrow> typed (ixStore (after (andThen r f)))"
  by (cases r) (simp_all add: andThen_def)

lemma typed_seedPool: "typed (ixStore idx) \<Longrightarrow> typed (ixStore (after (seedPoolWithTokens call p t0 t1 fee idx)))"
  unfolding seedPoolWithTokens_def by (intro typed_andThen typed_seeToken typed_onStore typed_seeds)

lemma typed_pairSide: "pairSide call a idx = Some (sy, idx') \<Longrightarrow> typed (ixStore idx) \<Longrightarrow> typed (ixStore idx')"
  by (auto simp: pairSide_def dest: typed_tokenOf)

lemma getKey_mergeKeys: "k \<notin> set ks \<Longrightarrow> getKey (mergeKeys ks em mk) k = getKey mk k"
proof -
  have "k \<notin> set ks \<Longrightarrow> getKey (foldl (\<lambda>mk k. case getKey em k of Some v \<Rightarrow> putKey k v mk | None \<Rightarrow> mk) mk ks) k = getKey mk k" for mk
    by (induction ks arbitrary: mk) (auto split: option.splits)
  then show "k \<notin> set ks \<Longrightarrow> ?thesis" by (simp add: mergeKeys_def)
qed

lemma market_type: "''Market'' \<in> set entityTypes" "''Fill'' \<in> set entityTypes" "''Order'' \<in> set entityTypes"
  by (simp_all add: entityTypes_def)

lemma typed_writeMarketV4: "typed s \<Longrightarrow> typed (writeMarketV4 p sy b t0 t1 fee s)"
  unfolding writeMarketV4_def Let_def
  by (intro typed_SetEntity documentI market_type) (auto simp: getKey_mergeKeys split: val.split, simp_all add: getKey_def)

lemma typed_market_id:
  "typed s \<Longrightarrow> GetByType s ''Market'' p = VMap mm \<Longrightarrow> getKey mm ''id'' = Some (VStr p)"
  by (auto simp: GetByType_def split: option.splits dest!: typed_row[OF _ market_type(1)])

lemma typed_writeFill: "typed s \<Longrightarrow> typed (writeFill i p t a ts tx s)"
proof -
  assume "typed s"
  then have f: "typed (SetEntity ''Fill'' i (VMap
            [(''id'', VStr i), (''market'', VStr p), (''taker'', VStr t),
             (''amountOut'', VStr (intText 10 a)), (''timestamp'', VInt ts), (''txHash'', VStr tx)]) s)" (is "typed ?s")
    by (intro typed_SetEntity documentI market_type) (simp_all add: getKey_def)
  show ?thesis
    unfolding writeFill_def Let_def
    by (cases "GetByType ?s ''Market'' p")
       (auto intro!: typed_SetEntity[OF f] documentI market_type simp: typed_market_id[OF f] getKey_def[of "_ # _"])
qed

lemma typed_initialize: "typed (ixStore idx) \<Longrightarrow> typed (ixStore (after (handleInitializeV4 call l idx)))"
  unfolding handleInitializeV4_def Let_def
  by (auto intro!: typed_andThen typed_seedPool typed_onStore typed_writeMarketV4 dest!: typed_pairSide split: option.splits)

lemma typed_processLog: "typed (ixStore idx) \<Longrightarrow> typed (ixStore (after (processLog call l idx)))"
proof -
  assume s: "typed (ixStore idx)"
  have "typed (ixStore (handleSwapV2 l n tx i idx))" "typed (ixStore (handleSwapV3 l n tx i idx))"
    "typed (ixStore (handleSwapV4 l n tx i idx))" "typed (ixStore (handleDEXFill l n tx i idx))"
    "typed (ixStore (after (handlePairCreated call l idx)))" "typed (ixStore (after (handlePoolCreated call l idx)))"
    "typed (ixStore (after (handleTransfer call l idx)))" "typed (ixStore (onStore (securitiesLog sig l n tx i) idx))" for n tx i sig
    using s by (auto simp: handleSwapV2_def handleSwapV3_def handleSwapV4_def handleDEXFill_def handlePairCreated_def
        handlePoolCreated_def handleTransfer_def Let_def typed_seedPool typed_seeToken
        intro!: typed_onStore typed_seeds typed_writeFill typed_securities)
  then show ?thesis using s typed_initialize[OF s] by (auto simp: processLog_def Let_def split: list.split)
qed

section \<open>The jobs\<close>

lemma typed_processLogs: "processLogs call ls idx = (e, idx') \<Longrightarrow> typed (ixStore idx) \<Longrightarrow> typed (ixStore idx')"
proof (induction call ls idx rule: processLogs.induct)
  case (2 call l ls idx)
  then show ?case using typed_processLog[of idx call l] by (auto split: run.splits)
qed simp

lemma typed_regenesis: "typed (ixStore idx) \<Longrightarrow> typed (ixStore (maybeResetForRegenesis r h (ensureGenesisHash b idx)))"
  by (auto simp: maybeResetForRegenesis_def ensureGenesisHash_def Let_def typed_seeds split: option.splits)

lemma typed_scan: "typed (ixStore idx) \<Longrightarrow> typed (ixStore (snd (scan cv a b idx)))"
  by (auto simp: scan_def advance_def typed_seeds dest: typed_processLogs split: option.splits prod.splits pollEnd.splits)

lemma typed_poll: "typed (ixStore idx) \<Longrightarrow> typed (ixStore (snd (poll cv idx)))"
  by (auto simp: poll_def Let_def typed_regenesis typed_scan split: option.splits)

lemma typed_heal: "typed s \<Longrightarrow> typed (hlStore (healSwapTimes headers s))"
proof -
  have "typed (fst st) \<Longrightarrow> typed (fst (foldl (healRow clock) st rows))" for clock st rows
    by (induction rows arbitrary: st) (auto simp: healRow_def Let_def typed_seeds split: option.splits)
  from this[of "(s, 0)"] show "typed s \<Longrightarrow> ?thesis"
    by (simp add: healSwapTimes_def Let_def split: prod.split) (metis fst_conv)
qed

lemma typed_backfillRow: "backfillRow call (n, s, c) r = Some (n', s', c') \<Longrightarrow> typed s \<Longrightarrow> typed s'"
  by (auto simp: backfillRow_def Let_def dest: typed_tokenCall split: val.splits option.splits if_splits)

lemma typed_backfillRows: "backfillRows call ended i rs st = Some (ok, st') \<Longrightarrow> typed (fst (snd st)) \<Longrightarrow> typed (fst (snd st'))"
proof (induction call ended i rs st rule: backfillRows.induct)
  case (2 call ended i r rs st)
  obtain n s c where st: "st = (n, s, c)" by (cases st)
  show ?case
  proof (cases "ended i")
    case False
    then obtain n' s' c' where r: "backfillRow call st r = Some (n', s', c')" using 2(2) by (cases "backfillRow call st r") auto
    then have "typed s'" using typed_backfillRow 2(3) by (simp add: st)
    then show ?thesis using 2 False r by simp
  qed (use 2 in simp)
qed simp

lemma typed_backfill: "BackfillTokens call ended (s, c) = Some (ok, n, s', c') \<Longrightarrow> typed s \<Longrightarrow> typed s'"
  by (auto simp: BackfillTokens_def dest: typed_backfillRows split: val.splits)

section \<open>The valuation pass\<close>

definition byteScales :: "seedToken gomap \<times> store \<Rightarrow> bool" where
  "byteScales ts \<longleftrightarrow> list_all (byteScale \<circ> snd) (fst ts) \<and> typed (snd ts)"

lemma typed_valuePool: "typed (tlStore st) \<Longrightarrow> typed (tlStore (foldl (valuePool traded prices pools) st vps))"
  by (induction vps arbitrary: st) (auto simp: valuePool_def Let_def typed_seeds split: option.splits)

lemma typed_valueToken:
  "byteScales ts \<Longrightarrow> list_all (byteScale \<circ> snd) rows \<Longrightarrow> byteScales (foldl (valueToken tot prices usd) ts rows)"
proof (induction rows arbitrary: ts)
  case (Cons row rows)
  have "byteScales (valueToken tot prices usd ts row)"
    using Cons.prems by (auto simp: valueToken_def Let_def byteScales_def byteScale_def intro!: list_all_putKey typed_SeedToken)
  then show ?case using Cons by simp
qed simp

lemma byteScale_supply [simp]: "byteScale (t\<lparr>stTotalSupply := a, stStaked := b\<rparr>) = byteScale t"
  by (simp add: byteScale_def)

lemma typed_supply: "byteScales ts \<Longrightarrow> typed (snd (publishNativeSupply cfg view ts))"
proof -
  assume t: "byteScales ts"
  have a: "byteScale t" if "getKey (fst ts) a = Some t" for a t
    using that t by (auto simp: byteScales_def list_all_iff getKey_def dest!: map_of_SomeD)
  have b: "byteScale t" if "getKey (TokensRaw (snd ts)) a = Some t" for a t
    using that t by (auto simp: byteScales_def TokensRaw_def intro: typed_getToken)
  show ?thesis
    using t by (auto simp: publishNativeSupply_def Let_def byteScales_def intro!: typed_SeedToken intro: a b split: option.split)
qed

lemma typed_putRows:
  assumes "typed (snd ws)" "ty \<in> set entityTypes"
    "\<forall>c. \<exists>m. row c = VMap m \<and> getKey m ''id'' = Some (VStr (dayID (clSubject c) (clDate c)))"
  shows "typed (snd (foldl (putRow ty row) ws cells))"
  using assms(1)
proof (induction cells arbitrary: ws)
  case (Cons kc cells)
  have "document (entityKey ty (dayID (clSubject (snd kc)) (clDate (snd kc))), row (snd kc))"
    using assms(2,3) by (metis documentI)
  then have "typed (snd (putRow ty row ws kc))" using Cons.prems by (auto simp: putRow_def Let_def intro: typed_SetEntity)
  then show ?case using Cons.IH by simp
qed simp

lemma typed_writeSeries: "typed (snd ws) \<Longrightarrow> typed (snd (writeSeries sn ws))"
  unfolding writeSeries_def Let_def
  by (intro typed_putRows) (auto simp: entityTypes_def tokenDayRow_def poolDayRow_def factoryDayRow_def getKey_def)

lemma typed_revalue: "typed (snd ws) \<Longrightarrow> typed (snd (revalue cfg view ws))"
proof -
  assume t: "typed (snd ws)"
  have a: "typed (snd (publishAnchor n prices (snd ws)))" for n prices
    using t by (simp add: publishAnchor_def Let_def typed_seeds)
  have w: "typed (writeValues usd mark s)" if "typed s" for usd mark s
    using that by (simp add: writeValues_def Let_def typed_seeds typed_ValueSwaps)
  have k: "list_all (byteScale \<circ> snd) (TokensRaw (snd ws))" using t by (simp add: typed_def TokensRaw_def)
  show ?thesis
    unfolding revalue_def Let_def
    by (simp add: t split: prod.split)
       (intro allI impI typed_writeSeries; simp; intro typed_seeds typed_supply typed_valueToken k;
        simp add: byteScales_def k; intro typed_valuePool; simp; intro w; metis a snd_conv)
qed

section \<open>The source of native trades\<close>

lemma typed_writeTrade: "typed s \<Longrightarrow> typed (writeTrade t s)"
  unfolding writeTrade_def fillRow_def by (intro typed_SetEntity documentI market_type) (simp_all add: getKey_def)

lemma typed_writeOrder: "typed s \<Longrightarrow> typed (writeOrder p r s)"
  unfolding writeOrder_def orderRow_def by (intro typed_SetEntity documentI market_type) (simp_all add: getKey_def)

lemma typed_writeMarket: "typed s \<Longrightarrow> typed (writeMarket m s)"
proof -
  have "k \<notin> set ks \<Longrightarrow> getKey (foldl (carryKey em) mk ks) k = getKey mk k" for em mk k ks
    by (induction ks arbitrary: mk) (auto simp: carryKey_def split: option.splits)
  moreover have "''id'' \<notin> set accruedKeys" by (simp add: accruedKeys_def)
  moreover have "getKey (bookRow m) ''id'' = Some (VStr (mkPoolID m))" by (simp add: bookRow_def getKey_def)
  ultimately show "typed s \<Longrightarrow> ?thesis"
    unfolding writeMarket_def Let_def by (intro typed_SetEntity documentI market_type) (simp_all split: val.split)
qed

lemma typed_refresh: "typed s \<Longrightarrow> typed (refreshMarkets ask i ms s)"
proof (induction ask i ms s rule: refreshMarkets.induct)
  case (2 ask i m ms s)
  have "typed s \<Longrightarrow> typed (foldl (\<lambda>s r. writeOrder p r s) s rs)" for p rs s
    by (induction rs arbitrary: s) (simp_all add: typed_writeOrder)
  then show ?case using 2 typed_writeMarket[OF 2(2)] by (simp add: refreshOrders_def split: option.split)
qed simp

lemma typed_ingest: "typed (csStore c) \<Longrightarrow> typed (csStore (foldl ingestTrade c ts))"
  by (induction ts arbitrary: c) (simp_all add: ingestTrade_def onClob_def typed_writeTrade)

lemma typed_drain:
  assumes "drainTrades ask i c = Some r"
  shows "typed (csStore c) \<longrightarrow> typed (csStore (snd r))"
proof (rule drainTrades.raw_induct[where P = "\<lambda>ask i c r. typed (csStore c) \<longrightarrow> typed (csStore (snd r))", OF _ assms])
qed (auto simp: typed_ingest split: option.splits if_splits)

lemma typed_pollClob: "pollClob v c = Some (ok, c') \<Longrightarrow> typed (csStore c) \<Longrightarrow> typed (csStore c')"
  by (auto simp: pollClob_def onClob_def dest!: typed_drain[THEN mp] simp: typed_refresh split: option.splits)

section \<open>Runs of the daemon\<close>

text \<open>What the daemon holds: the indexer with its store, the cells the day series remembers, the fingerprint the store
records, and the source of native trades when one is configured.\<close>

record daemon =
  dmIndexer :: indexer
  dmCells :: "cell gomap"
  dmSource :: string
  dmClob :: "clobSource option"

datatype job =
    Poll chainView
  | DateSwaps "64 word list \<Rightarrow> batchAnswer option"
  | ValuePass valView
  | TradeTick clobView
  | Restart indexConfig string ethCalls "nat \<Rightarrow> bool"

definition daemonStore :: "daemon \<Rightarrow> store" where
  "daemonStore d = ixStore (dmIndexer d)"

definition putStore :: "store \<Rightarrow> daemon \<Rightarrow> daemon" where
  "putStore s d = d\<lparr>dmIndexer := (dmIndexer d)\<lparr>ixStore := s\<rparr>\<rparr>"

text \<open>Building the indexer over a store, with a source of native trades where \<open>dex\<close> names one, and the token pass that
  follows; None when the pass panics.\<close>

definition startDaemon :: "indexConfig \<Rightarrow> string \<Rightarrow> string \<Rightarrow> ethCalls \<Rightarrow> (nat \<Rightarrow> bool) \<Rightarrow> store \<Rightarrow> daemon option" where
  "startDaemon cfg dex was call ended s =
     (case NewWithConfig cfg was s of
        (idx, fp) \<Rightarrow>
          (case BackfillTokens call ended (ixStore idx, ixTokenCache idx) of
             None \<Rightarrow> None
           | Some (_, _, s', cache) \<Rightarrow>
               Some \<lparr>dmIndexer = idx\<lparr>ixStore := s', ixTokenCache := cache\<rparr>, dmCells = [], dmSource = fp,
                     dmClob = (if dex = '''' then None else Some (NewCLOBSource dex s'))\<rparr>))"

text \<open>A job that never ends, or one that a panic ends with the process, has no next state.\<close>

fun work :: "valConfig \<Rightarrow> job \<Rightarrow> daemon \<Rightarrow> daemon option" where
  "work cfg (Poll cv) d = Some (d\<lparr>dmIndexer := snd (pollGuarded cv (dmIndexer d))\<rparr>)"
| "work cfg (DateSwaps headers) d = Some (putStore (hlStore (healSwapTimes headers (daemonStore d))) d)"
| "work cfg (ValuePass view) d =
     (case revalue cfg view (dmCells d, daemonStore d) of (cells, s) \<Rightarrow> Some (putStore s (d\<lparr>dmCells := cells\<rparr>)))"
| "work cfg (TradeTick v) d =
     (case dmClob d of
        None \<Rightarrow> Some d
      | Some c \<Rightarrow>
          (case pollClob v (c\<lparr>csStore := daemonStore d\<rparr>) of
             None \<Rightarrow> None
           | Some (_, c') \<Rightarrow> Some (putStore (csStore c') (d\<lparr>dmClob := Some c'\<rparr>))))"
| "work cfg (Restart icfg dex call ended) d = startDaemon icfg dex (dmSource d) call ended (daemonStore d)"

inductive runs :: "valConfig \<Rightarrow> daemon \<Rightarrow> job list \<Rightarrow> daemon \<Rightarrow> bool" for cfg d where
  idle: "runs cfg d [] d"
| ran: "runs cfg d js d' \<Longrightarrow> work cfg j d' = Some d'' \<Longrightarrow> runs cfg d (js @ [j]) d''"

inductive_simps runs_nil [simp]: "runs cfg d [] d'"
inductive_cases runs_snoc: "runs cfg d (js @ [j]) d'"

lemma typed_start: "startDaemon cfg dex was call ended s = Some d \<Longrightarrow> typed s \<Longrightarrow> typed (daemonStore d)"
proof -
  assume a: "startDaemon cfg dex was call ended s = Some d" "typed s"
  obtain idx fp where n: "NewWithConfig cfg was s = (idx, fp)" by fastforce
  then have "typed (ixStore idx)" using a(2) by (auto simp: NewWithConfig_def Let_def split: if_splits)
  then show ?thesis using a(1) n by (auto simp: startDaemon_def daemonStore_def dest: typed_backfill split: option.splits)
qed

lemma typed_work: "work cfg j d = Some d' \<Longrightarrow> typed (daemonStore d) \<Longrightarrow> typed (daemonStore d')"
proof (induction cfg j d rule: work.induct)
  case (1 cfg cv d)
  then show ?case using typed_poll[of "dmIndexer d" cv] by (auto simp: daemonStore_def pollGuarded_def split: prod.splits)
next
  case (2 cfg headers d)
  then show ?case using typed_heal[of "daemonStore d" headers] by (auto simp: daemonStore_def putStore_def)
next
  case (3 cfg view d)
  then show ?case using typed_revalue[of "(dmCells d, daemonStore d)" cfg view]
    by (auto simp: daemonStore_def putStore_def split: prod.splits)
next
  case (4 cfg v d)
  then show ?case by (auto simp: daemonStore_def putStore_def dest!: typed_pollClob split: option.splits)
next
  case (5 cfg icfg dex call ended d)
  then show ?case by (auto dest: typed_start)
qed


section \<open>A run\<close>

definition exDay :: chainView where
  "exDay =
     \<lparr>cvHead = Some ''0x6'', cvBaseline = Some ''0xa'', cvProbe = Some ''0xa'', cvLogs = (\<lambda>_ _. Some [exPair, exFreeze]),
      cvHeaders = (\<lambda>bs. Some (map (\<lambda>i. (int i, Some (Some ''0x40''))) [1..<Suc (length bs)])), cvCalls = exCalls\<rparr>"

definition exPassConfig :: valConfig where
  "exPassConfig = \<lparr>vcNative = '''', vcGenesisSupply = '''', vcTreasury = '''', vcRPC = ''''\<rparr>"

definition exJobs :: "job list" where
  "exJobs = [Poll exDay, Restart exConfig '''' exCalls (\<lambda>_. False)]"

definition exStart :: "daemon option" where
  "exStart = startDaemon exConfig '''' '''' exCalls (\<lambda>_. False) NewStore"

definition exEnd :: "daemon option" where
  "exEnd = Option.bind exStart (\<lambda>d. Option.bind (work exPassConfig (exJobs ! 0) d) (work exPassConfig (exJobs ! 1)))"

lemma runs_two: "work cfg j d = Some d' \<Longrightarrow> work cfg k d' = Some d'' \<Longrightarrow> runs cfg d [j, k] d''"
  using runs.ran[OF runs.ran[OF runs.idle]] by fastforce


end
