(* ===== verification/Subgraph.thy ===== *)
theory Subgraph
  imports Store
begin

text \<open>
  The subgraph runtime, src/wasm/runtime.go: the entity cache, the loader of a compiled subgraph and the event entry.

  The file system is the parameter \<open>file\<close>, the bytes of a path or None when it cannot be read; the YAML decoder, a package
  outside the repository, is the parameter \<open>yaml\<close>.  A map of maps of maps is nested association lists; a nil map is the
  empty one.  \<open>filepath.Join\<close> and the \<open>Clean\<close> it applies are those of a Unix system.  \<open>Info\<close>, a JSON text, is not modelled.
\<close>

section \<open>The entity cache\<close>

type_synonym entityCache = "val gomap gomap gomap"

definition NewEntityStore :: entityCache where
  "NewEntityStore = []"

definition setEntity :: "string \<Rightarrow> string \<Rightarrow> val gomap \<Rightarrow> entityCache \<Rightarrow> entityCache" where
  "setEntity entityType i data es =
     (let es1 = (if getKey es entityType = None then putKey entityType [] es else es)
      in putKey entityType (putKey i data (the (getKey es1 entityType))) es1)"

definition getEntity :: "entityCache \<Rightarrow> string \<Rightarrow> string \<Rightarrow> val gomap \<times> bool" where
  "getEntity es entityType i =
     (case getKey es entityType of
        None \<Rightarrow> ([], False)
      | Some m \<Rightarrow> (case getKey m i of None \<Rightarrow> ([], False) | Some data \<Rightarrow> (data, True)))"

definition Flush :: "entityCache \<Rightarrow> entityCache \<times> entityCache" where
  "Flush es = (es, NewEntityStore)"

text \<open>The host functions keep the entity contract of the store.\<close>

lemma getEntity_set:
  "getEntity (setEntity t i d es) t' i' = (if (t', i') = (t, i) then (d, True) else getEntity es t' i')"
  by (auto simp: setEntity_def getEntity_def Let_def getKey_def[of "[]"] split: option.splits)

lemma getEntity_empty [simp]: "getEntity [] t i = ([], False)"
  by (simp add: getEntity_def getKey_def)

interpretation cache: entity_store setEntity getEntity "\<lambda>d. (d, True)" "\<lambda>_. True"
  by unfold_locales (auto simp: getEntity_set)

section \<open>Files\<close>

text \<open>The elements of a path between its slashes, and the walk of \<open>Clean\<close> over them.\<close>

fun elements :: "string \<Rightarrow> string \<Rightarrow> string list" where
  "elements acc [] = [rev acc]"
| "elements acc (c # cs) = (if c = CHR ''/'' then rev acc # elements [] cs else elements (c # acc) cs)"

fun cleanStep :: "bool \<Rightarrow> string list \<Rightarrow> string \<Rightarrow> string list" where
  "cleanStep rooted out e =
     (if e = '''' \<or> e = ''.'' then out
      else if e = ''..'' then
        (case out of
           p # ps \<Rightarrow> if p = ''..'' then e # out else ps
         | [] \<Rightarrow> if rooted then [] else [e])
      else e # out)"

definition cleanPath :: "string \<Rightarrow> string" where
  "cleanPath p =
     (let rooted = (p \<noteq> [] \<and> hd p = CHR ''/'');
          text = joinWith ''/'' (rev (foldl (cleanStep rooted) [] (elements [] p)))
      in if rooted then CHR ''/'' # text else if text = '''' then ''.'' else text)"

definition joinPath :: "string list \<Rightarrow> string" where
  "joinPath es =
     (case filter (\<lambda>e. e \<noteq> '''') es of [] \<Rightarrow> '''' | ps \<Rightarrow> cleanPath (joinWith ''/'' ps))"

section \<open>Loading\<close>

record contractSource =
  ctAddress :: string
  ctABI :: string
  ctStartBlock :: int

record abiRef =
  abName :: string
  abFile :: string

record eventHandler =
  ehEvent :: string
  ehHandler :: string

record mapping =
  mpKind :: string
  mpAPIVersion :: string
  mpLanguage :: string
  mpFile :: string
  mpEntities :: "string list"
  mpABIs :: "abiRef list"
  mpEventHandlers :: "eventHandler list"

record dataSource =
  dsName :: string
  dsKind :: string
  dsNetwork :: string
  dsSource :: contractSource
  dsMapping :: mapping
  dsWasmBytes :: string

record sgTemplate =
  tmName :: string
  tmKind :: string
  tmMapping :: mapping

record subgraphManifest =
  mfSpecVersion :: string
  mfDescription :: string
  mfSchemaFile :: string
  mfDataSources :: "dataSource list"
  mfTemplates :: "sgTemplate list"

record subgraph =
  sgName :: string
  sgSchema :: string
  sgDataSources :: "dataSource list"
  sgTemplates :: "sgTemplate list"
  sgEntities :: entityCache

datatype loadError = ReadManifest | ParseManifest | ReadSchema | LoadWasm string

type_synonym files = "string \<Rightarrow> string option"

definition wasmPath :: "string \<Rightarrow> string \<Rightarrow> string" where
  "wasmPath buildDir name = joinPath [buildDir, name, name @ ''.wasm'']"

fun loadModules :: "files \<Rightarrow> string \<Rightarrow> dataSource list \<Rightarrow> loadError + dataSource list" where
  "loadModules file buildDir [] = Inr []"
| "loadModules file buildDir (ds # rest) =
     (case file (wasmPath buildDir (dsName ds)) of
        None \<Rightarrow> Inl (LoadWasm (dsName ds))
      | Some wasm \<Rightarrow>
          (case loadModules file buildDir rest of
             Inl e \<Rightarrow> Inl e
           | Inr out \<Rightarrow> Inr (ds\<lparr>dsWasmBytes := wasm\<rparr> # out)))"

definition schemaPathOf :: "string \<Rightarrow> subgraphManifest \<Rightarrow> string" where
  "schemaPathOf buildDir m =
     (if mfSchemaFile m = '''' then joinPath [buildDir, ''schema.graphql''] else joinPath [buildDir, mfSchemaFile m])"

definition LoadSubgraph :: "files \<Rightarrow> (string \<Rightarrow> subgraphManifest option) \<Rightarrow> string \<Rightarrow> loadError + subgraph" where
  "LoadSubgraph file yaml buildDir =
     (case file (joinPath [buildDir, ''subgraph.yaml'']) of
        None \<Rightarrow> Inl ReadManifest
      | Some raw \<Rightarrow>
          (case yaml raw of
             None \<Rightarrow> Inl ParseManifest
           | Some m \<Rightarrow>
               (case file (schemaPathOf buildDir m) of
                  None \<Rightarrow> Inl ReadSchema
                | Some schema \<Rightarrow>
                    (case loadModules file buildDir (mfDataSources m) of
                       Inl e \<Rightarrow> Inl e
                     | Inr sources \<Rightarrow>
                         Inr \<lparr>sgName = mfDescription m, sgSchema = schema, sgDataSources = sources,
                              sgTemplates = mfTemplates m, sgEntities = NewEntityStore\<rparr>))))"

section \<open>Events\<close>

record wasmLog =
  wlAddress :: string
  wlTopics :: "string list"
  wlData :: string
  wlBlockNumber :: "64 word"
  wlTxHash :: string
  wlLogIndex :: "64 word"
  wlTimestamp :: "64 word"

text \<open>The loop visits every handler of every source and does nothing with it; the error is always nil.\<close>

definition HandleEvent :: "wasmLog \<Rightarrow> subgraph \<Rightarrow> subgraph" where
  "HandleEvent l sg =
     (if wlTopics l = [] then sg
      else foldl (\<lambda>sg ds. foldl (\<lambda>sg handler. sg) sg (mpEventHandlers (dsMapping ds))) sg (sgDataSources sg))"

lemma HandleEvent_idle [simp]: "HandleEvent l sg = sg"
proof -
  have n: "foldl (\<lambda>a b. a) a bs = (a :: 'y)" for a and bs :: "'z list" by (induction bs) auto
  have "foldl (\<lambda>sg ds. foldl (\<lambda>sg handler. sg) sg (mpEventHandlers (dsMapping ds))) sg dss = sg" for dss
    by (induction dss) (simp_all add: n)
  from this[of "sgDataSources sg"] show ?thesis by (simp add: HandleEvent_def)
qed

section \<open>What a loaded subgraph has\<close>

lemma loadModules_find:
  "loadModules file dir dss =
     (case find (\<lambda>ds. file (wasmPath dir (dsName ds)) = None) dss of
        Some ds \<Rightarrow> Inl (LoadWasm (dsName ds))
      | None \<Rightarrow> Inr (map (\<lambda>ds. ds\<lparr>dsWasmBytes := the (file (wasmPath dir (dsName ds)))\<rparr>) dss))"
  by (induction dss) (auto split: option.splits)

text \<open>A subgraph loads exactly when its manifest can be read and parsed, its schema can be read, and the module of every
data source can be read; it then carries that schema, each source with the bytes of its own module, and no entity.\<close>

theorem subgraph_loads_whole:
  "LoadSubgraph file yaml dir = Inr sg \<longleftrightarrow>
     (\<exists>raw m schema. file (joinPath [dir, ''subgraph.yaml'']) = Some raw \<and> yaml raw = Some m \<and>
        file (schemaPathOf dir m) = Some schema \<and>
        (\<forall>ds \<in> set (mfDataSources m). file (wasmPath dir (dsName ds)) \<noteq> None) \<and>
        sg = \<lparr>sgName = mfDescription m, sgSchema = schema,
              sgDataSources = map (\<lambda>ds. ds\<lparr>dsWasmBytes := the (file (wasmPath dir (dsName ds)))\<rparr>) (mfDataSources m),
              sgTemplates = mfTemplates m, sgEntities = []\<rparr>)"
proof -
  have f: "find (\<lambda>ds. file (wasmPath dir (dsName ds)) = None) dss = None \<longleftrightarrow>
      (\<forall>ds \<in> set dss. file (wasmPath dir (dsName ds)) \<noteq> None)" for dss by (auto simp: find_None_iff)
  show ?thesis
  proof (cases "file (joinPath [dir, ''subgraph.yaml''])")
    case (Some raw)
    show ?thesis
    proof (cases "yaml raw")
      case (Some m)
      then show ?thesis
        using \<open>file (joinPath [dir, ''subgraph.yaml'']) = Some raw\<close> f[of "mfDataSources m"]
        by (auto simp: LoadSubgraph_def loadModules_find NewEntityStore_def split: option.splits)
    qed (simp add: LoadSubgraph_def Some)
  qed (simp add: LoadSubgraph_def)
qed

section \<open>What a flush gives\<close>

datatype hostCall = Sets string string "val gomap" | Happens wasmLog

fun hostStep :: "subgraph \<Rightarrow> hostCall \<Rightarrow> subgraph" where
  "hostStep sg (Sets t i d) = sg\<lparr>sgEntities := setEntity t i d (sgEntities sg)\<rparr>"
| "hostStep sg (Happens l) = HandleEvent l sg"

fun setsOf :: "hostCall list \<Rightarrow> (string \<times> string \<times> val gomap) list" where
  "setsOf [] = []"
| "setsOf (Sets t i d # hs) = (t, i, d) # setsOf hs"
| "setsOf (Happens l # hs) = setsOf hs"

lemma host_entities: "sgEntities (foldl hostStep sg hs) = cache.putAll (setsOf hs) (sgEntities sg)"
  by (induction hs arbitrary: sg rule: setsOf.induct) (simp_all add: cache.putAll_def)

text \<open>C39: A flush gives what the handlers set since the one before: under each type and id the last document set, and nothing
else; after it the cache is empty.  Events that arrive in between add nothing.\<close>

theorem flush_gives_what_was_set:
  "getEntity (fst (Flush (sgEntities (foldl hostStep (sg\<lparr>sgEntities := snd (Flush es)\<rparr>) hs)))) t i =
     (case lastWrite (setsOf hs) t i of Some d \<Rightarrow> (d, True) | None \<Rightarrow> ([], False)) \<and>
   getEntity (snd (Flush es')) t i = ([], False)"
  using cache.putAll_reads[where ws = "setsOf hs" and s = "[]" and t = t and i = i]
  by (auto simp: Flush_def host_entities NewEntityStore_def split: option.split)

section \<open>A build directory\<close>

definition exSource :: dataSource where
  "exSource =
     \<lparr>dsName = ''Factory'', dsKind = ''ethereum'', dsNetwork = ''lux'',
      dsSource = \<lparr>ctAddress = '''', ctABI = ''Factory'', ctStartBlock = 0\<rparr>,
      dsMapping = \<lparr>mpKind = '''', mpAPIVersion = '''', mpLanguage = '''', mpFile = '''', mpEntities = [], mpABIs = [],
        mpEventHandlers = []\<rparr>, dsWasmBytes = ''''\<rparr>"

definition exManifest :: subgraphManifest where
  "exManifest =
     \<lparr>mfSpecVersion = '''', mfDescription = ''v2'', mfSchemaFile = '''', mfDataSources = [exSource], mfTemplates = []\<rparr>"

definition exFiles :: files where
  "exFiles p =
     (if p = ''build/subgraph.yaml'' then Some ''manifest'' else if p = ''build/schema.graphql'' then Some ''type Pair''
      else if p = ''build/Factory/Factory.wasm'' then Some ''code'' else None)"

theorem subgraph_loads_whole_witness:
  "LoadSubgraph exFiles (\<lambda>_. Some exManifest) ''./build//'' =
     Inr \<lparr>sgName = ''v2'', sgSchema = ''type Pair'', sgDataSources = [exSource\<lparr>dsWasmBytes := ''code''\<rparr>], sgTemplates = [],
          sgEntities = []\<rparr>"
proof -
  have p: "joinPath [''./build//'', ''subgraph.yaml''] = ''build/subgraph.yaml''"
    "schemaPathOf ''./build//'' exManifest = ''build/schema.graphql''"
    "wasmPath ''./build//'' (dsName exSource) = ''build/Factory/Factory.wasm''" by code_simp+
  show ?thesis unfolding subgraph_loads_whole by (simp add: p) (simp add: exFiles_def exManifest_def p)
qed

end
