(* ===== verification/Server.thy ===== *)
theory Server
  imports Cursor Engine Daemon
begin

text \<open>
  The HTTP endpoints of the daemon, src/cmd/graphd/main.go and src/cmd/graphd/metrics.go: the query endpoint with its
  counters, the probes, the metrics page, the index page, and the table that leads a request to one of them.

  A request body is what the JSON decoder makes of it.  A query that panics aborts its connection, which is the server's
  recovery of a handler.  The token list and the quote are those of Tokens and QuoteAnswer; here they are only
  places a request is led to.  Counters are 64-bit words.  Redirects of a path that is not clean are not modelled.
\<close>

record metrics =
  mtQueryCount :: "64 word"
  mtQueryErrors :: "64 word"
  mtBlockHeight :: "64 word"

definition noMetrics :: metrics where
  "noMetrics = \<lparr>mtQueryCount = 0, mtQueryErrors = 0, mtBlockHeight = 0\<rparr>"

datatype requestBody = Undecodable | Asks string

datatype reply = Text nat string | Answer response | Aborted

definition newline :: string where "newline = [CHR 0x0A]"

definition inQuotes :: "string \<Rightarrow> string" where
  "inQuotes s = CHR 0x22 # s @ [CHR 0x22]"

definition invalidJSON :: reply where
  "invalidJSON =
     Text 400 (''{'' @ inQuotes ''errors'' @ '':[{'' @ inQuotes ''message'' @ '':'' @ inQuotes ''invalid JSON'' @ ''}]}'' @ newline)"

section \<open>Queries\<close>

definition HandleGraphQL :: "engine \<Rightarrow> requestBody \<Rightarrow> reply" where
  "HandleGraphQL e body =
     (case body of
        Undecodable \<Rightarrow> invalidJSON
      | Asks q \<Rightarrow>
          (case Execute e q of Panics \<Rightarrow> Aborted | Fails err \<Rightarrow> Answer (Errors [err]) | Gives resp \<Rightarrow> Answer resp))"

definition queryEndpoint :: "engine \<Rightarrow> indexer \<Rightarrow> requestBody \<Rightarrow> metrics \<Rightarrow> reply \<times> metrics" where
  "queryEndpoint e idx body m =
     (let m1 = m\<lparr>mtQueryCount := mtQueryCount m + 1, mtBlockHeight := ixLatestBlock idx\<rparr>;
          failed = m1\<lparr>mtQueryErrors := mtQueryErrors m1 + 1\<rparr>
      in case body of
           Undecodable \<Rightarrow> (invalidJSON, failed)
         | Asks q \<Rightarrow>
             (case Execute e q of
                Panics \<Rightarrow> (Aborted, m1)
              | Fails err \<Rightarrow> (Answer (Errors [err]), failed)
              | Gives (Errors errs) \<Rightarrow> (Answer (Errors errs), if errs \<noteq> [] then failed else m1)
              | Gives (Data d) \<Rightarrow> (Answer (Data d), m1)))"

section \<open>Probes and pages\<close>

definition unsigned :: "64 word \<Rightarrow> string" where
  "unsigned w = natText 10 (unat w)"

definition healthEndpoint :: "indexer \<Rightarrow> reply" where
  "healthEndpoint idx = Text 200
     (''{'' @ inQuotes ''status'' @ '':'' @ inQuotes ''ok'' @ '','' @ inQuotes ''block'' @ '':'' @ unsigned (ixLatestBlock idx) @ '',''
       @ inQuotes ''indexed'' @ '':'' @ unsigned (ixIndexedEvents idx) @ ''}'')"

definition readyEndpoint :: "indexer \<Rightarrow> reply" where
  "readyEndpoint idx =
     (if ixLatestBlock idx = 0
      then Text 503 (''{'' @ inQuotes ''ready'' @ '':false,'' @ inQuotes ''reason'' @ '':''
             @ inQuotes ''indexer has not processed any blocks'' @ ''}'')
      else Text 200 (''{'' @ inQuotes ''ready'' @ '':true,'' @ inQuotes ''block'' @ '':'' @ unsigned (ixLatestBlock idx) @ ''}''))"

definition metricLines :: "string \<Rightarrow> string \<Rightarrow> string \<Rightarrow> 64 word \<Rightarrow> string" where
  "metricLines name help kind w =
     ''# HELP '' @ name @ '' '' @ help @ newline @ ''# TYPE '' @ name @ '' '' @ kind @ newline
       @ name @ '' '' @ intText 10 (sint w) @ newline"

definition handleMetrics :: "metrics \<Rightarrow> reply" where
  "handleMetrics m = Text 200
     (metricLines ''graph_query_count'' ''Total GraphQL queries processed.'' ''counter'' (mtQueryCount m)
      @ metricLines ''graph_query_errors'' ''Total GraphQL queries that returned errors.'' ''counter'' (mtQueryErrors m)
      @ metricLines ''graph_indexer_block_height'' ''Latest indexed block number.'' ''gauge'' (mtBlockHeight m))"

definition indexPage :: "string \<Rightarrow> string \<Rightarrow> reply" where
  "indexPage version env = Text 200
     (''{'' @ inQuotes ''name'' @ '':'' @ inQuotes ''graph'' @ '','' @ inQuotes ''version'' @ '':'' @ inQuotes version @ '',''
       @ inQuotes ''graphql'' @ '':'' @ inQuotes (mountPrefix env @ ''/graphql'') @ ''}'')"

section \<open>Counting\<close>

fun queries :: "engine \<Rightarrow> indexer \<Rightarrow> requestBody list \<Rightarrow> metrics \<Rightarrow> reply list \<times> metrics" where
  "queries e idx [] m = ([], m)"
| "queries e idx (b # bs) m =
     (case queryEndpoint e idx b m of (r, m') \<Rightarrow> (case queries e idx bs m' of (rs, m'') \<Rightarrow> (r # rs, m'')))"

definition refusal :: "reply \<Rightarrow> bool" where
  "refusal r \<longleftrightarrow> (case r of Text n _ \<Rightarrow> n = 400 | Answer (Errors errs) \<Rightarrow> errs \<noteq> [] | _ \<Rightarrow> False)"

lemma queryEndpoint_counts:
  "queryEndpoint e idx b m = (r, m') \<Longrightarrow>
   r = HandleGraphQL e b \<and> mtQueryCount m' = mtQueryCount m + 1 \<and> mtQueryErrors m' = mtQueryErrors m + (if refusal r then 1 else 0)
     \<and> mtBlockHeight m' = ixLatestBlock idx"
  by (auto simp: queryEndpoint_def HandleGraphQL_def refusal_def invalidJSON_def Let_def
      split: requestBody.splits outcome.splits response.splits if_splits)

lemma queries_count:
  "queries e idx bs m = (rs, m') \<Longrightarrow>
   rs = map (HandleGraphQL e) bs \<and> mtQueryCount m' = mtQueryCount m + of_nat (length bs) \<and>
   mtQueryErrors m' = mtQueryErrors m + of_nat (length (filter refusal rs))"
proof (induction bs arbitrary: m rs)
  case (Cons b bs)
  then show ?case by (auto simp: algebra_simps split: prod.splits dest!: queryEndpoint_counts)
qed simp

text \<open>Both query endpoints give the same answers, and the counters are right: after any sequence of requests the page shows
how many were asked and how many were refused; a query whose handler panics is counted as asked and never as refused.\<close>

theorem metrics_count_queries:
  "fst (queries e idx bs noMetrics) = map (HandleGraphQL e) bs \<and>
   mtQueryCount (snd (queries e idx bs noMetrics)) = of_nat (length bs) \<and>
   mtQueryErrors (snd (queries e idx bs noMetrics)) = of_nat (length (filter refusal (map (HandleGraphQL e) bs)))"
  using queries_count[of e idx bs noMetrics "fst (queries e idx bs noMetrics)" "snd (queries e idx bs noMetrics)"]
  by (simp add: noMetrics_def)

section \<open>Readiness\<close>

text \<open>A view of a chain that has no block the cursor has not passed, and is not far below it.\<close>

definition idleView :: "64 word \<Rightarrow> chainView \<Rightarrow> bool" where
  "idleView cursor cv \<longleftrightarrow> (case head cv of None \<Rightarrow> True | Some h \<Rightarrow> h \<le> cursor \<and> \<not> h + reorgDepth < cursor)"

lemma idle_poll:
  assumes "idleView (ixLastBlock idx) cv"
  shows "ixLatestBlock (snd (poll cv idx)) = ixLatestBlock idx \<and> ixLastBlock (snd (poll cv idx)) = ixLastBlock idx \<and>
    ixIndexedEvents (snd (poll cv idx)) = ixIndexedEvents idx"
proof (cases "head cv")
  case (Some h)
  let ?g = "ensureGenesisHash (cvBaseline cv) idx"
  have g: "ixLastBlock ?g = ixLastBlock idx" "ixLatestBlock ?g = ixLatestBlock idx" "ixIndexedEvents ?g = ixIndexedEvents idx"
    by (auto simp: ensureGenesisHash_def split: option.splits)
  have "\<not> farBelow h ?g" using assms Some g by (simp add: farBelow_def idleView_def)
  then show ?thesis using assms Some g by (simp add: poll_def maybeResetForRegenesis_def Let_def idleView_def)
qed (simp add: poll_def)

text \<open>C22: A daemon that is restarted at the head of a chain is not ready, whatever it has indexed before, until the chain
produces a block: polls that find nothing new leave the probe at 503 and the block it reports at 0.\<close>

theorem restart_stays_unready:
  assumes "reached cfg was s cvs idx" "\<forall>cv \<in> set cvs. idleView (ixLastBlock (fst (NewWithConfig cfg was s))) cv"
  shows "ixLastBlock idx = ixLastBlock (fst (NewWithConfig cfg was s)) \<and> (\<exists>body. readyEndpoint idx = Text 503 body)"
proof -
  have "ixLastBlock idx = ixLastBlock (fst (NewWithConfig cfg was s)) \<and> ixLatestBlock idx = 0"
    using assms
  proof (induction rule: reached.induct)
    case built
    then show ?case by (simp add: NewWithConfig_def Let_def)
  next
    case (polled cvs idx cv)
    then show ?case using idle_poll[of idx cv] by simp
  qed
  then show ?thesis by (simp add: readyEndpoint_def)
qed

definition exCaughtUp :: store where
  "exCaughtUp = SetLastBlock 1000 NewStore"

theorem restart_stays_unready_witness:
  "\<exists>body. readyEndpoint (snd (poll (exView ''0x3e8'' ''0xa'' ''0xa'') (fst (NewWithConfig exConfig '''' exCaughtUp)))) = Text 503 body"
proof -
  have "idleView (ixLastBlock (fst (NewWithConfig exConfig '''' exCaughtUp))) (exView ''0x3e8'' ''0xa'' ''0xa'')" by code_simp
  moreover have "reached exConfig '''' exCaughtUp [exView ''0x3e8'' ''0xa'' ''0xa'']
      (snd (poll (exView ''0x3e8'' ''0xa'' ''0xa'') (fst (NewWithConfig exConfig '''' exCaughtUp))))"
    using reached.polled[OF reached.built] by fastforce
  ultimately show ?thesis using restart_stays_unready by force
qed

section \<open>Where a request goes\<close>

datatype endpoint = QueryPost | QueryPage | TokenList | QuotePost | Health | Ready | MetricsPage | IndexPage

definition endpoints :: "bool \<Rightarrow> string \<Rightarrow> ((string \<times> string) \<times> endpoint) list" where
  "endpoints identified env =
     zip (routeTable identified env)
       ([QueryPost, QueryPage] @ (if identified then [TokenList, QuotePost] else [])
        @ [QueryPost, QueryPage, Health, Ready, MetricsPage, IndexPage])"

text \<open>The most specific pattern wins: an exact path before the subtree below the prefix, which the table holds last.\<close>

definition dispatch :: "bool \<Rightarrow> string \<Rightarrow> httpRequest \<Rightarrow> endpoint option" where
  "dispatch identified env r = map_option snd (find (\<lambda>(route, _). matchesRoute r route) (endpoints identified env))"

lemma endpoints_routes [simp]: "map fst (endpoints identified env) = routeTable identified env"
  by (simp add: endpoints_def routeTable_def Let_def)

lemma dispatch_routed: "dispatch identified env r \<noteq> None \<longleftrightarrow> routed identified env r"
proof -
  have "find (\<lambda>(route, _). matchesRoute r route) m = None \<longleftrightarrow> \<not> list_ex (matchesRoute r) (map fst m)" for m :: "((string \<times> string) \<times> endpoint) list"
    by (induction m) auto
  then show ?thesis by (auto simp: dispatch_def routed_def simp flip: endpoints_routes)
qed

definition getNames :: "bool \<Rightarrow> string list" where
  "getNames identified =
     [''graphql'', ''ql'', ''health'', ''ready'', ''metrics''] @ (if identified then [''swappable_tokens''] else [])"

text \<open>A read below the prefix that names no endpoint is answered by the index page, with success: so is the token list of a
daemon whose node did not say which chain it is.\<close>

theorem unlisted_reads_get_the_index:
  assumes "rqMethod r = ''GET'' \<or> rqMethod r = ''HEAD''" "rqPath r = mountPrefix env @ ''/'' @ x" "x \<notin> set (getNames identified)"
  shows "dispatch identified env r = Some IndexPage"
proof -
  let ?p = "mountPrefix env"
  have post: "\<not> matchesRoute r (''POST'', q)" for q using assms(1) by (auto simp: matchesRoute_def)
  have get: "matchesRoute r (''GET'', ?p @ CHR ''/'' # c # n) \<longleftrightarrow> x = c # n" if "last (c # n) \<noteq> CHR ''/''" for c n
    using assms(1) that by (auto simp: matchesRoute_def assms(2))
  have page: "matchesRoute r (''GET'', ?p @ ''/'')"
    using assms(1) by (auto simp: matchesRoute_def assms(2) hasPrefix_def)
  show ?thesis
    using assms(3) by (cases identified) (simp_all add: dispatch_def endpoints_def routeTable_def Let_def getNames_def post get page)
qed

definition exRead :: "string \<Rightarrow> httpRequest" where
  "exRead p = \<lparr>rqMethod = ''GET'', rqPath = ''/v1/explorer/'' @ p, rqHeaders = [], rqRemoteAddr = ''10.0.0.1:5000''\<rparr>"

theorem unlisted_reads_get_the_index_witness: "dispatch False '''' (exRead ''swappable_tokens'') = Some IndexPage"
  by (rule unlisted_reads_get_the_index[of _ _ "''swappable_tokens''"]) (simp_all add: exRead_def mountPrefix_def getNames_def)

end
