(* ===== verification/Replicate.thy ===== *)
theory Replicate
  imports Erc20
begin

text \<open>
  The copy of the database file to an object store, src/storage/replicate.go: what the environment makes of it, and when
  there is none.

  \<open>env\<close> is the environment, the empty text for a name that is not set.  The host name, the two packages outside the
  repository (replication and encryption keys) and the duration syntax of the library are the fields of \<open>replicaWorld\<close>.
  \<open>url.PathEscape\<close> and \<open>url.QueryEscape\<close> are modelled as the library documents them.
\<close>

section \<open>Escapes\<close>

definition unreserved :: "char \<Rightarrow> bool" where
  "unreserved c \<longleftrightarrow>
     (let b = byteOf c in
      (97 \<le> b \<and> b \<le> 122) \<or> (65 \<le> b \<and> b \<le> 90) \<or> (48 \<le> b \<and> b \<le> 57) \<or> c \<in> set ''-_.~'')"

definition upperHex :: "nat \<Rightarrow> char" where
  "upperHex d = char_of (if d < 10 then 48 + d else 55 + d)"

definition percent :: "char \<Rightarrow> string" where
  "percent c = [CHR ''%'', upperHex (byteOf c div 16), upperHex (byteOf c mod 16)]"

definition QueryEscape :: "string \<Rightarrow> string" where
  "QueryEscape s =
     concat (map (\<lambda>c. if unreserved c then [c] else if c = CHR '' '' then ''+'' else percent c) s)"

definition PathEscape :: "string \<Rightarrow> string" where
  "PathEscape s = concat (map (\<lambda>c. if unreserved c \<or> c \<in> set ''$&+=:@'' then [c] else percent c) s)"

section \<open>Starting\<close>

record ('r, 'i) replicaWorld =
  rwHostname :: "string option"
  rwClientAccepts :: "string \<Rightarrow> bool"
  rwOpens :: bool
  rwDuration :: "string \<Rightarrow> int option"
  rwRecipients :: "string \<Rightarrow> 'r list option"
  rwIdentities :: "string \<Rightarrow> 'i list option"

record ('r, 'i) replica =
  rpURL :: string
  rpSyncInterval :: "int option"
  rpRecipients :: "'r list"
  rpIdentities :: "'i list"

type_synonym environment = "string \<Rightarrow> string"

definition envOr :: "environment \<Rightarrow> string \<Rightarrow> string \<Rightarrow> string" where
  "envOr env key fallback = (if env key \<noteq> '''' then env key else fallback)"

definition replicaBucket :: "environment \<Rightarrow> string" where
  "replicaBucket env = envOr env ''REPLICATE_S3_BUCKET'' ''replicate''"

definition replicaPrefix :: "environment \<Rightarrow> string option \<Rightarrow> string" where
  "replicaPrefix env host =
     (if env ''REPLICATE_S3_PATH'' = '''' then (case host of None \<Rightarrow> '''' | Some h \<Rightarrow> h) else env ''REPLICATE_S3_PATH'')"

definition replicaURL :: "environment \<Rightarrow> string option \<Rightarrow> string" where
  "replicaURL env host =
     (let endpoint = env ''REPLICATE_S3_ENDPOINT''; region = envOr env ''REPLICATE_S3_REGION'' ''us-central1'';
          u0 = ''s3://'' @ PathEscape (replicaBucket env) @ ''/'' @ PathEscape (replicaPrefix env host) @ ''?endpoint=''
                 @ QueryEscape endpoint @ ''&region='' @ QueryEscape region @ ''&force-path-style=true'';
          ak = env ''REPLICATE_S3_ACCESS_KEY''; sk = env ''REPLICATE_S3_SECRET_KEY'';
          u1 = (if ak \<noteq> '''' then u0 @ ''&access_key='' @ QueryEscape ak else u0)
      in if sk \<noteq> '''' then u1 @ ''&secret_key='' @ QueryEscape sk else u1)"

text \<open>None is the function that does nothing.  A setting that is empty or does not parse keeps the default.\<close>

definition parsedOr :: "(string \<Rightarrow> 'a option) \<Rightarrow> string \<Rightarrow> 'a \<Rightarrow> 'a" where
  "parsedOr parse v fallback = (if v = '''' then fallback else case parse v of None \<Rightarrow> fallback | Some x \<Rightarrow> x)"

definition StartReplicate :: "environment \<Rightarrow> ('r, 'i) replicaWorld \<Rightarrow> ('r, 'i) replica option" where
  "StartReplicate env w =
     (if env ''REPLICATE_S3_ENDPOINT'' = '''' then None
      else
        (let u = replicaURL env (rwHostname w) in
         if \<not> rwClientAccepts w u then None
         else
           (let rep = \<lparr>rpURL = u,
                  rpSyncInterval = parsedOr (\<lambda>v. map_option Some (rwDuration w v)) (env ''REPLICATE_SYNC_INTERVAL'') None,
                  rpRecipients = parsedOr (rwRecipients w) (env ''REPLICATE_AGE_RECIPIENT'') [],
                  rpIdentities = parsedOr (rwIdentities w) (env ''REPLICATE_AGE_IDENTITY'') []\<rparr>
            in if rwOpens w then Some rep else None)))"

section \<open>Reading a URL back\<close>

fun unescape :: "bool \<Rightarrow> string \<Rightarrow> string option" where
  "unescape query [] = Some []"
| "unescape query (c # cs) =
     (if c = CHR ''%'' then
        (case cs of
           h # l # rest \<Rightarrow>
             (case (hexNibble h, hexNibble l) of
                (Some a, Some b) \<Rightarrow> map_option ((#) (char_of (a * 16 + b))) (unescape query rest)
              | _ \<Rightarrow> None)
         | _ \<Rightarrow> None)
      else map_option ((#) (if query \<and> c = CHR ''+'' then CHR '' '' else c)) (unescape query cs))"

fun splitOn :: "char \<Rightarrow> string \<Rightarrow> string list" where
  "splitOn d [] = [[]]"
| "splitOn d (c # cs) = (if c = d then [] # splitOn d cs else (case splitOn d cs of [] \<Rightarrow> [[c]] | p # ps \<Rightarrow> (c # p) # ps))"

definition cutAt :: "char \<Rightarrow> string \<Rightarrow> string \<times> string" where
  "cutAt d s = (let a = takeWhile (\<lambda>c. c \<noteq> d) s in (a, drop (Suc (length a)) s))"

definition readURL :: "string \<Rightarrow> string option \<times> string option \<times> (string \<times> string option) list" where
  "readURL u =
     (case cutAt (CHR ''?'') (drop 5 u) of (path, query) \<Rightarrow>
        (case cutAt (CHR ''/'') path of (bucket, dir) \<Rightarrow>
           (unescape False bucket, unescape False dir,
            map (\<lambda>f. case cutAt (CHR ''='') f of (k, v) \<Rightarrow> (k, unescape True v)) (splitOn (CHR ''&'') query))))"

lemma cutAt_first: "d \<notin> set a \<Longrightarrow> cutAt d (a @ d # b) = (a, b)"
  by (induction a) (auto simp: cutAt_def Let_def)

lemma splitOn_none: "d \<notin> set s \<Longrightarrow> splitOn d s = [s]"
  by (induction s) auto

lemma splitOn_first: "d \<notin> set a \<Longrightarrow> splitOn d (a @ d # b) = a # splitOn d b"
  by (induction a) auto

lemma hexNibble_upper: "d < 16 \<Longrightarrow> hexNibble (upperHex d) = Some d"
  by (auto simp: hexNibble_def upperHex_def Let_def)

lemma byte_split: "char_of (byteOf c div 16 * 16 + byteOf c mod 16) = c"
  by simp

lemma byte_halves: "byteOf c div 16 < 16" "byteOf c mod 16 < 16"
  using byteOf_less[of c] by (simp_all add: less_mult_imp_div_less)

lemma unescape_percent: "unescape q (percent c @ s) = map_option ((#) c) (unescape q s)"
  using byte_halves[of c] by (simp add: percent_def hexNibble_upper)

lemma unreserved_marks: "unreserved c \<Longrightarrow> c \<notin> set ''%+&=?/ ''"
  by (auto simp: unreserved_def Let_def byteOf_def)

lemma unescape_query: "unescape True (QueryEscape s @ t) = map_option ((@) s) (unescape True t)"
proof (induction s)
  case (Cons c s)
  have "(@) (c # s) = (\<lambda>t. c # s @ t)" by auto
  then show ?case using Cons unreserved_marks[of c] by (auto simp: QueryEscape_def unescape_percent option.map_comp comp_def)
qed (simp add: QueryEscape_def option.map_ident)

lemma unescape_path: "unescape False (PathEscape s @ t) = map_option ((@) s) (unescape False t)"
proof (induction s)
  case (Cons c s)
  have "(@) (c # s) = (\<lambda>t. c # s @ t)" by auto
  then show ?case using Cons unreserved_marks[of c] by (auto simp: PathEscape_def unescape_percent option.map_comp comp_def)
qed (simp add: PathEscape_def option.map_ident)

lemma unreserved_upperHex: "d < 16 \<Longrightarrow> unreserved (upperHex d)"
  by (auto simp: unreserved_def upperHex_def Let_def)

lemma set_percent: "x \<in> set (percent c) \<Longrightarrow> x = CHR ''%'' \<or> unreserved x"
  using byte_halves[of c] by (auto simp: percent_def unreserved_upperHex)

lemma query_marks: "x \<in> set (QueryEscape s) \<Longrightarrow> x \<notin> set ''&=?/''"
proof -
  assume "x \<in> set (QueryEscape s)"
  then have "x = CHR ''+'' \<or> x = CHR ''%'' \<or> unreserved x"
    by (auto simp: QueryEscape_def dest: set_percent split: if_splits)
  then show ?thesis using unreserved_marks[of x] by auto
qed

lemma path_marks: "x \<in> set (PathEscape s) \<Longrightarrow> x \<notin> set ''?/''"
proof -
  assume "x \<in> set (PathEscape s)"
  then have "x \<in> set ''$&+=:@'' \<or> x = CHR ''%'' \<or> unreserved x"
    by (auto simp: PathEscape_def dest: set_percent split: if_splits)
  then show ?thesis using unreserved_marks[of x] by auto
qed

lemma field_reads: "CHR ''='' \<notin> set k \<Longrightarrow> (case cutAt (CHR ''='') (k @ CHR ''='' # QueryEscape v) of (k, v) \<Rightarrow> (k, unescape True v)) = (k, Some v)"
  using unescape_query[of v "[]"] by (simp add: cutAt_first)

text \<open>The text after the mark, field by field.\<close>

definition queryText :: "(string \<times> string) list \<Rightarrow> string" where
  "queryText fs = joinWith ''&'' (map (\<lambda>(k, v). k @ CHR ''='' # QueryEscape v) fs)"

lemma queryText_reads:
  assumes "fs \<noteq> []" "\<forall>(k, v) \<in> set fs. CHR ''='' \<notin> set k \<and> CHR ''&'' \<notin> set k"
  shows "map (\<lambda>f. case cutAt (CHR ''='') f of (k, v) \<Rightarrow> (k, unescape True v)) (splitOn (CHR ''&'') (queryText fs))
    = map (\<lambda>(k, v). (k, Some v)) fs"
  using assms
proof (induction fs rule: induct_list012)
  case (2 kv)
  obtain k v where kv: "kv = (k, v)" by fastforce
  have "CHR ''&'' \<notin> set (k @ CHR ''='' # QueryEscape v)" using 2 kv query_marks by fastforce
  then show ?case using 2 field_reads[of k v] by (simp add: queryText_def kv splitOn_none)
next
  case (3 kv lw fs)
  obtain k v where kv: "kv = (k, v)" by fastforce
  have "CHR ''&'' \<notin> set (k @ CHR ''='' # QueryEscape v)" using 3 kv query_marks by fastforce
  then have "splitOn (CHR ''&'') (queryText (kv # lw # fs)) = (k @ CHR ''='' # QueryEscape v) # splitOn (CHR ''&'') (queryText (lw # fs))"
    using splitOn_first[of "CHR ''&''" "k @ CHR ''='' # QueryEscape v" "queryText (lw # fs)"] by (simp add: queryText_def kv)
  then show ?case using 3 field_reads[of k v] by (simp add: kv)
qed simp

definition replicaFields :: "environment \<Rightarrow> (string \<times> string) list" where
  "replicaFields env =
     [(''endpoint'', env ''REPLICATE_S3_ENDPOINT''), (''region'', envOr env ''REPLICATE_S3_REGION'' ''us-central1''),
      (''force-path-style'', ''true'')]
     @ (if env ''REPLICATE_S3_ACCESS_KEY'' \<noteq> '''' then [(''access_key'', env ''REPLICATE_S3_ACCESS_KEY'')] else [])
     @ (if env ''REPLICATE_S3_SECRET_KEY'' \<noteq> '''' then [(''secret_key'', env ''REPLICATE_S3_SECRET_KEY'')] else [])"

lemma replicaURL_fields:
  "replicaURL env host = ''s3://'' @ PathEscape (replicaBucket env) @ CHR ''/'' # PathEscape (replicaPrefix env host)
     @ CHR ''?'' # queryText (replicaFields env)"
proof -
  have t: "QueryEscape ''true'' = ''true''" by code_simp
  show ?thesis by (simp add: replicaURL_def queryText_def replicaFields_def Let_def t)
qed


section \<open>A key that does not parse\<close>

text \<open>A recipient key that does not parse does not stop the copy: the replica is opened all the same, with no recipient, so
the database leaves the host unencrypted.\<close>

theorem bad_recipient_streams_in_the_clear:
  assumes "env ''REPLICATE_S3_ENDPOINT'' \<noteq> ''''" "rwClientAccepts w (replicaURL env (rwHostname w))" "rwOpens w"
    "rwRecipients w (env ''REPLICATE_AGE_RECIPIENT'') = None"
  shows "\<exists>rep. StartReplicate env w = Some rep \<and> rpURL rep = replicaURL env (rwHostname w) \<and> rpRecipients rep = []"
  using assms by (simp add: StartReplicate_def Let_def parsedOr_def)

definition exWorld :: "(string, string) replicaWorld" where
  "exWorld =
     \<lparr>rwHostname = Some ''node-1'', rwClientAccepts = (\<lambda>_. True), rwOpens = True, rwDuration = (\<lambda>_. None),
      rwRecipients = (\<lambda>v. if hasPrefix v ''age1'' then Some [v] else None), rwIdentities = (\<lambda>_. None)\<rparr>"

definition exEnv :: environment where
  "exEnv k = (if k = ''REPLICATE_S3_ENDPOINT'' then ''s3.example'' else if k = ''REPLICATE_AGE_RECIPIENT'' then '' age1pq'' else '''')"

theorem bad_recipient_streams_in_the_clear_witness:
  "\<exists>rep. StartReplicate exEnv exWorld = Some rep \<and> rpURL rep = replicaURL exEnv (rwHostname exWorld) \<and> rpRecipients rep = []"
  by (rule bad_recipient_streams_in_the_clear) (simp_all add: exEnv_def exWorld_def hasPrefix_def)

end
