(* ===== verification/Spec2Isabelle.thy ===== *)
theory Spec2Isabelle
  imports DefiGovernance DefiTreasury DefiLiquid DefiDao Abi Amm Node Quoter SwapCall StoreQuery QueryLimits CursorProgress Clob SwapTimes Valuation DaySeries Revalue SqlStore QuoteAnswer Daemon Tokens Backfill System Subgraph Server Replicate
begin

text \<open>
  luxfi/graph indexes the logs of an EVM chain into a store of entities and answers GraphQL queries, swap
  quotes and router calls from it.  This library models the parts of it that decide something, in the order
  data flows through them, and proves what makes them correct.  The code is under src/.

  \<^bold>\<open>Shared.\<close>  Prelude: Go's text and number primitives (trimming, prefixes, hexadecimal and decimal
  scanning of \<open>big.Int.SetString\<close>), the filters over logs.  Strings are lists of bytes.  Value: the
  dynamic values of a JSON document and a Go map as an association list without duplicate keys, whose
  order stands for one iteration order.  Float64: IEEE doubles as exact rationals with rounding to even,
  infinities and NaN, as far as the code computes with them.

  \<^bold>\<open>Event decoders\<close> (src/evm/defi): EvmLog, DefiGovernance, DefiTreasury, DefiLiquid, DefiDao.  One
  definition per \<open>parse*\<close> function, \<open>step*\<close> for the body of the loop of each \<open>Parse*Events\<close>.  The locale
  \<open>log_stream\<close> is what every one of their lists satisfies; its lemmas give that each list is the filter of
  its decoder and that every event carries the origin of a log that was given.

  \<^bold>\<open>Store\<close> (src/storage): Store holds the rows, the operations on them and the flat entity table of the map
  backend (store_memory.go); StoreQuery holds \<open>where\<close>, \<open>orderBy\<close>, \<open>limit\<close> (store.go).  The locale
  \<open>entity_store\<close> states the entity contract; the two backends and the subgraph cache interpret it.  SqlStore is the SQL backend (store_sqlite.go), tables being
  lists of rows in row id order and each statement the operation on them it denotes; \<open>sqlX\<close> is the method
  \<open>X\<close> there.  The indexer and the engine run on the map backend's state: \<open>backends_agree\<close> carries reads by
  key over to the other one.  Replicate is the copy of the database file (replicate.go): what the environment
  makes of the replica; the replication and key packages are fields of \<open>replicaWorld\<close>.

  \<^bold>\<open>Query engine\<close> (src/engine/engine.go, amm.go, v4.go, resolvers.go, src/resolvers): QueryParser is
  \<open>parseTopFields\<close> with all its helpers, a panic being the outcome \<open>Panics\<close>; Resolvers and AmmResolvers are
  the tables of every schema with the resolver bodies; Engine is the table, \<open>LoadBuiltin\<close> and \<open>Execute\<close>;
  QueryLimits carries the clamp on row counts through every resolver of every schema.

  \<^bold>\<open>Quotes and calls\<close> (src/engine/quote.go, node.go, swap.go, approval.go): Abi has words, addresses and
  amounts; Amm the constant-product arithmetic; Node the positional batch (locale \<open>positional\<close>); Routing
  the pool book and the enumeration of candidate routes; Quoter the venue cache, one pricing pass and
  \<open>best\<close>; SwapCall the router calldata and the approval; QuoteAnswer the quote endpoint around \<open>best\<close>, from
  the decoded request to the answer; Tokens the token list (tokens.go), whose order is the \<open>linorder\<close> of \<open>rank\<close>.
  Keccak-256 and the answers of the node are parameters.

  \<^bold>\<open>Indexer\<close> (src/indexer): Events the signatures; LogEntry the log fields and words; Erc20 what a token
  contract answers and the read-once memo; Backfill the token pass at start-up; Securities the ERC-3643 handlers; Handlers the AMM, V4 and DEX
  handlers and \<open>processLog\<close>; Cursor \<open>NewWithConfig\<close>, the re-genesis rule, block times and \<open>poll\<close>; and
  CursorProgress what many polls achieve.  A chain is the record \<open>chainView\<close>: what each request of one poll
  answers, None for an error.  The inductive relation \<open>reached\<close> is the loop of \<open>Run\<close> with one view per poll;
  \<open>indexes\<close> is a run of \<open>processLog\<close> over logs.

  \<^bold>\<open>Derived figures\<close> (src/indexer/clob.go, blocks.go, valuation.go, series.go, supply.go): FloatText is
  \<open>strconv.FormatFloat\<close> as these files call it; Clob the native order book's source, its trade drain and the
  loop of \<open>Run\<close>; SwapTimes \<open>healSwapTimes\<close> and the loop of \<open>keepSwapTimes\<close>; Valuation the balance reads, the
  price relaxation and what a trade is worth; DaySeries the cells, candles and rows of a day; Revalue one
  whole pass, \<open>revalue\<close>, with the supply of the native coin.  The memo \<open>idx.written\<close> is part of the state of
  a pass; what the node answers is the record \<open>valView\<close>.

  \<^bold>\<open>Daemon\<close> (src/cmd/graphd, src/wasm): Daemon is the rate limiter and the middleware (ratelimit.go, main.go); its
  locale \<open>meter\<close> is what bounds the admissions of any metered state, interpreted on the bucket of an address.
  Server is the routes, the query endpoint with its counters, the probes and the pages (main.go, metrics.go).
  System puts the jobs of the process over one store: \<open>startDaemon\<close> is a start, \<open>work\<close> one job, \<open>runs\<close> a run of
  them with restarts, and \<open>typed\<close> the type of the store that every job keeps.  Subgraph is the entity cache, the
  loader and the event entry of the subgraph runtime (runtime.go); files and YAML are parameters.

  \<^bold>\<open>What the lemmas show.\<close>  Type: through any run of the daemon each table holds a key once, token decimals are
  a byte, and what is read at a type and an id is nothing or a document with that id.  Refinement: each parser list is a filter, the entity table is a map from type and
  id, the freeze snapshot is the last freeze event, the day cell of a pool is the count, the volume and the
  candle of that day of its trades, the two backends answer every read by key alike.  Safety: trades come from pools that a canonical factory created, the
  cursor falls only after three low heads and a changed genesis hash, a data answer keeps every limit, a
  valuation pass rewrites derived figures and nothing an event wrote, a quote over V3 pools handed back
  becomes a call for its chain, its swapper and its amount; a token on offer is held by a pool the quoter
  books.  Bounds: a client is admitted at most its burst and the rate over the time; lists are capped.  Progress and termination: a node that
  keeps answering brings the cursor to its head in one poll per 2001 blocks, a poll of the order book ends,
  the loop that dates old swaps ends with every row dated.  Equivalence: candidate routes are exactly the
  paths of one or two pools, the query depth is the greatest brace balance, a token is priced exactly when
  pools connect it to a stable token, sweeping idle buckets changes no answer of the limiter.  Round trips:
  words, amounts, ABI strings, router calls, stored negative legs, the replica URL.  Errors: the two panics a hostile query or a hostile token contract can cause, the rows a
  full page of the order book loses, the price that depends on the order of equal pools, the matches a SQL
  limit cuts before a filter sees them; which reply the quote endpoint gives to which request; the probes that
  are rate limited, the daemon that stays unready after a restart at the head, the start that a hostile token
  stops, the replica that a bad key leaves unencrypted.

  \<^bold>\<open>Bounds.\<close>  Loops are structural recursions or functions with a termination proof; the trade drain of the
  order book may run for ever on a hostile node and is a \<open>partial_function (option)\<close>.  The price relaxation
  runs the code's six rounds, and the shortest decimal of a float needs at most seventeen digits.  Block
  numbers, the cursor and ABI lengths are 64-bit words and wrap as in Go; \<open>big.Int\<close> is \<open>int\<close>.  Panics of
  slice expressions are values.  A float64 carries no sign at zero.

  \<^bold>\<open>Not modelled.\<close>  Input and output: the transport of HTTP and of the node's JSON, JSON and YAML decoding, flags,
  signals, logging, sleeping.  Concurrency: a job, a request or a poll is one step; the code's locks make each
  store operation one step, and jobs interleave between them.  The structs of types.go and v4_types.go are data
  that no code reads or writes; GraphiQL and \<open>Subgraph.Info\<close> are texts.
\<close>


definition exVoteLog :: log where
  "exVoteLog = \<lparr>logAddress = ''0xg'', logTopics = [TopicVoteCast, ''0xv''], logData = ''0x'', logBlockNumber = 5,
     logTxHash = ''0xt'', logIndex = ''0x0''\<rparr>"


end
